(* ===== verification/Prelude.thy ===== *)
theory Prelude
  imports Main "HOL-Library.Word"
begin

text \<open>
  Shared vocabulary of the development: the machine types of the C sources, bytes and byte
  strings, host memory with little-endian loads and stores, and the parts of the C standard
  library the sources call (decimal printing of \<^verbatim>\<open>%u\<close> and \<^verbatim>\<open>%d\<close>, \<^verbatim>\<open>isspace\<close>, \<^verbatim>\<open>strtoul\<close>,
  \<^verbatim>\<open>strtoll\<close>, \<^verbatim>\<open>atoi\<close>, \<^verbatim>\<open>strchr\<close>), each with the lemmas the component theories use.
  A C byte is a HOL \<open>char\<close> (both have exactly 256 values), so byte buffers and text are the
  same type and string literals can be written directly.
\<close>

unbundle bit_operations_syntax

section \<open>Types\<close>

type_synonym byte = char
type_synonym u8 = "8 word"
type_synonym u16 = "16 word"
type_synonym u32 = "32 word"
type_synonym u64 = "64 word"

text \<open>A host address space: every 64-bit address holds a byte.\<close>

type_synonym hmem = "u64 \<Rightarrow> byte"

text \<open>What undefined behaviour or a trap of the C program is reported as.\<close>

datatype ub = NullDeref | DivByZero | OutOfBounds | SignedOverflow | AssertFailed

named_theorems cmem "loads and stores of host memory"
named_theorems ctext "decimal printing and parsing"

section \<open>Error results\<close>

text \<open>Sequencing of steps that may end in undefined behaviour.\<close>

definition bind_ub :: "ub + 'a \<Rightarrow> ('a \<Rightarrow> ub + 'b) \<Rightarrow> ub + 'b" where
  "bind_ub x f = (case x of Inl e \<Rightarrow> Inl e | Inr a \<Rightarrow> f a)"

lemma bind_ub_simps [simp]:
  "bind_ub (Inl e) f = Inl e"
  "bind_ub (Inr a) f = f a"
  by (simp_all add: bind_ub_def)

lemma bind_ub_Inr_iff: "bind_ub x f = Inr b \<longleftrightarrow> (\<exists>a. x = Inr a \<and> f a = Inr b)"
  by (cases x) auto

lemma bind_ub_Inl_iff: "bind_ub x f = Inl e \<longleftrightarrow> x = Inl e \<or> (\<exists>a. x = Inr a \<and> f a = Inl e)"
  by (cases x) auto

lemma bind_ub_assoc: "bind_ub (bind_ub x f) g = bind_ub x (\<lambda>a. bind_ub (f a) g)"
  by (cases x) auto

section \<open>Little-endian bytes\<close>

fun le_bytes :: "nat \<Rightarrow> nat \<Rightarrow> byte list" where
  "le_bytes 0 n = []"
| "le_bytes (Suc k) n = char_of n # le_bytes k (n div 256)"

fun le_val :: "byte list \<Rightarrow> nat" where
  "le_val [] = 0"
| "le_val (b # bs) = of_char b + 256 * le_val bs"

lemma length_le_bytes [simp]: "length (le_bytes k n) = k"
  by (induction k arbitrary: n) auto

lemma le_bytes_2: "le_bytes 2 n = [char_of n, char_of (n div 256)]"
proof -
  have "2 = Suc (Suc 0)" by simp
  then show ?thesis by (simp only: le_bytes.simps)
qed

lemma le_bytes_4: "le_bytes 4 n = [char_of n, char_of (n div 256), char_of (n div 256 div 256),
    char_of (n div 256 div 256 div 256)]"
proof -
  have "4 = Suc (Suc (Suc (Suc 0)))" by simp
  then show ?thesis by (simp only: le_bytes.simps)
qed

lemma le_val_le_bytes [cmem]: "le_val (le_bytes k n) = n mod 256 ^ k"
proof (induction k arbitrary: n)
  case 0
  then show ?case by simp
next
  case (Suc k)
  have "n mod 256 + 256 * (n div 256 mod 256 ^ k) = n mod (256 * 256 ^ k)"
    by (simp add: mod_mult2_eq)
  then show ?case by (simp add: Suc)
qed

lemma le_bytes_le_val [cmem]: "length bs = k \<Longrightarrow> le_bytes k (le_val bs) = bs"
proof (induction k arbitrary: bs)
  case 0
  then show ?case by simp
next
  case (Suc k)
  then obtain b cs where bs: "bs = b # cs" "length cs = k"
    by (cases bs) auto
  have b: "(of_char b :: nat) < 256" by (rule nat_of_char_less_256)
  have "char_of (of_char b + 256 * le_val cs) = b"
  proof -
    have "char_of (of_char b + 256 * le_val cs) = (char_of ((of_char b + 256 * le_val cs) mod 256) :: char)"
      by (simp only: char_of_mod_256)
    also have "\<dots> = b" by (simp add: b)
    finally show ?thesis .
  qed
  moreover have "(of_char b + 256 * le_val cs) div 256 = le_val cs"
    using b by simp
  ultimately show ?case using Suc.IH bs by simp
qed

lemma le_val_less [cmem]: "le_val bs < 256 ^ length bs"
proof (induction bs)
  case Nil
  then show ?case by simp
next
  case (Cons b bs)
  have step: "c < 256 \<Longrightarrow> v < X \<Longrightarrow> c + 256 * v < 256 * X" for c v X :: nat
    by linarith
  show ?case using step [OF nat_of_char_less_256 Cons] by simp
qed

section \<open>Host memory\<close>

lemma unat_lt_256: "unat (w :: u32) mod 256 ^ 4 = unat w" "unat (v :: u16) mod 256 ^ 2 = unat v"
  by (rule mod_less, rule order_less_le_trans [OF unsigned_less], simp)+

lemma unat64 [simp]: "n < 2 ^ 64 \<Longrightarrow> unat (of_nat n :: u64) = n"
  by (simp add: unat_of_nat)

lemma unat32 [simp]: "n < 2 ^ 32 \<Longrightarrow> unat (of_nat n :: u32) = n"
  by (simp add: unat_of_nat)

lemma ucast_u32_u64 [simp]: "unat (ucast (w :: u32) :: u64) = unat w"
proof -
  have "unat w < 2 ^ 64" by (rule order_less_le_trans [OF unsigned_less]) simp
  then show ?thesis by (simp add: unsigned_ucast_eq take_bit_nat_eq_self)
qed

lemma ucast_u16_u64 [simp]: "unat (ucast (w :: u16) :: u64) = unat w"
proof -
  have "unat w < 2 ^ 64" by (rule order_less_le_trans [OF unsigned_less]) simp
  then show ?thesis by (simp add: unsigned_ucast_eq take_bit_nat_eq_self)
qed

lemma ucast_u16_u32 [simp]: "unat (ucast (w :: u16) :: u32) = unat w"
proof -
  have "unat w < 2 ^ 32" by (rule order_less_le_trans [OF unsigned_less]) simp
  then show ?thesis by (simp add: unsigned_ucast_eq take_bit_nat_eq_self)
qed

lemma ucast_back [simp]:
  "ucast (ucast (w :: u32) :: u64) = w" "ucast (ucast (v :: u16) :: u64) = v" "ucast (ucast (v :: u16) :: u32) = v"
  by (rule bit_word_eqI, simp add: bit_ucast_iff)+

text \<open>A 64-bit value is put together again from its two 32-bit halves.\<close>

lemma halves_u64: "ucast (ucast (a :: u64) :: u32) OR push_bit 32 (ucast (ucast (drop_bit 32 a) :: u32)) = a"
proof (rule bit_word_eqI)
  fix n assume "n < LENGTH(64)"
  then show "bit (ucast (ucast a :: u32) OR push_bit 32 (ucast (ucast (drop_bit 32 a) :: u32)) :: u64) n = bit a n"
    by (auto simp: bit_or_iff bit_push_bit_iff bit_ucast_iff bit_drop_bit_eq)
qed

lemma of_char_less: "(of_char (c :: byte) :: nat) < 2 ^ 32"
  by (rule order_less_le_trans [OF nat_of_char_less_256]) simp

lemma unat16 [simp]: "n < 2 ^ 16 \<Longrightarrow> unat (of_nat n :: u16) = n"
  by (simp add: unat_of_nat)

definition ld_bytes :: "hmem \<Rightarrow> u64 \<Rightarrow> nat \<Rightarrow> byte list" where
  "ld_bytes m a n = map (\<lambda>i. m (a + of_nat i)) [0..<n]"

definition st_bytes :: "hmem \<Rightarrow> u64 \<Rightarrow> byte list \<Rightarrow> hmem" where
  "st_bytes m a bs = (\<lambda>x. if unat (x - a) < length bs then bs ! unat (x - a) else m x)"

definition ld16 :: "hmem \<Rightarrow> u64 \<Rightarrow> u16" where
  "ld16 m a = of_nat (le_val (ld_bytes m a 2))"

definition ld32 :: "hmem \<Rightarrow> u64 \<Rightarrow> u32" where
  "ld32 m a = of_nat (le_val (ld_bytes m a 4))"

definition ld64 :: "hmem \<Rightarrow> u64 \<Rightarrow> u64" where
  "ld64 m a = of_nat (le_val (ld_bytes m a 8))"

definition st16 :: "hmem \<Rightarrow> u64 \<Rightarrow> u16 \<Rightarrow> hmem" where
  "st16 m a w = st_bytes m a (le_bytes 2 (unat w))"

definition st32 :: "hmem \<Rightarrow> u64 \<Rightarrow> u32 \<Rightarrow> hmem" where
  "st32 m a w = st_bytes m a (le_bytes 4 (unat w))"

lemma length_ld_bytes [simp]: "length (ld_bytes m a n) = n"
  by (simp add: ld_bytes_def)

lemma ld_bytes_nth: "i < n \<Longrightarrow> ld_bytes m a n ! i = m (a + of_nat i)"
  by (simp add: ld_bytes_def)

lemma ld_bytes_0 [simp]: "ld_bytes m a 0 = []"
  by (simp add: ld_bytes_def)

lemma ld_bytes_cong: "(\<And>i. i < n \<Longrightarrow> m (a + of_nat i) = m' (a' + of_nat i)) \<Longrightarrow>
    ld_bytes m a n = ld_bytes m' a' n"
  by (simp add: ld_bytes_def)

lemma st_bytes_outside [cmem]: "length bs \<le> unat (x - a) \<Longrightarrow> st_bytes m a bs x = m x"
  by (simp add: st_bytes_def)

lemma ld_st_same [cmem]:
  assumes "n = length bs" and "length bs \<le> 2 ^ 64"
  shows "ld_bytes (st_bytes m a bs) a n = bs"
proof (rule nth_equalityI)
  show "length (ld_bytes (st_bytes m a bs) a n) = length bs" using assms by simp
next
  fix i assume "i < length (ld_bytes (st_bytes m a bs) a n)"
  then have i: "i < length bs" using assms by simp
  then have "unat (of_nat i :: u64) = i"
    using assms by (intro unat64) simp
  then show "ld_bytes (st_bytes m a bs) a n ! i = bs ! i"
    using i assms by (simp add: ld_bytes_nth st_bytes_def)
qed

lemma ld_bytes_take: "k \<le> n \<Longrightarrow> ld_bytes m a k = take k (ld_bytes m a n)"
  by (rule nth_equalityI) (auto simp: ld_bytes_nth)

lemma ld_bytes_drop: "k \<le> n \<Longrightarrow> ld_bytes m (a + of_nat k) (n - k) = drop k (ld_bytes m a n)"
  by (rule nth_equalityI) (auto simp: ld_bytes_nth algebra_simps)

lemma ld32_le_bytes [cmem]: "of_nat (le_val (le_bytes 4 (unat (w :: u32)))) = w"
  by (simp only: le_val_le_bytes unat_lt_256) simp

lemma ld16_le_bytes [cmem]: "of_nat (le_val (le_bytes 2 (unat (w :: u16)))) = w"
  by (simp only: le_val_le_bytes unat_lt_256) simp

lemma ld_st_16 [cmem]: "ld16 (st16 m a w) a = w"
  by (simp add: ld16_def st16_def ld_st_same ld16_le_bytes)

lemma ld_st_32 [cmem]: "ld32 (st32 m a w) a = w"
  by (simp add: ld32_def st32_def ld_st_same ld32_le_bytes)

text \<open>Two ranges are apart when no byte of the first lies in the second.\<close>

definition apart :: "u64 \<Rightarrow> nat \<Rightarrow> u64 \<Rightarrow> nat \<Rightarrow> bool" where
  "apart a n b k \<longleftrightarrow> (\<forall>i<n. k \<le> unat (a + of_nat i - b))"

lemma ld_st_apart [cmem]: "apart a n b (length bs) \<Longrightarrow> ld_bytes (st_bytes m b bs) a n = ld_bytes m a n"
  by (rule ld_bytes_cong) (simp add: apart_def st_bytes_outside)

lemma apart_offsets:
  assumes "p + n \<le> q \<or> q + k \<le> p" and "p + n \<le> 2 ^ 64" and "q + k \<le> 2 ^ 64"
  shows "apart (base + of_nat p) n (base + of_nat q) k"
proof -
  have "k \<le> unat (base + of_nat p + of_nat i - (base + of_nat q))" if i: "i < n" for i
  proof (cases "k = 0")
    case False
    have eq: "base + of_nat p + of_nat i - (base + of_nat q) = (of_nat (p + i) - of_nat q :: u64)"
      by simp
    have "unat (of_nat (p + i) - of_nat q :: u64) =
        (if q \<le> p + i then p + i - q else p + i + 2 ^ 64 - q)"
      using assms i False by (subst unat_sub_if') (simp add: unat64 del: of_nat_add)
    then show ?thesis unfolding eq using assms i by (auto simp del: of_nat_add)
  qed simp
  then show ?thesis by (simp add: apart_def)
qed

end
