(* ===== verification/Gpa.thy ===== *)
theory Gpa
  imports Prelude
begin

text \<open>
  The contract of a guest-address translation, which two components of the repository
  provide: \<^verbatim>\<open>vmm_gpa_to_host\<close> (one RAM region, theory \<open>Machine\<close>) and \<^verbatim>\<open>virtq_gpa_to_hva\<close>
  (a table of regions, theory \<open>Virtq\<close>).  A window \<open>(b, n, h)\<close> says that the guest-physical
  addresses \<open>[b, b + n)\<close> are mapped at host address \<open>h\<close>.  Addresses are compared as
  natural numbers, so a range that runs past \<open>2 ^ 64\<close> is not inside any window.
\<close>

type_synonym window = "u64 \<times> nat \<times> u64"

definition in_window :: "window \<Rightarrow> u64 \<Rightarrow> u64 \<Rightarrow> bool" where
  "in_window w gpa len = (case w of (b, n, h) \<Rightarrow>
     unat b \<le> unat gpa \<and> unat gpa + unat len \<le> unat b + n)"

definition host_of :: "window \<Rightarrow> u64 \<Rightarrow> u64" where
  "host_of w gpa = (case w of (b, n, h) \<Rightarrow> h + (gpa - b))"

text \<open>A host address lies in the memory behind a window.\<close>

definition backed_by :: "window \<Rightarrow> u64 \<Rightarrow> bool" where
  "backed_by w a = (case w of (b, n, h) \<Rightarrow> unat (a - h) < n)"

lemma in_window_byte:
  assumes "in_window w gpa len" and "i < unat len"
  shows "backed_by w (host_of w gpa + of_nat i)"
proof -
  obtain b n h where w: "w = (b, n, h)" by (cases w)
  have le: "unat b \<le> unat gpa" "unat gpa + unat len \<le> unat b + n"
    using assms(1) by (simp_all add: in_window_def w)
  have "unat (gpa - b + of_nat i) \<le> unat (gpa - b) + unat (of_nat i :: u64)"
    by (simp add: unat_word_ariths(1))
  also have "\<dots> \<le> (unat gpa - unat b) + i"
    using le by (simp add: unat_sub word_le_nat_alt unat_of_nat)
  also have "\<dots> < n" using le assms(2) by linarith
  finally show ?thesis by (simp add: backed_by_def host_of_def w algebra_simps)
qed

text \<open>
  \<open>xlate m gpa len\<close> is the host pointer, \<open>None\<close> for \<^verbatim>\<open>NULL\<close>.  Zero-length ranges are left to
  the provider (the two functions of the repository differ on them).
\<close>

locale gpa_translation =
  fixes xlate :: "'m \<Rightarrow> u64 \<Rightarrow> u64 \<Rightarrow> u64 option"
    and windows :: "'m \<Rightarrow> window set"
  assumes sound: "xlate m gpa len = Some p \<Longrightarrow>
      \<exists>w\<in>windows m. in_window w gpa len \<and> p = host_of w gpa"
    and complete: "w \<in> windows m \<Longrightarrow> in_window w gpa len \<Longrightarrow> 0 < len \<Longrightarrow> xlate m gpa len \<noteq> None"
begin

lemma None_iff:
  assumes "0 < len"
  shows "xlate m gpa len = None \<longleftrightarrow> (\<forall>w\<in>windows m. \<not> in_window w gpa len)"
  using assms sound [of m gpa len] complete [of _ m gpa len] by (cases "xlate m gpa len") auto

text \<open>Every byte of a translated range is backed by one window.\<close>

lemma bytes_backed:
  assumes "xlate m gpa len = Some p"
  shows "\<exists>w\<in>windows m. \<forall>i<unat len. backed_by w (p + of_nat i)"
  using sound [OF assms] in_window_byte by blast

text \<open>A range that wraps around the address space is refused when no window wraps.\<close>

lemma overflow_refused:
  assumes "\<forall>(b, n, h)\<in>windows m. unat b + n \<le> 2 ^ 64" and "2 ^ 64 < unat gpa + unat len"
  shows "xlate m gpa len = None"
proof (rule ccontr)
  assume "xlate m gpa len \<noteq> None"
  then obtain p where "xlate m gpa len = Some p" by auto
  then obtain w where "w \<in> windows m" "in_window w gpa len" using sound by blast
  with assms show False by (cases w) (fastforce simp: in_window_def)
qed

text \<open>A store of at most \<open>len\<close> bytes through a translated pointer changes window memory only.\<close>

lemma store_confined:
  assumes "xlate m gpa len = Some p" and "length bs \<le> unat len"
    and "st_bytes hm p bs a \<noteq> hm a"
  shows "\<exists>w\<in>windows m. backed_by w a"
proof -
  from assms(3) have lt: "unat (a - p) < length bs" by (simp add: st_bytes_def split: if_splits)
  then have "unat (a - p) < unat len" using assms(2) by simp
  with bytes_backed [OF assms(1)] obtain w where "w \<in> windows m" "backed_by w (p + of_nat (unat (a - p)))"
    by blast
  then show ?thesis by auto
qed

end

end
