(* ===== verification/CText.thy ===== *)
theory CText
  imports Prelude
begin

text \<open>
  The text functions of the C standard library that the sources call, on NUL-free byte
  strings: \<^verbatim>\<open>%u\<close>/\<^verbatim>\<open>%d\<close>/\<^verbatim>\<open>%ld\<close> of \<^verbatim>\<open>printf\<close> (\<open>dec\<close>, \<open>dec_int\<close>), \<^verbatim>\<open>isspace\<close> in the C
  locale, \<^verbatim>\<open>strtoul\<close>, \<^verbatim>\<open>strtol\<close>/\<^verbatim>\<open>strtoll\<close> (base 10, saturating), \<^verbatim>\<open>atoi\<close>, \<^verbatim>\<open>strchr\<close>.  They are the
  language's library, not code of this repository, so they have no entry in the map.
\<close>

section \<open>Characters\<close>

abbreviation NUL :: byte where "NUL \<equiv> CHR 0x00"
abbreviation NL :: byte where "NL \<equiv> CHR 0x0A"
abbreviation CR :: byte where "CR \<equiv> CHR 0x0D"
abbreviation SP :: byte where "SP \<equiv> CHR 0x20"

definition is_digit :: "byte \<Rightarrow> bool" where
  "is_digit c = (48 \<le> (of_char c :: nat) \<and> (of_char c :: nat) \<le> 57)"

definition digit_val :: "byte \<Rightarrow> nat" where
  "digit_val c = of_char c - 48"

definition isspace :: "byte \<Rightarrow> bool" where
  "isspace c = (c = SP \<or> (9 \<le> (of_char c :: nat) \<and> (of_char c :: nat) \<le> 13))"

text \<open>A C string ends at its first NUL byte.\<close>

definition cstr :: "byte list \<Rightarrow> byte list" where
  "cstr bs = takeWhile (\<lambda>c. c \<noteq> NUL) bs"

lemma cstr_id [simp]: "NUL \<notin> set bs \<Longrightarrow> cstr bs = bs"
  unfolding cstr_def by (rule takeWhile_eq_all_conv [THEN iffD2]) auto

lemma cstr_append_NUL [simp]: "NUL \<notin> set bs \<Longrightarrow> cstr (bs @ NUL # cs) = bs"
  unfolding cstr_def by (subst takeWhile_append2) auto

section \<open>Decimal numbers\<close>

definition digit :: "nat \<Rightarrow> byte" where
  "digit d = ''0123456789'' ! d"

fun dec :: "nat \<Rightarrow> string" where
  "dec n = (if n < 10 then [digit n] else dec (n div 10) @ [digit (n mod 10)])"

declare dec.simps [simp del]

definition dec_int :: "int \<Rightarrow> string" where
  "dec_int i = (if i < 0 then CHR ''-'' # dec (nat (- i)) else dec (nat i))"

definition dec_val :: "string \<Rightarrow> nat" where
  "dec_val s = foldl (\<lambda>a c. 10 * a + digit_val c) 0 s"

lemma less_10_cases: "d < 10 \<Longrightarrow> d \<in> {0, 1, 2, 3, 4, 5, 6, 7, 8, 9 :: nat}"
  by auto

lemma digit_facts [ctext]:
  assumes "d < 10"
  shows "is_digit (digit d)" "digit_val (digit d) = d" "\<not> isspace (digit d)"
    "digit d \<noteq> CHR ''-''" "digit d \<noteq> CHR ''+''" "digit d \<noteq> NUL" "digit d \<noteq> NL" "digit d \<noteq> SP"
    "digit d \<noteq> CHR '']''" "digit d \<noteq> CHR ''.''"
  using less_10_cases [OF assms] by (auto simp: digit_def is_digit_def digit_val_def isspace_def)

lemma dec_nonempty [simp]: "dec n \<noteq> []"
  by (subst dec.simps) simp

lemma dec_set: "c \<in> set (dec n) \<Longrightarrow> \<exists>d<10. c = digit d"
proof (induction n rule: dec.induct)
  case (1 n)
  show ?case
  proof (cases "n < 10")
    case True
    with 1 show ?thesis by (auto simp: dec.simps [of n])
  next
    case False
    with 1 have "c \<in> set (dec (n div 10)) \<or> c = digit (n mod 10)"
      by (auto simp: dec.simps [of n])
    then show ?thesis using 1 False by (metis mod_less_divisor zero_less_numeral)
  qed
qed

lemma dec_chars [ctext]:
  assumes "c \<in> set (dec n)"
  shows "is_digit c" "\<not> isspace c" "c \<noteq> NUL" "c \<noteq> NL" "c \<noteq> SP" "c \<noteq> CHR '']''"
    "c \<noteq> CHR ''-''" "c \<noteq> CHR ''+''" "c \<noteq> CHR ''.''"
  using dec_set [OF assms] digit_facts by auto

lemma dec_no_special [simp]:
  "NUL \<notin> set (dec n)" "NL \<notin> set (dec n)" "SP \<notin> set (dec n)" "CHR '']'' \<notin> set (dec n)"
  "CR \<notin> set (dec n)"
proof -
  have "isspace CR" by (simp add: isspace_def)
  then show "NUL \<notin> set (dec n)" "NL \<notin> set (dec n)" "SP \<notin> set (dec n)" "CHR '']'' \<notin> set (dec n)"
    "CR \<notin> set (dec n)"
    using dec_chars by blast+
qed

lemma dec_val_dec [simp]: "dec_val (dec n) = n"
proof (induction n rule: dec.induct)
  case (1 n)
  show ?case
  proof (cases "n < 10")
    case True
    then show ?thesis by (simp add: dec.simps [of n] dec_val_def digit_facts)
  next
    case False
    then have "dec_val (dec n) = 10 * dec_val (dec (n div 10)) + n mod 10"
      by (subst dec.simps) (simp add: dec_val_def digit_facts)
    with 1 False show ?thesis by simp
  qed
qed

lemma dec_inj [simp]: "dec m = dec n \<longleftrightarrow> m = n"
  by (metis dec_val_dec)

lemma dec_length: "n < 10 ^ k \<Longrightarrow> 0 < k \<Longrightarrow> length (dec n) \<le> k"
proof (induction k arbitrary: n)
  case 0
  then show ?case by simp
next
  case (Suc k)
  show ?case
  proof (cases "n < 10")
    case True
    then show ?thesis by (simp add: dec.simps [of n])
  next
    case False
    with Suc.prems have "n div 10 < 10 ^ k" "0 < k"
      by (auto simp: less_mult_imp_div_less intro: Suc_leI gr0I)
    with Suc.IH False show ?thesis by (simp add: dec.simps [of n])
  qed
qed

section \<open>Parsing integers\<close>

text \<open>
  The common part of \<^verbatim>\<open>strtol\<close> and its kin: skip white space, read an optional sign, then
  digits.  The result is the sign, the digits and what follows them.
\<close>

definition scan_sign :: "string \<Rightarrow> bool \<times> string" where
  "scan_sign t = (case t of [] \<Rightarrow> (False, [])
     | c # r \<Rightarrow> if c = CHR ''-'' then (True, r) else if c = CHR ''+'' then (False, r) else (False, t))"

definition scan_int :: "string \<Rightarrow> bool \<times> string \<times> string" where
  "scan_int s = (let (neg, u) = scan_sign (dropWhile isspace s)
     in (neg, takeWhile is_digit u, dropWhile is_digit u))"

definition strtoul :: "string \<Rightarrow> u64" where
  "strtoul s = (case scan_int s of (neg, ds, _) \<Rightarrow>
     if 2 ^ 64 \<le> dec_val ds then - 1
     else if neg then - of_nat (dec_val ds) else of_nat (dec_val ds))"

text \<open>\<^verbatim>\<open>strtoll\<close> and (on LP64) \<^verbatim>\<open>strtol\<close>: the value and the rest (\<^verbatim>\<open>end\<close>).  Without digits
  nothing is consumed.\<close>

definition strtoll :: "string \<Rightarrow> int \<times> string" where
  "strtoll s = (case scan_int s of (neg, ds, rest) \<Rightarrow>
     if ds = [] then (0, s)
     else if neg then (max (- (2 ^ 63)) (- int (dec_val ds)), rest)
     else (min (2 ^ 63 - 1) (int (dec_val ds)), rest))"

definition atoi :: "string \<Rightarrow> int" where
  "atoi s = sint (word_of_int (fst (strtoll s)) :: u32)"

lemma takeWhile_digits_dec:
  assumes "r = [] \<or> \<not> is_digit (hd r)"
  shows "takeWhile is_digit (dec n @ r) = dec n" "dropWhile is_digit (dec n @ r) = r"
proof -
  have all: "\<forall>c\<in>set (dec n). is_digit c" using dec_chars(1) by blast
  show "takeWhile is_digit (dec n @ r) = dec n"
    using all assms by (cases r) (simp_all add: takeWhile_append2)
  show "dropWhile is_digit (dec n @ r) = r"
    using all assms by (cases r) (simp_all add: dropWhile_append2)
qed

lemma scan_int_dec [ctext]:
  assumes "r = [] \<or> \<not> is_digit (hd r)"
  shows "scan_int (dec n @ r) = (False, dec n, r)"
proof -
  obtain c cs where c: "dec n = c # cs" by (cases "dec n") auto
  then have "c \<in> set (dec n)" by simp
  then have "\<not> isspace c" "c \<noteq> CHR ''-''" "c \<noteq> CHR ''+''" using dec_chars by blast+
  then have "scan_sign (dropWhile isspace (dec n @ r)) = (False, dec n @ r)"
    by (simp add: scan_sign_def c)
  then show ?thesis by (simp add: scan_int_def takeWhile_digits_dec assms)
qed

lemma strtoul_dec [ctext]: "r = [] \<or> \<not> is_digit (hd r) \<Longrightarrow> n < 2 ^ 64 \<Longrightarrow> strtoul (dec n @ r) = of_nat n"
  by (simp add: strtoul_def scan_int_dec)

lemma strtoll_dec [ctext]: "r = [] \<or> \<not> is_digit (hd r) \<Longrightarrow> n < 2 ^ 63 \<Longrightarrow> strtoll (dec n @ r) = (int n, r)"
  by (simp add: strtoll_def scan_int_dec)

lemma strtoll_rest_length: "length (snd (strtoll s)) \<le> length s"
proof -
  have "length (dropWhile is_digit (snd (scan_sign t))) \<le> length t" for t
    by (rule order_trans [OF length_dropWhile_le]) (auto simp: scan_sign_def split: list.split)
  then have "length (snd (snd (scan_int s))) \<le> length s"
    unfolding scan_int_def by (simp add: split_beta) (meson length_dropWhile_le order_trans)
  then show ?thesis by (auto simp: strtoll_def split: prod.split)
qed

lemma strtoll_rest_less:
  assumes "snd (strtoll s) \<noteq> s"
  shows "length (snd (strtoll s)) < length s"
proof -
  obtain neg ds rest where sc: "scan_int s = (neg, ds, rest)" by (cases "scan_int s") auto
  with assms have ds: "ds \<noteq> []" "snd (strtoll s) = rest"
    by (auto simp: strtoll_def split: if_splits)
  let ?u = "snd (scan_sign (dropWhile isspace s))"
  have u: "length ?u \<le> length s"
    by (rule order_trans [OF _ length_dropWhile_le [of isspace s]])
      (auto simp: scan_sign_def split: list.split)
  have "ds = takeWhile is_digit ?u" "rest = dropWhile is_digit ?u"
    using sc by (auto simp: scan_int_def split_beta)
  then have "length ?u = length ds + length rest"
    by (metis length_append takeWhile_dropWhile_id)
  with u ds show ?thesis by (cases ds) auto
qed

section \<open>Searching strings\<close>

text \<open>\<^verbatim>\<open>strchr\<close>: the part before the first occurrence and the part after it.\<close>

definition split_at :: "byte \<Rightarrow> byte list \<Rightarrow> (byte list \<times> byte list) option" where
  "split_at c s = (if c \<in> set s then Some (takeWhile (\<lambda>x. x \<noteq> c) s, tl (dropWhile (\<lambda>x. x \<noteq> c) s)) else None)"

lemma split_at_append [simp]: "c \<notin> set a \<Longrightarrow> split_at c (a @ c # b) = Some (a, b)"
  by (induction a) (auto simp: split_at_def)

lemma split_at_None [simp]: "c \<notin> set a \<Longrightarrow> split_at c a = None"
  by (simp add: split_at_def)

lemma split_at_Some:
  assumes "split_at c s = Some (a, b)"
  shows "s = a @ c # b \<and> c \<notin> set a"
proof -
  from assms have "c \<in> set s" by (simp add: split_at_def split: if_splits)
  then obtain ys zs where s: "s = ys @ c # zs" "c \<notin> set ys"
    by (auto dest: split_list_first)
  then have "split_at c s = Some (ys, zs)" by simp
  with assms s show ?thesis by simp
qed

end
