(* ===== verification/Logstore.thy ===== *)
theory Logstore
  imports CText
begin

text \<open>
  \<^verbatim>\<open>project_1/emulator/logstore.c\<close>: the one sink every ingest path appends to.  The store owns
  the record format and a mutex.  A call of \<^verbatim>\<open>logstore_append\<close> is the list of its library
  calls (\<open>append_ops\<close>), run one after the other; \<open>Logstore_Conc\<close> interleaves the same
  lists for concurrent producers.  Standard output buffering is explicit: \<^verbatim>\<open>fprintf\<close>,
  \<^verbatim>\<open>fwrite\<close> and \<^verbatim>\<open>fputc\<close> fill \<open>ls_buf\<close>, \<^verbatim>\<open>fflush\<close> moves it to \<open>ls_disk\<close>.  (The C library
  may write a full buffer earlier; \<open>ls_contents\<close> does not depend on when.)  A full disk
  is not modelled: the code ignores every result of \<^verbatim>\<open>fwrite\<close> and its kin.
\<close>

section \<open>State and operations\<close>

record logstore =
  ls_buf :: "byte list"
  ls_disk :: "byte list"
  ls_lock :: "nat option"

definition ls_contents :: "logstore \<Rightarrow> byte list" where
  "ls_contents ls = ls_disk ls @ ls_buf ls"

definition level_name :: "u32 \<Rightarrow> string" where
  "level_name level =
     (if level = 0 then ''DEBUG''
      else if level = 1 then ''INFO''
      else if level = 2 then ''WARN''
      else if level = 3 then ''ERROR''
      else ''LVL?'')"

text \<open>\<open>fopen(path, "w")\<close> truncates, so the store starts empty; both allocations may fail.\<close>

definition logstore_open :: "bool \<Rightarrow> bool \<Rightarrow> logstore option" where
  "logstore_open calloc_ok fopen_ok =
     (if \<not> calloc_ok then None
      else if \<not> fopen_ok then None
      else Some \<lparr>ls_buf = [], ls_disk = [], ls_lock = None\<rparr>)"

datatype ls_op =
    Mutex_lock
  | Fprintf_head u32 u32
  | Fwrite "byte list"
  | Fputc byte
  | Fflush
  | Mutex_unlock

definition head_text :: "u32 \<Rightarrow> u32 \<Rightarrow> string" where
  "head_text seq level = ''['' @ dec (unat seq) @ ''] '' @ level_name level @ '' ''"

text \<open>What one library call writes to the stream.\<close>

fun op_out :: "ls_op \<Rightarrow> byte list" where
  "op_out (Fprintf_head seq level) = head_text seq level"
| "op_out (Fwrite bs) = bs"
| "op_out (Fputc c) = [c]"
| "op_out _ = []"

text \<open>One library call made by thread \<open>t\<close> (the caller sees to it that a lock is free when
  it is taken).\<close>

fun ls_exec :: "nat \<Rightarrow> ls_op \<Rightarrow> logstore \<Rightarrow> logstore" where
  "ls_exec t Mutex_lock ls = ls\<lparr>ls_lock := Some t\<rparr>"
| "ls_exec t Mutex_unlock ls = ls\<lparr>ls_lock := None\<rparr>"
| "ls_exec t Fflush ls = ls\<lparr>ls_disk := ls_disk ls @ ls_buf ls, ls_buf := []\<rparr>"
| "ls_exec t op ls = ls\<lparr>ls_buf := ls_buf ls @ op_out op\<rparr>"

definition append_ops :: "u32 \<Rightarrow> u32 \<Rightarrow> byte list \<Rightarrow> ls_op list" where
  "append_ops seq level bs =
     [Mutex_lock, Fprintf_head seq level] @ (if bs \<noteq> [] then [Fwrite bs] else []) @
     [Fputc NL, Fflush, Mutex_unlock]"

definition logstore_append :: "logstore \<Rightarrow> u32 \<Rightarrow> u32 \<Rightarrow> byte list \<Rightarrow> logstore" where
  "logstore_append ls seq level bs = fold (ls_exec 0) (append_ops seq level bs) ls"

definition logstore_flush :: "logstore \<Rightarrow> logstore" where
  "logstore_flush ls = fold (ls_exec 0) [Mutex_lock, Fflush, Mutex_unlock] ls"

text \<open>\<^verbatim>\<open>fclose\<close> writes what is still buffered: the file's final content.\<close>

definition logstore_close :: "logstore option \<Rightarrow> byte list option" where
  "logstore_close x = (case x of None \<Rightarrow> None | Some ls \<Rightarrow> Some (ls_contents ls))"

section \<open>The record format\<close>

definition fmt_record :: "u32 \<Rightarrow> u32 \<Rightarrow> byte list \<Rightarrow> byte list" where
  "fmt_record seq level bs = head_text seq level @ bs @ [NL]"

lemma append_ops_out: "concat (map op_out (append_ops seq level bs)) = fmt_record seq level bs"
  by (simp add: append_ops_def fmt_record_def)

lemma ls_contents_exec: "ls_contents (ls_exec t op ls) = ls_contents ls @ op_out op"
  by (cases op) (simp_all add: ls_contents_def)

lemma ls_contents_fold: "ls_contents (fold (ls_exec t) ops ls) = ls_contents ls @ concat (map op_out ops)"
  by (induction ops arbitrary: ls) (simp_all add: ls_contents_exec)

lemma contents_append: "ls_contents (logstore_append ls seq level bs) = ls_contents ls @ fmt_record seq level bs"
  by (simp add: logstore_append_def ls_contents_fold append_ops_out)

lemma contents_flush: "ls_contents (logstore_flush ls) = ls_contents ls"
  by (simp add: logstore_flush_def ls_contents_def)

text \<open>An append leaves nothing in the buffer and the mutex free.\<close>

lemma append_flushed: "ls_buf (logstore_append ls seq level bs) = []"
  "ls_lock (logstore_append ls seq level bs) = None"
  by (simp_all add: logstore_append_def append_ops_def)

lemma disk_append: "ls_buf ls = [] \<Longrightarrow>
    ls_disk (logstore_append ls seq level bs) = ls_disk ls @ fmt_record seq level bs"
  using contents_append [of ls seq level bs] by (simp add: ls_contents_def append_flushed)

section \<open>The contract of a record store\<close>

text \<open>
  What the clients (the MMIO device, the network listener, the virtio sink) rely on: an
  append adds exactly one formatted record at the end, a flush changes nothing that can be
  read back.
\<close>

type_synonym rec_call = "u32 \<times> u32 \<times> byte list"

definition fmt_call :: "rec_call \<Rightarrow> byte list" where
  "fmt_call c = (case c of (seq, level, bs) \<Rightarrow> fmt_record seq level bs)"

lemma fmt_call_simp [simp]: "fmt_call (seq, level, bs) = fmt_record seq level bs"
  by (simp add: fmt_call_def)

locale record_store =
  fixes append :: "'s \<Rightarrow> u32 \<Rightarrow> u32 \<Rightarrow> byte list \<Rightarrow> 's"
    and flush :: "'s \<Rightarrow> 's"
    and contents :: "'s \<Rightarrow> byte list"
  assumes append_contents: "contents (append s seq level bs) = contents s @ fmt_record seq level bs"
    and flush_contents: "contents (flush s) = contents s"
begin

definition append_call :: "rec_call \<Rightarrow> 's \<Rightarrow> 's" where
  "append_call c s = append s (fst c) (fst (snd c)) (snd (snd c))"

lemma contents_append_call: "contents (append_call c s) = contents s @ fmt_call c"
  by (simp add: append_call_def fmt_call_def append_contents split_beta)

lemma contents_append_all: "contents (fold append_call cs s) = contents s @ concat (map fmt_call cs)"
  by (induction cs arbitrary: s) (simp_all add: contents_append_call)

lemma append_grows: "length (contents (append s seq level bs)) > length (contents s)"
  by (simp add: append_contents fmt_record_def)

end

interpretation ls: record_store logstore_append logstore_flush ls_contents
  by unfold_locales (simp_all add: contents_append contents_flush)

section \<open>Reading a log back\<close>

text \<open>
  The abstract view of a log file: its records as (sequence number, level name, message).
  \<open>parse_record\<close> reads one line, \<open>parse_log\<close> a whole file.  Messages without a newline
  come back exactly, whatever else they contain.
\<close>

definition parse_record :: "byte list \<Rightarrow> (nat \<times> string \<times> byte list) option" where
  "parse_record line =
     (case line of CHR ''['' # r \<Rightarrow>
        (case split_at (CHR '']'') r of
           Some (ds, CHR '' '' # r2) \<Rightarrow>
             (case split_at SP r2 of
                Some (lv, msg) \<Rightarrow> Some (dec_val ds, lv, msg)
              | None \<Rightarrow> None)
         | _ \<Rightarrow> None)
      | _ \<Rightarrow> None)"

fun lines_of :: "byte list \<Rightarrow> byte list \<Rightarrow> byte list list" where
  "lines_of acc [] = []"
| "lines_of acc (c # cs) = (if c = NL then acc # lines_of [] cs else lines_of (acc @ [c]) cs)"

definition parse_log :: "byte list \<Rightarrow> (nat \<times> string \<times> byte list) option list" where
  "parse_log file = map parse_record (lines_of [] file)"

lemma level_name_chars: "SP \<notin> set (level_name l)" "NL \<notin> set (level_name l)"
  by (simp_all add: level_name_def)

lemma lines_of_line: "NL \<notin> set l \<Longrightarrow> lines_of acc (l @ NL # cs) = (acc @ l) # lines_of [] cs"
  by (induction l arbitrary: acc) auto

lemma parse_record_head:
  "parse_record (head_text seq level @ bs) = Some (unat seq, level_name level, bs)"
  by (simp add: parse_record_def head_text_def level_name_chars)

lemma parse_log_records:
  assumes "\<forall>c\<in>set cs. NL \<notin> set (snd (snd c))"
  shows "parse_log (concat (map fmt_call cs)) =
    map (\<lambda>c. Some (unat (fst c), level_name (fst (snd c)), snd (snd c))) cs"
  using assms
proof (induction cs)
  case Nil
  then show ?case by (simp add: parse_log_def)
next
  case (Cons c cs)
  obtain seq level bs where c: "c = (seq, level, bs)" by (cases c)
  let ?l = "head_text seq level @ bs"
  have "NL \<notin> set ?l" using Cons.prems c by (simp add: head_text_def level_name_chars)
  then have "lines_of [] (?l @ NL # concat (map fmt_call cs)) = ?l # lines_of [] (concat (map fmt_call cs))"
    using lines_of_line [of ?l "[]"] by simp
  with Cons show ?case
    by (simp add: parse_log_def c fmt_record_def parse_record_head)
qed

text \<open>C24: A log written by any sequence of appends reads back as exactly those records: sequence
  numbers, level names and messages, for all messages without a line end.\<close>

theorem log_roundtrip:
  assumes "\<forall>c\<in>set cs. NL \<notin> set (snd (snd c))"
  shows "parse_log (ls_contents (fold (\<lambda>c ls. logstore_append ls (fst c) (fst (snd c)) (snd (snd c))) cs
      \<lparr>ls_buf = [], ls_disk = [], ls_lock = None\<rparr>)) =
    map (\<lambda>c. Some (unat (fst c), level_name (fst (snd c)), snd (snd c))) cs"
  using ls.contents_append_all [of cs "\<lparr>ls_buf = [], ls_disk = [], ls_lock = None\<rparr>"] parse_log_records [OF assms]
  by (simp add: ls.append_call_def [abs_def] ls_contents_def)

theorem log_roundtrip_witness:
  "parse_log (ls_contents (fold (\<lambda>c ls. logstore_append ls (fst c) (fst (snd c)) (snd (snd c)))
      [(0, 1, ''up''), (1, 3, ''a ] b'')] \<lparr>ls_buf = [], ls_disk = [], ls_lock = None\<rparr>)) =
    [Some (0, level_name 1, ''up''), Some (1, level_name 3, ''a ] b'')]"
  by (subst log_roundtrip) simp_all

end
