(* ===== verification/Machine.thy ===== *)
theory Machine
  imports Gpa Logstore
begin

text \<open>
  The machine of Part I as \<^verbatim>\<open>project_1/emulator/vmm.h\<close> and \<^verbatim>\<open>device.h\<close> declare it: the
  guest-physical memory map, the register and command codes of the logging device, the
  state of the device (\<open>vlog_device\<close>), of the VMM (\<open>vmm\<close>) and of what surrounds it
  (\<open>machine\<close>: host memory, the console, the count of open files, the log file once closed), and the translation
  \<^verbatim>\<open>vmm_gpa_to_host\<close> with its contract (\<open>gpa_translation\<close>).
\<close>

named_theorems cconst "constants of the header files"

section \<open>Guest-physical memory map (vmm.h)\<close>

definition RAM_BASE :: u64 where [cconst]: "RAM_BASE = 0x00100000"
definition RAM_SIZE :: u64 where [cconst]: "RAM_SIZE = 16 * 1024 * 1024"
definition SERIAL_BASE :: u64 where [cconst]: "SERIAL_BASE = 0x10000000"
definition SERIAL_SIZE :: u64 where [cconst]: "SERIAL_SIZE = 0x1000"
definition SERIAL_TX :: u64 where [cconst]: "SERIAL_TX = 0x00"
definition SERIAL_POWEROFF :: u64 where [cconst]: "SERIAL_POWEROFF = 0x08"
definition DEV_BASE :: u64 where [cconst]: "DEV_BASE = 0x20000000"
definition DEV_SIZE :: u64 where [cconst]: "DEV_SIZE = 0x1000"
definition BOOTINFO_SIZE :: u64 where [cconst]: "BOOTINFO_SIZE = 0x10000"
definition BOOTINFO_BASE :: u64 where [cconst]: "BOOTINFO_BASE = RAM_BASE + RAM_SIZE - BOOTINFO_SIZE"
definition VMM_EXIT_FAULT :: int where [cconst]: "VMM_EXIT_FAULT = 77"

section \<open>Registers, commands and errors of the device (device.h)\<close>

definition VLOG_REG_ID :: u64 where [cconst]: "VLOG_REG_ID = 0x00"
definition VLOG_REG_VERSION :: u64 where [cconst]: "VLOG_REG_VERSION = 0x04"
definition VLOG_REG_STATUS :: u64 where [cconst]: "VLOG_REG_STATUS = 0x08"
definition VLOG_REG_CMD :: u64 where [cconst]: "VLOG_REG_CMD = 0x0C"
definition VLOG_REG_MSG_LO :: u64 where [cconst]: "VLOG_REG_MSG_LO = 0x10"
definition VLOG_REG_MSG_HI :: u64 where [cconst]: "VLOG_REG_MSG_HI = 0x14"
definition VLOG_REG_LEN :: u64 where [cconst]: "VLOG_REG_LEN = 0x18"
definition VLOG_REG_LEVEL :: u64 where [cconst]: "VLOG_REG_LEVEL = 0x1C"
definition VLOG_REG_SEQ :: u64 where [cconst]: "VLOG_REG_SEQ = 0x20"

definition VLOG_MAGIC :: u64 where [cconst]: "VLOG_MAGIC = 0x31474C56"
definition VLOG_VERSION :: u64 where [cconst]: "VLOG_VERSION = 1"
definition VLOG_MAX_MSG :: u32 where [cconst]: "VLOG_MAX_MSG = 4096"

definition VLOG_STATUS_READY :: u32 where [cconst]: "VLOG_STATUS_READY = push_bit 0 1"
definition VLOG_STATUS_ERROR :: u32 where [cconst]: "VLOG_STATUS_ERROR = push_bit 2 1"
definition VLOG_STATUS_ERR_SHIFT :: nat where [cconst]: "VLOG_STATUS_ERR_SHIFT = 8"

definition VLOG_CMD_NOP :: u64 where [cconst]: "VLOG_CMD_NOP = 0"
definition VLOG_CMD_LOG :: u64 where [cconst]: "VLOG_CMD_LOG = 1"
definition VLOG_CMD_FLUSH :: u64 where [cconst]: "VLOG_CMD_FLUSH = 2"
definition VLOG_CMD_STAT :: u64 where [cconst]: "VLOG_CMD_STAT = 3"

definition VLOG_LVL_INFO :: u32 where [cconst]: "VLOG_LVL_INFO = 1"

definition VLOG_ERR_BADCMD :: u32 where [cconst]: "VLOG_ERR_BADCMD = 1"
definition VLOG_ERR_BADADDR :: u32 where [cconst]: "VLOG_ERR_BADADDR = 2"
definition VLOG_ERR_BADLEN :: u32 where [cconst]: "VLOG_ERR_BADLEN = 3"

text \<open>\<^verbatim>\<open>struct vlog_stats\<close>: two 32-bit counters, laid out as eight little-endian bytes.\<close>

record vlog_stats =
  records :: u32
  bytes :: u32

definition stats_bytes :: "vlog_stats \<Rightarrow> byte list" where
  "stats_bytes v = le_bytes 4 (unat (records v)) @ le_bytes 4 (unat (bytes v))"

definition sizeof_stats :: nat where [cconst]: "sizeof_stats = 8"

section \<open>State\<close>

text \<open>\<^verbatim>\<open>struct vlog_device\<close>, without the back-reference: the operations take the whole machine.\<close>

record vlog_device =
  d_status :: u32
  d_msg_addr_lo :: u32
  d_msg_addr_hi :: u32
  d_len :: u32
  d_level :: u32
  d_seq :: u32
  d_bytes :: u32

text \<open>
  What the VMM has told the CPU emulator (the Unicorn handle \<^verbatim>\<open>v->uc\<close>): the regions it
  mapped, the registers it set, whether the fault and trace hooks are registered, and whether
  \<^verbatim>\<open>uc_emu_stop\<close> was called.
\<close>

datatype uc_region = Ram u64 | Serial_mmio | Device_mmio

record uc_engine =
  uc_maps :: "(u64 \<times> u64 \<times> uc_region) list"
  uc_rip :: u64
  uc_rsp :: u64
  uc_rdi :: u64
  uc_fault_hook :: bool
  uc_trace_hook :: bool
  uc_stopped :: bool

definition uc_fresh :: uc_engine where
  "uc_fresh = \<lparr>uc_maps = [], uc_rip = 0, uc_rsp = 0, uc_rdi = 0, uc_fault_hook = False,
     uc_trace_hook = False, uc_stopped = False\<rparr>"

text \<open>\<^verbatim>\<open>struct vmm\<close>; a null pointer is \<open>None\<close>, and \<open>0\<close> for \<^verbatim>\<open>ram\<close>.\<close>

record vmm =
  v_uc :: "uc_engine option"
  v_ram :: u64
  v_dev :: "vlog_device option"
  v_store :: "logstore option"
  v_trace :: bool
  v_powered_off :: bool
  v_exit_code :: int
  v_faulted :: bool
  v_fault_addr :: u64

text \<open>\<^verbatim>\<open>memset(v, 0, sizeof *v)\<close>.\<close>

definition vmm_zero :: vmm where
  "vmm_zero = \<lparr>v_uc = None, v_ram = 0, v_dev = None, v_store = None, v_trace = False,
     v_powered_off = False, v_exit_code = 0, v_faulted = False, v_fault_addr = 0\<rparr>"

record machine =
  vm :: vmm
  mem :: hmem
  console :: "byte list"
  errout :: "byte list"
  open_files :: nat
  log_file :: "byte list option"

section \<open>Guest address translation (vmm.c)\<close>

definition vmm_gpa_to_host :: "vmm \<Rightarrow> u64 \<Rightarrow> u64 \<Rightarrow> u64 option" where
  "vmm_gpa_to_host v gpa len =
     (if gpa < RAM_BASE then None
      else if gpa - RAM_BASE \<ge> RAM_SIZE then None
      else if len > RAM_SIZE - (gpa - RAM_BASE) then None
      else Some (v_ram v + (gpa - RAM_BASE)))"

definition ram_window :: "vmm \<Rightarrow> window" where
  "ram_window v = (RAM_BASE, unat RAM_SIZE, v_ram v)"

lemma vmm_gpa_to_host_iff:
  "vmm_gpa_to_host v gpa len = Some p \<longleftrightarrow>
     p = v_ram v + (gpa - RAM_BASE) \<and>
     unat RAM_BASE \<le> unat gpa \<and> unat gpa < unat RAM_BASE + unat RAM_SIZE \<and>
     unat gpa + unat len \<le> unat RAM_BASE + unat RAM_SIZE"
proof -
  have sub: "unat (gpa - RAM_BASE) = unat gpa - unat RAM_BASE" if "RAM_BASE \<le> gpa"
    using that by (simp add: unat_sub word_le_nat_alt)
  have c: "unat RAM_BASE = 1048576" "unat RAM_SIZE = 16777216" by (simp_all add: cconst)
  show ?thesis
  proof (cases "RAM_BASE \<le> gpa \<and> gpa - RAM_BASE < RAM_SIZE")
    case True
    then have "unat (RAM_SIZE - (gpa - RAM_BASE)) = unat RAM_SIZE - (unat gpa - unat RAM_BASE)"
      using sub by (subst unat_sub) (auto simp: word_le_nat_alt word_less_nat_alt)
    with True sub c show ?thesis
      by (auto simp: vmm_gpa_to_host_def word_le_nat_alt word_less_nat_alt)
  next
    case False
    with sub c show ?thesis
      by (auto simp: vmm_gpa_to_host_def word_le_nat_alt word_less_nat_alt)
  qed
qed

interpretation vmm_xlate: gpa_translation vmm_gpa_to_host "\<lambda>v. {ram_window v}"
proof unfold_locales
  fix v gpa len p
  assume "vmm_gpa_to_host v gpa len = Some p"
  then show "\<exists>w\<in>{ram_window v}. in_window w gpa len \<and> p = host_of w gpa"
    by (simp add: vmm_gpa_to_host_iff in_window_def host_of_def ram_window_def)
next
  fix v gpa len w
  assume w: "w \<in> {ram_window v}" "in_window w gpa len" and "0 < len"
  then have "0 < unat len" by (simp add: word_less_nat_alt)
  with w have "vmm_gpa_to_host v gpa len = Some (v_ram v + (gpa - RAM_BASE))"
    by (simp add: vmm_gpa_to_host_iff in_window_def ram_window_def)
  then show "vmm_gpa_to_host v gpa len \<noteq> None" by simp
qed

end
