(* ===== verification/Device.thy ===== *)
theory Device
  imports Machine
begin

text \<open>
  \<^verbatim>\<open>project_1/emulator/device.c\<close>: the MMIO logging device.  An MMIO write is a function from
  the machine to either the new machine or the undefined behaviour the C code would run into;
  a null device or store pointer is such a case, and so is the use of a translation that
  returned \<^verbatim>\<open>NULL\<close>.  The command branch is split into one definition per command.
\<close>

section \<open>Helpers\<close>

definition msg_addr :: "vlog_device \<Rightarrow> u64" where
  "msg_addr d = ucast (d_msg_addr_lo d) OR push_bit 32 (ucast (d_msg_addr_hi d))"

definition set_error :: "u32 \<Rightarrow> vlog_device \<Rightarrow> vlog_device" where
  "set_error code d =
     d\<lparr>d_status := d_status d OR (VLOG_STATUS_ERROR OR push_bit VLOG_STATUS_ERR_SHIFT code)\<rparr>"

definition clear_error :: "vlog_device \<Rightarrow> vlog_device" where
  "clear_error d =
     d\<lparr>d_status := d_status d AND NOT (VLOG_STATUS_ERROR OR push_bit VLOG_STATUS_ERR_SHIFT 0xff)\<rparr>"

definition vlog_device_init :: vlog_device where
  "vlog_device_init = \<lparr>d_status = VLOG_STATUS_READY, d_msg_addr_lo = 0, d_msg_addr_hi = 0,
     d_len = 0, d_level = VLOG_LVL_INFO, d_seq = 0, d_bytes = 0\<rparr>"

definition upd_dev :: "vlog_device \<Rightarrow> machine \<Rightarrow> machine" where
  "upd_dev d m = m\<lparr>vm := (vm m)\<lparr>v_dev := Some d\<rparr>\<rparr>"

definition upd_store :: "logstore \<Rightarrow> machine \<Rightarrow> machine" where
  "upd_store ls m = m\<lparr>vm := (vm m)\<lparr>v_store := Some ls\<rparr>\<rparr>"

section \<open>Register reads\<close>

definition vlog_device_mmio_read :: "u64 \<Rightarrow> machine \<Rightarrow> ub + u64" where
  "vlog_device_mmio_read offset m =
     (case v_dev (vm m) of
        None \<Rightarrow> Inl NullDeref
      | Some d \<Rightarrow> Inr
         (if offset = VLOG_REG_ID then VLOG_MAGIC
          else if offset = VLOG_REG_VERSION then VLOG_VERSION
          else if offset = VLOG_REG_STATUS then ucast (d_status d)
          else if offset = VLOG_REG_MSG_LO then ucast (d_msg_addr_lo d)
          else if offset = VLOG_REG_MSG_HI then ucast (d_msg_addr_hi d)
          else if offset = VLOG_REG_LEN then ucast (d_len d)
          else if offset = VLOG_REG_LEVEL then ucast (d_level d)
          else if offset = VLOG_REG_SEQ then ucast (d_seq d)
          else 0))"

section \<open>Commands\<close>

definition cmd_log :: "vlog_device \<Rightarrow> machine \<Rightarrow> ub + machine" where
  "cmd_log d m =
     (if d_len d > VLOG_MAX_MSG then Inr (upd_dev (set_error VLOG_ERR_BADLEN d) m)
      else let addr = msg_addr d; len = ucast (d_len d) :: u64 in
      if addr = 0 then Inr (upd_dev (set_error VLOG_ERR_BADADDR d) m)
      else if d_len d > 0 \<and> (addr < RAM_BASE \<or> addr + len < RAM_BASE)
        then Inr (upd_dev (set_error VLOG_ERR_BADADDR d) m)
      else if d_len d > 0 \<and> (addr - RAM_BASE \<ge> RAM_SIZE \<or> len > RAM_SIZE - (addr - RAM_BASE))
        then Inr (upd_dev (set_error VLOG_ERR_BADADDR d) m)
      else case v_store (vm m) of
        None \<Rightarrow> Inl NullDeref
      | Some ls \<Rightarrow>
          if d_len d = 0 then
            Inr (upd_dev (d\<lparr>d_seq := d_seq d + 1\<rparr>)
              (upd_store (logstore_append ls (d_seq d) (d_level d) []) m))
          else if d_len d \<le> VLOG_MAX_MSG \<and> d_len d > 0 then
            (case vmm_gpa_to_host (vm m) (msg_addr d) len of
               None \<Rightarrow> Inl NullDeref
             | Some p \<Rightarrow>
                 Inr (upd_dev (d\<lparr>d_seq := d_seq d + 1, d_bytes := d_bytes d + d_len d\<rparr>)
                   (upd_store (logstore_append ls (d_seq d) (d_level d)
                      (ld_bytes (mem m) p (unat (d_len d)))) m)))
          else Inr m)"

definition cmd_flush :: "vlog_device \<Rightarrow> machine \<Rightarrow> ub + machine" where
  "cmd_flush d m =
     (case v_store (vm m) of
        None \<Rightarrow> Inl NullDeref
      | Some ls \<Rightarrow> Inr (upd_dev (clear_error d) (upd_store (logstore_flush ls) m)))"

definition cmd_stat :: "vlog_device \<Rightarrow> machine \<Rightarrow> ub + machine" where
  "cmd_stat d m =
     (if (ucast (d_len d) :: u64) < of_nat sizeof_stats
        then Inr (upd_dev (set_error VLOG_ERR_BADLEN d) m)
      else let addr = msg_addr d in
      if addr = 0 then Inr (upd_dev (set_error VLOG_ERR_BADADDR d) m)
      else if addr < RAM_BASE \<or> of_nat sizeof_stats + addr < RAM_BASE
        then Inr (upd_dev (set_error VLOG_ERR_BADADDR d) m)
      else if addr - RAM_BASE > RAM_SIZE \<or> of_nat sizeof_stats > RAM_SIZE - (addr - RAM_BASE)
        then Inr (upd_dev (set_error VLOG_ERR_BADADDR d) m)
      else case vmm_gpa_to_host (vm m) (msg_addr d) (ucast (d_len d)) of
        None \<Rightarrow> Inl NullDeref
      | Some p \<Rightarrow>
          Inr (upd_dev (clear_error d)
            (m\<lparr>mem := st_bytes (mem m) p (stats_bytes \<lparr>records = d_seq d, bytes = d_bytes d\<rparr>)\<rparr>)))"

section \<open>Register writes\<close>

definition vlog_device_mmio_write :: "u64 \<Rightarrow> u64 \<Rightarrow> machine \<Rightarrow> ub + machine" where
  "vlog_device_mmio_write offset val m =
     (case v_dev (vm m) of
        None \<Rightarrow> Inl NullDeref
      | Some d \<Rightarrow>
         if offset = VLOG_REG_MSG_LO then Inr (upd_dev (clear_error (d\<lparr>d_msg_addr_lo := ucast val\<rparr>)) m)
         else if offset = VLOG_REG_MSG_HI then Inr (upd_dev (clear_error (d\<lparr>d_msg_addr_hi := ucast val\<rparr>)) m)
         else if offset = VLOG_REG_LEN then Inr (upd_dev (clear_error (d\<lparr>d_len := ucast val\<rparr>)) m)
         else if offset = VLOG_REG_LEVEL then Inr (upd_dev (clear_error (d\<lparr>d_level := ucast val\<rparr>)) m)
         else if offset = VLOG_REG_CMD then
           (if val = VLOG_CMD_NOP then Inr (upd_dev (clear_error d) m)
            else if val = VLOG_CMD_LOG then cmd_log d m
            else if val = VLOG_CMD_FLUSH then cmd_flush d m
            else if val = VLOG_CMD_STAT then cmd_stat d m
            else Inr (upd_dev (set_error VLOG_ERR_BADCMD (clear_error d)) m))
         else Inr m)"

section \<open>The bounds checks\<close>

text \<open>The range \<open>[gpa, gpa + n)\<close> lies in guest RAM, on natural numbers (no wrap-around).\<close>

definition in_ram :: "u64 \<Rightarrow> nat \<Rightarrow> bool" where
  "in_ram gpa n = (unat RAM_BASE \<le> unat gpa \<and> unat gpa < unat RAM_BASE + unat RAM_SIZE \<and>
     unat gpa + n \<le> unat RAM_BASE + unat RAM_SIZE)"

lemma ram_consts: "unat RAM_BASE = 1048576" "unat RAM_SIZE = 16777216"
  by (simp_all add: cconst)

lemma translate_in_ram:
  "vmm_gpa_to_host v gpa len = (if in_ram gpa (unat len) then Some (v_ram v + (gpa - RAM_BASE)) else None)"
proof (cases "vmm_gpa_to_host v gpa len")
  case None
  then show ?thesis using vmm_gpa_to_host_iff [of v gpa len "v_ram v + (gpa - RAM_BASE)"]
    by (auto simp: in_ram_def)
next
  case (Some p)
  then show ?thesis using vmm_gpa_to_host_iff [of v gpa len p] by (simp add: in_ram_def)
qed

lemma unat_off: "RAM_BASE \<le> addr \<Longrightarrow> unat (addr - RAM_BASE) = unat addr - unat RAM_BASE"
  by (simp add: unat_sub word_le_nat_alt)

lemma unat_left: "addr - RAM_BASE \<le> RAM_SIZE \<Longrightarrow>
    unat (RAM_SIZE - (addr - RAM_BASE)) = unat RAM_SIZE - unat (addr - RAM_BASE)"
  by (simp add: unat_sub word_le_nat_alt)

text \<open>The guards of \<^verbatim>\<open>LOG\<close> accept exactly what the translation accepts.\<close>

lemma log_guards:
  assumes "0 < len"
  shows "(\<not> (addr < RAM_BASE \<or> addr + len < RAM_BASE) \<and>
          \<not> (addr - RAM_BASE \<ge> RAM_SIZE \<or> len > RAM_SIZE - (addr - RAM_BASE)))
        \<longleftrightarrow> in_ram addr (unat len)" (is "?g \<longleftrightarrow> _")
proof (cases "RAM_BASE \<le> addr \<and> addr - RAM_BASE < RAM_SIZE")
  case True
  then have off: "unat (addr - RAM_BASE) = unat addr - 1048576"
    and le: "1048576 \<le> unat addr" "unat addr - 1048576 < 16777216"
    using unat_off [of addr] ram_consts by (auto simp: word_le_nat_alt word_less_nat_alt)
  have left: "unat (RAM_SIZE - (addr - RAM_BASE)) = 16777216 - (unat addr - 1048576)"
    using unat_left [of addr] True off ram_consts by (simp add: less_imp_le)
  have nowrap: "unat (addr + len) = unat addr + unat len" if "unat len \<le> 16777216"
    using le that by (subst unat_add_lem [THEN iffD1]) auto
  show ?thesis
  proof (cases "unat len \<le> 16777216 - (unat addr - 1048576)")
    case t: True
    then show ?thesis using True off left le nowrap ram_consts
      by (auto simp: in_ram_def word_le_nat_alt word_less_nat_alt)
  next
    case False
    then show ?thesis using True off left le ram_consts
      by (auto simp: in_ram_def word_le_nat_alt word_less_nat_alt)
  qed
next
  case False
  then have "\<not> ?g" by (auto simp: not_less not_le)
  moreover have "\<not> in_ram addr (unat len)"
    using False unat_off [of addr] ram_consts
    by (auto simp: in_ram_def word_le_nat_alt word_less_nat_alt)
  ultimately show ?thesis by simp
qed

text \<open>The guards of \<^verbatim>\<open>STAT\<close> accept a range of \<^verbatim>\<open>sizeof(struct vlog_stats)\<close> bytes, whatever the
  length the guest offered.\<close>

lemma stat_guards:
  "(\<not> (addr < RAM_BASE \<or> of_nat sizeof_stats + addr < RAM_BASE) \<and>
    \<not> (addr - RAM_BASE > RAM_SIZE \<or> of_nat sizeof_stats > RAM_SIZE - (addr - RAM_BASE)))
   \<longleftrightarrow> in_ram addr sizeof_stats" (is "?g \<longleftrightarrow> _")
proof (cases "RAM_BASE \<le> addr \<and> addr - RAM_BASE \<le> RAM_SIZE")
  case True
  then have off: "unat (addr - RAM_BASE) = unat addr - 1048576"
    and le: "1048576 \<le> unat addr" "unat addr - 1048576 \<le> 16777216"
    using unat_off [of addr] ram_consts by (auto simp: word_le_nat_alt word_less_nat_alt)
  have left: "unat (RAM_SIZE - (addr - RAM_BASE)) = 16777216 - (unat addr - 1048576)"
    using unat_left [of addr] True off ram_consts by simp
  have nowrap: "unat (8 + addr) = 8 + unat addr"
    using le by (subst unat_add_lem [THEN iffD1]) auto
  have c: "(of_nat sizeof_stats :: u64) = 8" by (simp add: cconst)
  show ?thesis
    using True off left le nowrap ram_consts unfolding c
    by (auto simp: in_ram_def sizeof_stats_def word_le_nat_alt word_less_nat_alt)
next
  case False
  then have "\<not> ?g" by (auto simp: not_less not_le)
  moreover have "\<not> in_ram addr sizeof_stats"
    using False unat_off [of addr] ram_consts
    by (auto simp: in_ram_def sizeof_stats_def word_le_nat_alt word_less_nat_alt)
  ultimately show ?thesis by simp
qed

section \<open>Functional behaviour of the commands\<close>

text \<open>The host address of the message operand, and the message itself.\<close>

definition msg_host :: "vlog_device \<Rightarrow> machine \<Rightarrow> u64" where
  "msg_host d m = v_ram (vm m) + (msg_addr d - RAM_BASE)"

definition msg_bytes :: "vlog_device \<Rightarrow> machine \<Rightarrow> byte list" where
  "msg_bytes d m = ld_bytes (mem m) (msg_host d m) (unat (d_len d))"

definition log_accepts :: "vlog_device \<Rightarrow> bool" where
  "log_accepts d = (d_len d \<le> VLOG_MAX_MSG \<and> msg_addr d \<noteq> 0 \<and>
     (d_len d = 0 \<or> in_ram (msg_addr d) (unat (d_len d))))"

definition stat_accepts :: "vlog_device \<Rightarrow> bool" where
  "stat_accepts d = (sizeof_stats \<le> unat (d_len d) \<and> in_ram (msg_addr d) sizeof_stats)"

lemma in_ram_nonzero: "in_ram a n \<Longrightarrow> a \<noteq> 0"
  using ram_consts by (auto simp: in_ram_def)

lemma cmd_log_spec:
  assumes "v_store (vm m) = Some ls"
  shows "cmd_log d m =
    (if VLOG_MAX_MSG < d_len d then Inr (upd_dev (set_error VLOG_ERR_BADLEN d) m)
     else if \<not> log_accepts d then Inr (upd_dev (set_error VLOG_ERR_BADADDR d) m)
     else Inr (upd_dev (d\<lparr>d_seq := d_seq d + 1, d_bytes := d_bytes d + d_len d\<rparr>)
       (upd_store (logstore_append ls (d_seq d) (d_level d) (msg_bytes d m)) m)))"
proof -
  let ?len = "ucast (d_len d) :: u64"
  have pos: "0 < ?len \<longleftrightarrow> 0 < d_len d" by (simp add: word_less_nat_alt)
  show ?thesis
  proof (cases "0 < d_len d")
    case True
    then show ?thesis
      using log_guards [of ?len "msg_addr d"] pos assms
      by (auto simp: cmd_log_def Let_def log_accepts_def translate_in_ram msg_bytes_def msg_host_def
          not_less not_le)
  next
    case False
    then have "d_len d = 0" by (simp add: word_gt_0)
    then show ?thesis using assms
      by (simp add: cmd_log_def Let_def log_accepts_def msg_bytes_def cconst)
  qed
qed

lemma stat_len: "((ucast (d_len d) :: u64) < of_nat sizeof_stats) \<longleftrightarrow> unat (d_len d) < sizeof_stats"
  by (simp add: word_less_nat_alt sizeof_stats_def)

lemma cmd_stat_spec:
  "cmd_stat d m =
    (if unat (d_len d) < sizeof_stats then Inr (upd_dev (set_error VLOG_ERR_BADLEN d) m)
     else if \<not> stat_accepts d then Inr (upd_dev (set_error VLOG_ERR_BADADDR d) m)
     else if in_ram (msg_addr d) (unat (d_len d)) then
       Inr (upd_dev (clear_error d) (m\<lparr>mem := st_bytes (mem m) (msg_host d m)
         (stats_bytes \<lparr>records = d_seq d, bytes = d_bytes d\<rparr>)\<rparr>))
     else Inl NullDeref)"
proof (cases "unat (d_len d) < sizeof_stats")
  case True
  then show ?thesis using stat_len [of d] by (simp add: cmd_stat_def)
next
  case False
  then show ?thesis
    using stat_len [of d] stat_guards [of "msg_addr d"] in_ram_nonzero [of "msg_addr d" sizeof_stats]
    by (auto simp: cmd_stat_def Let_def stat_accepts_def translate_in_ram msg_host_def not_less not_le)
qed

section \<open>The device as a list of records\<close>

text \<open>
  The abstract specification: the device is the list of the records logged so far, as (level,
  message).  The concrete state agrees with it when the log file is the records numbered from
  0, \<^verbatim>\<open>SEQ\<close> counts them and \<^verbatim>\<open>bytes\<close> sums their lengths (both modulo \<open>2 ^ 32\<close>).
\<close>

definition number :: "(u32 \<times> byte list) list \<Rightarrow> rec_call list" where
  "number rs = map (\<lambda>i. (of_nat i, rs ! i)) [0..<length rs]"

definition dev_abs :: "machine \<Rightarrow> (u32 \<times> byte list) list \<Rightarrow> bool" where
  "dev_abs m rs = (case (v_dev (vm m), v_store (vm m)) of
     (Some d, Some ls) \<Rightarrow>
       ls_contents ls = concat (map fmt_call (number rs)) \<and>
       d_seq d = of_nat (length rs) \<and>
       d_bytes d = of_nat (sum_list (map (\<lambda>r. length (snd r)) rs))
   | _ \<Rightarrow> False)"

text \<open>What one register write adds to the abstract log.\<close>

definition log_effect :: "u64 \<Rightarrow> u64 \<Rightarrow> machine \<Rightarrow> (u32 \<times> byte list) list" where
  "log_effect offset val m = (case v_dev (vm m) of
     None \<Rightarrow> []
   | Some d \<Rightarrow> if offset = VLOG_REG_CMD \<and> val = VLOG_CMD_LOG \<and> log_accepts d
              then [(d_level d, msg_bytes d m)] else [])"

lemma number_Nil [simp]: "number [] = []"
  by (simp add: number_def)

lemma number_snoc: "number (rs @ [r]) = number rs @ [(of_nat (length rs), r)]"
proof -
  have "map (\<lambda>i. (of_nat i, (rs @ [r]) ! i)) [0..<length rs] = map (\<lambda>i. (of_nat i, rs ! i)) [0..<length rs]"
    by (rule map_cong) (auto simp: nth_append)
  then show ?thesis by (simp add: number_def)
qed

lemma upd_simps [simp]:
  "v_dev (vm (upd_dev d m)) = Some d" "v_store (vm (upd_dev d m)) = v_store (vm m)"
  "v_dev (vm (upd_store ls m)) = v_dev (vm m)" "v_store (vm (upd_store ls m)) = Some ls"
  "mem (upd_dev d m) = mem m" "mem (upd_store ls m) = mem m"
  "v_ram (vm (upd_dev d m)) = v_ram (vm m)" "v_ram (vm (upd_store ls m)) = v_ram (vm m)"
  "v_uc (vm (upd_dev d m)) = v_uc (vm m)" "v_uc (vm (upd_store ls m)) = v_uc (vm m)"
  "console (upd_dev d m) = console m" "console (upd_store ls m) = console m"
  by (simp_all add: upd_dev_def upd_store_def)

lemma error_frame [simp]:
  "d_seq (set_error c d) = d_seq d" "d_bytes (set_error c d) = d_bytes d"
  "d_seq (clear_error d) = d_seq d" "d_bytes (clear_error d) = d_bytes d"
  "d_len (clear_error d) = d_len d" "d_level (clear_error d) = d_level d"
  "msg_addr (clear_error d) = msg_addr d"
  "d_len (set_error c d) = d_len d" "d_level (set_error c d) = d_level d"
  "msg_addr (set_error c d) = msg_addr d"
  by (simp_all add: set_error_def clear_error_def msg_addr_def)

lemma dev_abs_frame:
  assumes "dev_abs m rs" and "v_dev (vm m) = Some d"
    and "d_seq d' = d_seq d" and "d_bytes d' = d_bytes d"
  shows "dev_abs (upd_dev d' m) rs"
  using assms by (auto simp: dev_abs_def split: option.splits)

lemma dev_abs_mem: "dev_abs (m\<lparr>mem := x\<rparr>) rs = dev_abs m rs"
  by (simp add: dev_abs_def)

lemma cmd_log_abs:
  assumes abs: "dev_abs m rs" and d: "v_dev (vm m) = Some d" and r: "cmd_log d m = Inr m'"
  shows "dev_abs m' (rs @ (if log_accepts d then [(d_level d, msg_bytes d m)] else []))"
proof -
  from abs d obtain ls where ls: "v_store (vm m) = Some ls" by (auto simp: dev_abs_def split: option.splits)
  show ?thesis
  proof (cases "log_accepts d")
    case True
    then have "\<not> VLOG_MAX_MSG < d_len d" by (simp add: log_accepts_def not_less)
    with r True ls have "m' = upd_dev (d\<lparr>d_seq := d_seq d + 1, d_bytes := d_bytes d + d_len d\<rparr>)
       (upd_store (logstore_append ls (d_seq d) (d_level d) (msg_bytes d m)) m)"
      by (simp add: cmd_log_spec)
    with True abs d ls show ?thesis
      by (simp add: dev_abs_def number_snoc ls.append_contents msg_bytes_def)
  next
    case False
    with r ls obtain c where "m' = upd_dev (set_error c d) m"
      by (auto simp: cmd_log_spec split: if_splits)
    with False abs d show ?thesis by (auto intro: dev_abs_frame)
  qed
qed

lemma cmd_flush_abs:
  assumes "dev_abs m rs" and "v_dev (vm m) = Some d" and "cmd_flush d m = Inr m'"
  shows "dev_abs m' rs"
  using assms by (auto simp: dev_abs_def cmd_flush_def ls.flush_contents split: option.splits)

lemma cmd_stat_abs:
  assumes "dev_abs m rs" and "v_dev (vm m) = Some d" and "cmd_stat d m = Inr m'"
  shows "dev_abs m' rs"
  using assms by (auto simp: cmd_stat_spec dev_abs_def split: if_splits option.splits)

lemma mmio_write_abs:
  assumes "dev_abs m rs" and "vlog_device_mmio_write offset val m = Inr m'"
  shows "dev_abs m' (rs @ log_effect offset val m)"
proof -
  from assms(1) obtain d where d: "v_dev (vm m) = Some d" by (auto simp: dev_abs_def split: option.splits)
  show ?thesis
  proof (cases "offset = VLOG_REG_CMD")
    case True
    with assms d show ?thesis
      by (auto simp: vlog_device_mmio_write_def log_effect_def cconst intro: dev_abs_frame
          cmd_flush_abs cmd_stat_abs dest: cmd_log_abs split: if_splits)
  next
    case False
    with assms d show ?thesis
      by (auto simp: vlog_device_mmio_write_def log_effect_def intro: dev_abs_frame split: if_splits)
  qed
qed

text \<open>A sequence of register writes, in order.\<close>

fun mmio_writes :: "(u64 \<times> u64) list \<Rightarrow> machine \<Rightarrow> ub + machine" where
  "mmio_writes [] m = Inr m"
| "mmio_writes ((offset, val) # ws) m =
     bind_ub (vlog_device_mmio_write offset val m) (mmio_writes ws)"

text \<open>The abstract log of a sequence: the accepted \<^verbatim>\<open>LOG\<close> commands, in order.\<close>

fun logged :: "(u64 \<times> u64) list \<Rightarrow> machine \<Rightarrow> (u32 \<times> byte list) list" where
  "logged [] m = []"
| "logged ((offset, val) # ws) m = log_effect offset val m @
     (case vlog_device_mmio_write offset val m of Inl e \<Rightarrow> [] | Inr m' \<Rightarrow> logged ws m')"

lemma mmio_writes_abs:
  "dev_abs m rs \<Longrightarrow> mmio_writes ws m = Inr m' \<Longrightarrow> dev_abs m' (rs @ logged ws m)"
proof (induction ws arbitrary: m rs)
  case Nil
  then show ?case by simp
next
  case (Cons w ws)
  obtain offset val where w: "w = (offset, val)" by (cases w)
  with Cons.prems obtain m1 where m1: "vlog_device_mmio_write offset val m = Inr m1"
    "mmio_writes ws m1 = Inr m'"
    by (auto simp: bind_ub_Inr_iff)
  with Cons.prems(1) have "dev_abs m1 (rs @ log_effect offset val m)" by (blast intro: mmio_write_abs)
  from Cons.IH [OF this m1(2)] show ?case using w m1 by simp
qed

section \<open>STATUS\<close>

text \<open>\<^verbatim>\<open>READY\<close> alone, or \<^verbatim>\<open>READY\<close> and \<^verbatim>\<open>ERROR\<close> with one of the three error codes in bits 15:8.\<close>

definition status_ok :: "u32 \<Rightarrow> bool" where
  "status_ok s = (s = 0x001 \<or> s = 0x105 \<or> s = 0x205 \<or> s = 0x305)"

definition dev_status_ok :: "machine \<Rightarrow> bool" where
  "dev_status_ok m = (case v_dev (vm m) of None \<Rightarrow> False | Some d \<Rightarrow> status_ok (d_status d))"

lemma clear_error_status: "status_ok (d_status d) \<Longrightarrow> d_status (clear_error d) = 0x001"
  by (auto simp: status_ok_def clear_error_def cconst)

lemma set_error_status:
  assumes "status_ok (d_status d)" and "c = VLOG_ERR_BADCMD \<or> c = VLOG_ERR_BADADDR \<or> c = VLOG_ERR_BADLEN"
  shows "status_ok (d_status (set_error c d))"
  using assms by (auto simp: status_ok_def set_error_def cconst)

lemma status_ok_steps:
  assumes "status_ok (d_status d)"
  shows "status_ok (d_status (clear_error d))"
    "status_ok (d_status (clear_error (d\<lparr>d_msg_addr_lo := x\<rparr>)))"
    "status_ok (d_status (clear_error (d\<lparr>d_msg_addr_hi := x\<rparr>)))"
    "status_ok (d_status (clear_error (d\<lparr>d_len := x\<rparr>)))"
    "status_ok (d_status (clear_error (d\<lparr>d_level := x\<rparr>)))"
    "status_ok (d_status (set_error VLOG_ERR_BADCMD (clear_error d)))"
    "status_ok (d_status (set_error VLOG_ERR_BADADDR d))"
    "status_ok (d_status (set_error VLOG_ERR_BADLEN d))"
  using assms set_error_status clear_error_status
  by (auto simp: status_ok_def clear_error_def set_error_def cconst)

lemma mmio_write_status:
  assumes "dev_status_ok m" and "vlog_device_mmio_write offset val m = Inr m'"
  shows "dev_status_ok m'"
proof -
  from assms(1) obtain d where d: "v_dev (vm m) = Some d" and ok: "status_ok (d_status d)"
    by (auto simp: dev_status_ok_def split: option.splits)
  note st = status_ok_steps [OF ok]
  have "dev_status_ok m'" if "cmd_log d m = Inr m'"
  proof (cases "v_store (vm m)")
    case None
    with that st show ?thesis by (auto simp: cmd_log_def Let_def dev_status_ok_def split: if_splits)
  next
    case (Some ls)
    with that st ok show ?thesis by (auto simp: cmd_log_spec dev_status_ok_def split: if_splits)
  qed
  moreover have "dev_status_ok m'" if "cmd_flush d m = Inr m'"
    using that st by (auto simp: cmd_flush_def dev_status_ok_def split: option.splits)
  moreover have "dev_status_ok m'" if "cmd_stat d m = Inr m'"
    using that st by (auto simp: cmd_stat_spec dev_status_ok_def split: if_splits)
  ultimately show ?thesis
    using assms(2) d st ok by (auto simp: vlog_device_mmio_write_def dev_status_ok_def split: if_splits)
qed

lemma mmio_writes_status: "dev_status_ok m \<Longrightarrow> mmio_writes ws m = Inr m' \<Longrightarrow> dev_status_ok m'"
  by (induction ws m rule: mmio_writes.induct) (auto simp: bind_ub_Inr_iff dest: mmio_write_status)

section \<open>Properties of the device\<close>

text \<open>A machine for the witnesses: RAM mapped at a host address, a fresh device, an empty log.\<close>

definition demo_machine :: machine where
  "demo_machine = \<lparr>vm = vmm_zero\<lparr>v_ram := 0x7f0000000000, v_dev := Some vlog_device_init,
      v_store := Some \<lparr>ls_buf = [], ls_disk = [], ls_lock = None\<rparr>\<rparr>,
     mem = (\<lambda>a. CHR ''A''), console = [], errout = [], open_files = 1, log_file = None\<rparr>"

text \<open>The registers for a \<^verbatim>\<open>LOG\<close> or \<^verbatim>\<open>STAT\<close> at a given address, then the command.\<close>

definition demo_cmd :: "u64 \<Rightarrow> u64 \<Rightarrow> u64 \<Rightarrow> (u64 \<times> u64) list" where
  "demo_cmd addr len cmd = [(VLOG_REG_MSG_LO, addr), (VLOG_REG_LEN, len), (VLOG_REG_CMD, cmd)]"

lemma demo_abs: "dev_abs demo_machine []"
  by (simp add: dev_abs_def demo_machine_def vlog_device_init_def ls_contents_def)

lemmas dev_eval = demo_cmd_def demo_machine_def vlog_device_init_def vmm_zero_def cconst
  vlog_device_mmio_write_def cmd_log_spec cmd_stat_spec log_accepts_def stat_accepts_def in_ram_def
  msg_addr_def msg_bytes_def msg_host_def clear_error_def set_error_def upd_dev_def upd_store_def

lemma write_cmd:
  assumes "v_dev (vm m) = Some d"
  shows "vlog_device_mmio_write VLOG_REG_CMD VLOG_CMD_LOG m = cmd_log d m"
    "vlog_device_mmio_write VLOG_REG_CMD VLOG_CMD_STAT m = cmd_stat d m"
    "vlog_device_mmio_write VLOG_REG_CMD VLOG_CMD_FLUSH m = cmd_flush d m"
    "vlog_device_mmio_write VLOG_REG_CMD 9 m = Inr (upd_dev (set_error VLOG_ERR_BADCMD (clear_error d)) m)"
  using assms by (simp_all add: vlog_device_mmio_write_def cconst)

lemma cmd_log_returns: "v_store (vm m) = Some ls \<Longrightarrow> \<exists>m'. cmd_log d m = Inr m'"
  by (simp add: cmd_log_spec)

text \<open>C1: From a fresh device, after any sequence of register writes that returns, the log
  file holds exactly the accepted LOG commands, in order and numbered from 0, SEQ is their
  number and the byte counter their total length (modulo 2 ^ 32).\<close>

theorem device_refines_log:
  assumes "dev_abs m []" and "mmio_writes ws m = Inr m'"
  shows "dev_abs m' (logged ws m)"
  using mmio_writes_abs [OF assms] by simp

theorem device_refines_log_witness:
  "\<exists>m'. mmio_writes (demo_cmd 0x100000 2 1) demo_machine = Inr m' \<and> dev_abs m' [(1, ''AA'')]"
proof -
  obtain m' where m': "mmio_writes (demo_cmd 0x100000 2 1) demo_machine = Inr m'"
    by (simp add: dev_eval)
  moreover have "logged (demo_cmd 0x100000 2 1) demo_machine = [(1, ''AA'')]"
    by (simp add: dev_eval log_effect_def ld_bytes_def upt_rec)
  ultimately show ?thesis using device_refines_log [OF demo_abs m'] by auto
qed

text \<open>C16: A register write runs into undefined behaviour (a store through a null pointer)
  exactly when it is a STAT whose 8-byte block is in guest RAM while the length the guest
  offered reaches past the end of RAM.\<close>

theorem mmio_write_ub_iff:
  assumes "v_dev (vm m) = Some d" and "v_store (vm m) = Some ls"
  shows "(\<exists>e. vlog_device_mmio_write offset val m = Inl e) \<longleftrightarrow>
    offset = VLOG_REG_CMD \<and> val = VLOG_CMD_STAT \<and> stat_accepts d \<and>
    \<not> in_ram (msg_addr d) (unat (d_len d))"
proof (cases "offset = VLOG_REG_CMD")
  case True
  then show ?thesis
    using assms by (auto simp: vlog_device_mmio_write_def cmd_log_spec cmd_flush_def cmd_stat_spec
        stat_accepts_def cconst)
next
  case False
  then show ?thesis using assms by (auto simp: vlog_device_mmio_write_def)
qed

theorem mmio_write_ub_witness:
  "\<exists>m. mmio_writes [(VLOG_REG_MSG_LO, 0x10FFFF8), (VLOG_REG_LEN, 16)] demo_machine = Inr m \<and>
     (\<exists>e. vlog_device_mmio_write VLOG_REG_CMD VLOG_CMD_STAT m = Inl e)"
proof -
  obtain m where m: "mmio_writes [(VLOG_REG_MSG_LO, 0x10FFFF8), (VLOG_REG_LEN, 16)] demo_machine = Inr m"
    and d: "v_dev (vm m) = Some (vlog_device_init\<lparr>d_msg_addr_lo := 0x10FFFF8, d_len := 16\<rparr>)"
    and ls: "v_store (vm m) = Some \<lparr>ls_buf = [], ls_disk = [], ls_lock = None\<rparr>"
    by (simp add: dev_eval)
  show ?thesis
    using m mmio_write_ub_iff [OF d ls, of VLOG_REG_CMD VLOG_CMD_STAT]
    by (auto simp: stat_accepts_def in_ram_def msg_addr_def vlog_device_init_def cconst)
qed

lemma mmio_write_confined_ram:
  assumes "vlog_device_mmio_write offset val m = Inr m'" and "mem m' a \<noteq> mem m a"
  shows "backed_by (ram_window (vm m)) a \<and> offset = VLOG_REG_CMD \<and> val = VLOG_CMD_STAT"
proof -
  from assms obtain d where d: "v_dev (vm m) = Some d"
    by (auto simp: vlog_device_mmio_write_def split: option.splits)
  have log: "mem m' = mem m" if "cmd_log d m = Inr m'"
    using that by (auto simp: cmd_log_def Let_def split: if_splits option.splits)
  have flush: "mem m' = mem m" if "cmd_flush d m = Inr m'"
    using that by (auto simp: cmd_flush_def split: option.splits)
  have "offset = VLOG_REG_CMD \<and> val = VLOG_CMD_STAT \<and> cmd_stat d m = Inr m'"
    using assms d log flush by (auto simp: vlog_device_mmio_write_def split: if_splits)
  moreover from this assms(2) have ok: "in_ram (msg_addr d) (unat (d_len d))"
    and ne: "st_bytes (mem m) (msg_host d m) (stats_bytes \<lparr>records = d_seq d, bytes = d_bytes d\<rparr>) a \<noteq> mem m a"
    and len: "sizeof_stats \<le> unat (d_len d)"
    by (auto simp: cmd_stat_spec split: if_splits)
  have "\<exists>w\<in>{ram_window (vm m)}. backed_by w a"
    by (rule vmm_xlate.store_confined [OF _ _ ne, where gpa = "msg_addr d" and len = "ucast (d_len d)"])
      (use ok len in \<open>simp_all add: translate_in_ram msg_host_def stats_bytes_def sizeof_stats_def\<close>)
  ultimately show ?thesis by simp
qed


text \<open>A register write changes host memory only behind the guest's RAM, and only a STAT
  command does so.\<close>

theorem mmio_write_confined:
  assumes "vlog_device_mmio_write offset val m = Inr m'" and "mem m' a \<noteq> mem m a"
  shows "backed_by (ram_window (vm m)) a \<and> offset = VLOG_REG_CMD \<and> val = VLOG_CMD_STAT"
  using assms by (rule mmio_write_confined_ram)

theorem mmio_write_confined_witness:
  "\<exists>m m'. mmio_writes [(VLOG_REG_MSG_LO, 0x100010), (VLOG_REG_LEN, 8)] demo_machine = Inr m \<and>
     vlog_device_mmio_write VLOG_REG_CMD VLOG_CMD_STAT m = Inr m' \<and>
     mem m' 0x7f0000000010 \<noteq> mem m 0x7f0000000010 \<and> backed_by (ram_window (vm m)) 0x7f0000000010"
proof -
  obtain m where m: "mmio_writes [(VLOG_REG_MSG_LO, 0x100010), (VLOG_REG_LEN, 8)] demo_machine = Inr m"
    and d: "v_dev (vm m) = Some (vlog_device_init\<lparr>d_msg_addr_lo := 0x100010, d_len := 8\<rparr>)"
    and r: "v_ram (vm m) = 0x7f0000000000" and mem: "mem m = (\<lambda>a. CHR ''A'')"
    by (simp add: dev_eval)
  obtain m' where m': "vlog_device_mmio_write VLOG_REG_CMD VLOG_CMD_STAT m = Inr m'"
    and mem': "mem m' = st_bytes (mem m) 0x7f0000000010 (stats_bytes \<lparr>records = 0, bytes = 0\<rparr>)"
    using d r by (simp add: vlog_device_mmio_write_def cmd_stat_spec stat_accepts_def in_ram_def
        msg_addr_def msg_host_def vlog_device_init_def cconst)
  have "mem m' 0x7f0000000010 \<noteq> mem m 0x7f0000000010"
    by (simp add: mem mem' st_bytes_def stats_bytes_def le_bytes_4 char_of_def)
  then show ?thesis using m m' mmio_write_confined [OF m'] by blast
qed

text \<open>C31: Whatever the guest writes, STATUS stays READY alone or READY with ERROR and one of the
  three error codes.\<close>

theorem status_invariant:
  assumes "dev_status_ok m" and "mmio_writes ws m = Inr m'"
  shows "dev_status_ok m'"
  using assms by (rule mmio_writes_status)

theorem status_invariant_witness:
  "\<exists>m'. mmio_writes (demo_cmd 0x100000 2 9) demo_machine = Inr m' \<and> dev_status_ok m' \<and>
     (\<exists>d. v_dev (vm m') = Some d \<and> d_status d = 0x105)"
proof -
  obtain m' where m': "mmio_writes (demo_cmd 0x100000 2 9) demo_machine = Inr m'"
    "\<exists>d. v_dev (vm m') = Some d \<and> d_status d = 0x105"
    by (simp add: dev_eval)
  have "dev_status_ok demo_machine"
    by (simp add: dev_status_ok_def status_ok_def demo_machine_def vlog_device_init_def cconst)
  then show ?thesis using status_invariant [OF _ m'(1)] m' by blast
qed

text \<open>An accepted STAT makes the eight bytes at the message address read back as SEQ and the
  byte counter, leaves the log and both counters alone, and clears ERROR.\<close>

theorem stat_reads_back:
  assumes d: "v_dev (vm m) = Some d" and ok: "stat_accepts d" "in_ram (msg_addr d) (unat (d_len d))"
    and w: "vlog_device_mmio_write VLOG_REG_CMD VLOG_CMD_STAT m = Inr m'"
  shows "ld32 (mem m') (msg_host d m) = d_seq d \<and> ld32 (mem m') (msg_host d m + 4) = d_bytes d \<and>
    v_store (vm m') = v_store (vm m) \<and> v_dev (vm m') = Some (clear_error d)"
proof -
  have len: "\<not> unat (d_len d) < sizeof_stats" using ok by (simp add: stat_accepts_def)
  have m': "m' = upd_dev (clear_error d) (m\<lparr>mem := st_bytes (mem m) (msg_host d m)
         (stats_bytes \<lparr>records = d_seq d, bytes = d_bytes d\<rparr>)\<rparr>)"
    using w d ok len by (simp add: vlog_device_mmio_write_def cmd_stat_spec cconst)
  let ?bs = "stats_bytes \<lparr>records = d_seq d, bytes = d_bytes d\<rparr>"
  have all: "ld_bytes (mem m') (msg_host d m) 8 = ?bs"
    by (simp add: m' ld_st_same stats_bytes_def)
  have "ld_bytes (mem m') (msg_host d m) 4 = take 4 ?bs"
    using ld_bytes_take [of 4 8 "mem m'" "msg_host d m"] by (simp add: all)
  moreover have "ld_bytes (mem m') (msg_host d m + 4) 4 = drop 4 ?bs"
    using ld_bytes_drop [of 4 8 "mem m'" "msg_host d m"] by (simp add: all)
  ultimately show ?thesis
    by (simp add: ld32_def stats_bytes_def ld32_le_bytes) (simp add: m')
qed

theorem stat_reads_back_witness:
  "\<exists>m m' d. mmio_writes [(VLOG_REG_MSG_LO, 0x100010), (VLOG_REG_LEN, 8)] demo_machine = Inr m \<and>
     vlog_device_mmio_write VLOG_REG_CMD VLOG_CMD_STAT m = Inr m' \<and> v_dev (vm m) = Some d \<and>
     ld32 (mem m') (msg_host d m) = d_seq d"
proof -
  obtain m where m: "mmio_writes [(VLOG_REG_MSG_LO, 0x100010), (VLOG_REG_LEN, 8)] demo_machine = Inr m"
    and d: "v_dev (vm m) = Some (vlog_device_init\<lparr>d_msg_addr_lo := 0x100010, d_len := 8\<rparr>)"
    by (simp add: dev_eval)
  let ?d = "vlog_device_init\<lparr>d_msg_addr_lo := 0x100010, d_len := 8\<rparr>"
  have ok: "stat_accepts ?d" "in_ram (msg_addr ?d) (unat (d_len ?d))"
    by (simp_all add: stat_accepts_def in_ram_def msg_addr_def vlog_device_init_def cconst)
  obtain m' where m': "vlog_device_mmio_write VLOG_REG_CMD VLOG_CMD_STAT m = Inr m'"
    using d ok by (simp add: vlog_device_mmio_write_def cmd_stat_spec stat_accepts_def cconst)
  show ?thesis using m m' d stat_reads_back [OF d ok m'] by blast
qed

text \<open>An accepted LOG leaves STATUS as it was, so an ERROR of the command before stays set.\<close>

theorem log_keeps_status:
  assumes "v_dev (vm m) = Some d" and "v_store (vm m) = Some ls" and "log_accepts d"
    and "vlog_device_mmio_write VLOG_REG_CMD VLOG_CMD_LOG m = Inr m'"
  shows "\<exists>d'. v_dev (vm m') = Some d' \<and> d_status d' = d_status d \<and> d_seq d' = d_seq d + 1"
proof -
  have "cmd_log d m = Inr m'" using assms by (simp add: vlog_device_mmio_write_def cconst)
  then show ?thesis using assms(2,3) by (auto simp: cmd_log_spec log_accepts_def split: if_splits)
qed

theorem log_keeps_status_witness:
  "\<exists>m m' d'. mmio_writes [(VLOG_REG_MSG_LO, 0x100000), (VLOG_REG_LEN, 2), (VLOG_REG_CMD, 9)] demo_machine = Inr m \<and>
     vlog_device_mmio_write VLOG_REG_CMD VLOG_CMD_LOG m = Inr m' \<and>
     v_dev (vm m') = Some d' \<and> d_seq d' = 1 \<and> d_status d' AND VLOG_STATUS_ERROR \<noteq> 0"
proof -
  let ?d = "vlog_device_init\<lparr>d_msg_addr_lo := 0x100000, d_len := 2, d_status := 0x105\<rparr>"
  let ?ls = "\<lparr>ls_buf = [], ls_disk = [], ls_lock = None\<rparr>"
  obtain m where m: "mmio_writes [(VLOG_REG_MSG_LO, 0x100000), (VLOG_REG_LEN, 2), (VLOG_REG_CMD, 9)] demo_machine = Inr m"
    and d: "v_dev (vm m) = Some ?d" and ls: "v_store (vm m) = Some ?ls"
    by (simp add: dev_eval)
  have ok: "log_accepts ?d"
    by (simp add: log_accepts_def in_ram_def msg_addr_def vlog_device_init_def cconst)
  obtain m' where m': "vlog_device_mmio_write VLOG_REG_CMD VLOG_CMD_LOG m = Inr m'"
    using cmd_log_returns [OF ls] d by (auto simp: write_cmd)
  obtain d' where "v_dev (vm m') = Some d'" "d_status d' = 0x105" "d_seq d' = d_seq ?d + 1"
    using log_keeps_status [OF d ls ok m'] by auto
  moreover have "(0x105 :: u32) AND VLOG_STATUS_ERROR \<noteq> 0" by (simp add: cconst)
  ultimately show ?thesis using m m' by (force simp: vlog_device_init_def)
qed

text \<open>An empty message needs no address, says \<^verbatim>\<open>SPEC.md\<close>; the code refuses address 0 all the same.\<close>

lemma empty_log_null_address:
  "d_len d = 0 \<Longrightarrow> msg_addr d = 0 \<Longrightarrow> cmd_log d m = Inr (upd_dev (set_error VLOG_ERR_BADADDR d) m)"
  by (simp add: cmd_log_def)

text \<open>A LOG that is rejected for its address right after an unknown command reports ERRCODE 3
  (bad length), the bitwise union of the two codes, and not ERRCODE 2.\<close>

theorem log_error_codes_merge:
  assumes "v_dev (vm m) = Some d" and "v_store (vm m) = Some ls"
    and "d_len d \<le> VLOG_MAX_MSG" and "\<not> log_accepts d"
    and "vlog_device_mmio_write VLOG_REG_CMD 9 m = Inr m1" and "status_ok (d_status d)"
    and "vlog_device_mmio_write VLOG_REG_CMD VLOG_CMD_LOG m1 = Inr m2"
  shows "vlog_device_mmio_read VLOG_REG_STATUS m2 = Inr 0x305"
proof -
  let ?d = "set_error VLOG_ERR_BADCMD (clear_error d)"
  have m1: "m1 = upd_dev ?d m" using assms(1,5) by (simp add: write_cmd)
  have bad: "\<not> log_accepts ?d" "\<not> VLOG_MAX_MSG < d_len ?d"
    using assms(3,4) by (simp_all add: log_accepts_def not_less)
  have "v_dev (vm m1) = Some ?d" by (simp add: m1)
  then have "cmd_log ?d m1 = Inr m2" using assms(7) by (simp add: write_cmd)
  then have "m2 = upd_dev (set_error VLOG_ERR_BADADDR ?d) m1"
    using assms(2) m1 bad by (simp add: cmd_log_spec)
  moreover have "d_status (set_error VLOG_ERR_BADADDR ?d) = 0x305"
    using assms(6) by (auto simp: status_ok_def set_error_def clear_error_def cconst)
  ultimately show ?thesis by (simp add: vlog_device_mmio_read_def cconst)
qed

theorem log_error_codes_merge_witness:
  "\<exists>m m1 m2. mmio_writes [(VLOG_REG_MSG_LO, 1), (VLOG_REG_LEN, 4)] demo_machine = Inr m \<and>
     vlog_device_mmio_write VLOG_REG_CMD 9 m = Inr m1 \<and>
     vlog_device_mmio_write VLOG_REG_CMD VLOG_CMD_LOG m1 = Inr m2 \<and>
     vlog_device_mmio_read VLOG_REG_STATUS m2 = Inr 0x305"
proof -
  let ?d = "vlog_device_init\<lparr>d_msg_addr_lo := 1, d_len := 4\<rparr>"
  obtain m where m: "mmio_writes [(VLOG_REG_MSG_LO, 1), (VLOG_REG_LEN, 4)] demo_machine = Inr m"
    and d: "v_dev (vm m) = Some ?d" and ls: "v_store (vm m) = Some \<lparr>ls_buf = [], ls_disk = [], ls_lock = None\<rparr>"
    by (simp add: dev_eval)
  have c: "d_len ?d \<le> VLOG_MAX_MSG" "\<not> log_accepts ?d" "status_ok (d_status ?d)"
    by (simp_all add: log_accepts_def in_ram_def msg_addr_def vlog_device_init_def status_ok_def cconst)
  obtain m1 where m1: "vlog_device_mmio_write VLOG_REG_CMD 9 m = Inr m1"
    and s1: "v_dev (vm m1) = Some (set_error VLOG_ERR_BADCMD (clear_error ?d))" "v_store (vm m1) = v_store (vm m)"
    using d by (simp add: write_cmd)
  obtain m2 where m2: "vlog_device_mmio_write VLOG_REG_CMD VLOG_CMD_LOG m1 = Inr m2"
    using cmd_log_returns [of m1] s1 ls by (auto simp: write_cmd)
  show ?thesis using m m1 m2 log_error_codes_merge [OF d ls c(1,2) m1 c(3) m2] by blast
qed

definition operand_reg :: "u64 \<Rightarrow> bool" where
  "operand_reg r = (r = VLOG_REG_MSG_LO \<or> r = VLOG_REG_MSG_HI \<or> r = VLOG_REG_LEN \<or> r = VLOG_REG_LEVEL)"

text \<open>Operand registers read back what was last written to them, and the read-only registers
  and unknown offsets are not changed by writes to them.\<close>

theorem register_read_back:
  assumes "v_dev (vm m) = Some d" and "r \<noteq> VLOG_REG_CMD"
    and "vlog_device_mmio_write r val m = Inr m'"
  shows "vlog_device_mmio_read r m' = (if operand_reg r then Inr (ucast (ucast val :: u32)) else vlog_device_mmio_read r m)
    \<and> (\<forall>r'. r' \<noteq> r \<longrightarrow> r' \<noteq> VLOG_REG_STATUS \<longrightarrow> vlog_device_mmio_read r' m' = vlog_device_mmio_read r' m)"
  using assms by (auto simp: vlog_device_mmio_write_def vlog_device_mmio_read_def operand_reg_def
      clear_error_def cconst split: if_splits)

theorem register_read_back_witness:
  "\<exists>m'. vlog_device_mmio_write VLOG_REG_LEN 0x100000007 demo_machine = Inr m' \<and>
     vlog_device_mmio_read VLOG_REG_LEN m' = Inr 7 \<and>
     vlog_device_mmio_read VLOG_REG_ID m' = Inr 0x31474C56"
proof -
  obtain m' where m': "vlog_device_mmio_write VLOG_REG_LEN 0x100000007 demo_machine = Inr m'"
    by (simp add: dev_eval)
  have d: "v_dev (vm demo_machine) = Some vlog_device_init" by (simp add: demo_machine_def)
  have "VLOG_REG_LEN \<noteq> VLOG_REG_CMD" "VLOG_REG_ID \<noteq> VLOG_REG_LEN" "VLOG_REG_ID \<noteq> VLOG_REG_STATUS"
    by (simp_all add: cconst)
  from register_read_back [OF d this(1) m'] this(2,3)
  have "vlog_device_mmio_read VLOG_REG_LEN m' = Inr (ucast (ucast (0x100000007 :: u64) :: u32))"
    and "vlog_device_mmio_read VLOG_REG_ID m' = vlog_device_mmio_read VLOG_REG_ID demo_machine"
    by (auto simp: operand_reg_def)
  then show ?thesis using m' d by (simp add: vlog_device_mmio_read_def cconst)
qed



end
