(* ===== verification/Vmm.thy ===== *)
theory Vmm
  imports Device
begin

text \<open>
  \<^verbatim>\<open>project_1/emulator/vmm.c\<close>: the VMM itself.  The CPU is the Unicorn library, which is not
  part of the repository: a run of the guest is the list of the callbacks it causes
  (\<open>uc_event\<close>), an argument of \<open>vmm_run\<close>, and the results of the library and system calls
  are arguments too (\<open>create_env\<close>, \<open>load_env\<close>).  The model relies on one documented fact
  about Unicorn: after \<^verbatim>\<open>uc_emu_stop\<close> it makes no further callback.
\<close>

section \<open>Serial and control region\<close>

definition serial_read :: "u64 \<Rightarrow> machine \<Rightarrow> u64" where
  "serial_read offset m = 0"

definition stop_cpu :: "machine \<Rightarrow> machine" where
  "stop_cpu m = m\<lparr>vm := (vm m)\<lparr>v_uc := map_option (\<lambda>u. u\<lparr>uc_stopped := True\<rparr>) (v_uc (vm m))\<rparr>\<rparr>"

definition serial_write :: "u64 \<Rightarrow> u64 \<Rightarrow> machine \<Rightarrow> machine" where
  "serial_write offset val m =
     (if offset = SERIAL_TX then m\<lparr>console := console m @ [char_of (unat val)]\<rparr>
      else if offset = SERIAL_POWEROFF then
        stop_cpu (m\<lparr>vm := (vm m)\<lparr>v_exit_code := sint (ucast val :: u32), v_powered_off := True\<rparr>\<rparr>)
      else m)"

section \<open>Guest memory faults\<close>

definition mem_invalid :: "int \<Rightarrow> u64 \<Rightarrow> machine \<Rightarrow> bool \<times> machine" where
  "mem_invalid type addr m =
     (False, stop_cpu (m\<lparr>vm := (vm m)\<lparr>v_faulted := True, v_fault_addr := addr\<rparr>,
        errout := errout m @ ''ERROR fault address: '' @ dec (unat addr) @ '' '' @ [NL] @
          ''Type of access: '' @ dec_int type\<rparr>))"

section \<open>Lifecycle\<close>

text \<open>The results of the calls \<^verbatim>\<open>vmm_create\<close> makes; \<open>ce_uc_err\<close> is the error text of
  \<^verbatim>\<open>uc_open\<close>, \<open>ce_ram\<close> the address \<^verbatim>\<open>calloc\<close> returned (0 when it failed).\<close>

record create_env =
  ce_store_alloc :: bool
  ce_store_fopen :: bool
  ce_uc_err :: "string option"
  ce_ram :: u64
  ce_map_ram :: bool
  ce_map_serial :: bool
  ce_dev_alloc :: bool
  ce_map_dev :: bool

definition upd_uc :: "(uc_engine \<Rightarrow> uc_engine) \<Rightarrow> machine \<Rightarrow> machine" where
  "upd_uc f m = m\<lparr>vm := (vm m)\<lparr>v_uc := map_option f (v_uc (vm m))\<rparr>\<rparr>"

definition uc_map :: "u64 \<Rightarrow> u64 \<Rightarrow> uc_region \<Rightarrow> machine \<Rightarrow> machine" where
  "uc_map base sz r m = upd_uc (\<lambda>u. u\<lparr>uc_maps := uc_maps u @ [(base, sz, r)]\<rparr>) m"

definition zero_ram :: "u64 \<Rightarrow> hmem \<Rightarrow> hmem" where
  "zero_ram ram hm = (\<lambda>a. if unat (a - ram) < unat RAM_SIZE then NUL else hm a)"

definition vmm_create :: "create_env \<Rightarrow> bool \<Rightarrow> string \<Rightarrow> machine \<Rightarrow> int \<times> machine" where
  "vmm_create e trace log_path m =
     (let m0 = m\<lparr>vm := vmm_zero\<lparr>v_trace := trace\<rparr>\<rparr> in
      case logstore_open (ce_store_alloc e) (ce_store_fopen e) of
        None \<Rightarrow> (- 1, m0\<lparr>errout := errout m0 @ ''cannot open log file '' @ [CHR 0x27] @ log_path @ [CHR 0x27, NL]\<rparr>)
      | Some ls \<Rightarrow>
          (let m1 = m0\<lparr>vm := (vm m0)\<lparr>v_store := Some ls\<rparr>, open_files := open_files m0 + 1\<rparr> in
           case ce_uc_err e of
             Some msg \<Rightarrow> (- 1, m1\<lparr>errout := errout m1 @ ''uc_open: '' @ msg @ [NL]\<rparr>)
           | None \<Rightarrow>
              (let m2 = m1\<lparr>vm := (vm m1)\<lparr>v_uc := Some uc_fresh\<rparr>\<rparr> in
               if ce_ram e = 0 then (- 1, m2)
               else let m3 = m2\<lparr>vm := (vm m2)\<lparr>v_ram := ce_ram e\<rparr>, mem := zero_ram (ce_ram e) (mem m2)\<rparr> in
               if \<not> ce_map_ram e then (- 1, m3)
               else let m4 = uc_map RAM_BASE RAM_SIZE (Ram (ce_ram e)) m3 in
               if \<not> ce_map_serial e then (- 1, m4)
               else let m5 = uc_map SERIAL_BASE SERIAL_SIZE Serial_mmio m4 in
               if \<not> ce_dev_alloc e then (- 1, m5\<lparr>errout := errout m5 @ ''out of memory allocating device'' @ [NL]\<rparr>)
               else let m6 = upd_dev vlog_device_init m5 in
               if \<not> ce_map_dev e then (- 1, m6)
               else let m7 = uc_map DEV_BASE DEV_SIZE Device_mmio m6;
                        m8 = upd_uc (\<lambda>u. u\<lparr>uc_rsp := BOOTINFO_BASE - 16\<rparr>) m7;
                        m9 = upd_uc (\<lambda>u. u\<lparr>uc_rdi := BOOTINFO_BASE\<rparr>) m8;
                        m10 = upd_uc (\<lambda>u. u\<lparr>uc_fault_hook := True\<rparr>) m9;
                        m11 = (if trace then upd_uc (\<lambda>u. u\<lparr>uc_trace_hook := True\<rparr>) m10 else m10)
               in (0, m11))))"

text \<open>The calls of \<^verbatim>\<open>vmm_load_binary\<close>: the file, whether both seeks work, what \<^verbatim>\<open>ftell\<close> says
  (as the unsigned value it is stored in), how many bytes \<^verbatim>\<open>fread\<close> delivers, and
  \<^verbatim>\<open>uc_reg_write\<close>.  An early return leaves the file open, as the code does.\<close>

record load_env =
  le_file :: "byte list option"
  le_seek_end :: bool
  le_ftell :: u64
  le_seek_set :: bool
  le_fread :: nat
  le_reg_write :: bool

definition vmm_load_binary :: "load_env \<Rightarrow> machine \<Rightarrow> int \<times> machine" where
  "vmm_load_binary e m =
     (case le_file e of
        None \<Rightarrow> (- 1, m)
      | Some file \<Rightarrow>
          (let m1 = m\<lparr>open_files := open_files m + 1\<rparr> in
           if \<not> le_seek_end e then (- 1, m1)
           else let fsize = le_ftell e in
           if fsize > RAM_SIZE then (- 1, m1)
           else if \<not> le_seek_set e then (- 1, m1)
           else let m2 = m1\<lparr>mem := st_bytes (mem m1) (v_ram (vm m1)) (take (min (le_fread e) (unat fsize)) file)\<rparr> in
           if of_nat (le_fread e) \<noteq> fsize then (- 1, m2)
           else if \<not> le_reg_write e then (- 1, m2)
           else (0, (upd_uc (\<lambda>u. u\<lparr>uc_rip := RAM_BASE\<rparr>) m2)\<lparr>open_files := open_files m2 - 1\<rparr>)))"

text \<open>\<^verbatim>\<open>vmm_load_bootinfo\<close>: \<open>sz\<close> is the signed result of \<^verbatim>\<open>ftell\<close>.\<close>

definition vmm_load_bootinfo :: "byte list option \<Rightarrow> int \<Rightarrow> nat \<Rightarrow> machine \<Rightarrow> int \<times> machine" where
  "vmm_load_bootinfo file sz n m =
     (case file of
        None \<Rightarrow> (- 1, m)
      | Some bs \<Rightarrow>
          if sz < 0 \<or> word_of_int sz > BOOTINFO_SIZE
            then (- 1, m\<lparr>errout := errout m @ ''bootinfo blob too large or unreadable'' @ [NL]\<rparr>)
          else let m1 = m\<lparr>mem := st_bytes (mem m) (v_ram (vm m) + (BOOTINFO_BASE - RAM_BASE)) (take (min n (nat sz)) bs)\<rparr> in
          if int n \<noteq> sz then (- 1, m1\<lparr>errout := errout m1 @ ''short read loading bootinfo'' @ [NL]\<rparr>)
          else (0, m1))"

section \<open>Running the guest\<close>

text \<open>What the guest does that the emulator can see: the callbacks it causes, and its own stores
  to guest RAM, which the CPU makes directly in the buffer given to \<^verbatim>\<open>uc_mem_map_ptr\<close>.\<close>

datatype uc_event =
    Serial_read u64
  | Serial_write u64 u64
  | Dev_read u64
  | Dev_write u64 u64
  | Unmapped int u64
  | Ram_store u64 "byte list"

fun uc_callback :: "uc_event \<Rightarrow> machine \<Rightarrow> ub + machine" where
  "uc_callback (Serial_read offset) m = Inr m"
| "uc_callback (Serial_write offset val) m = Inr (serial_write offset val m)"
| "uc_callback (Dev_read offset) m = bind_ub (vlog_device_mmio_read offset m) (\<lambda>_. Inr m)"
| "uc_callback (Dev_write offset val) m = vlog_device_mmio_write offset val m"
| "uc_callback (Unmapped type addr) m = Inr (snd (mem_invalid type addr m))"
| "uc_callback (Ram_store gpa bs) m = Inr
     (if in_ram gpa (length bs) then m\<lparr>mem := st_bytes (mem m) (v_ram (vm m) + (gpa - RAM_BASE)) bs\<rparr> else m)"

definition cpu_stopped :: "machine \<Rightarrow> bool" where
  "cpu_stopped m = (case v_uc (vm m) of None \<Rightarrow> True | Some u \<Rightarrow> uc_stopped u)"

fun uc_emu :: "uc_event list \<Rightarrow> machine \<Rightarrow> ub + machine" where
  "uc_emu [] m = Inr m"
| "uc_emu (e # es) m = (if cpu_stopped m then Inr m else bind_ub (uc_callback e m) (uc_emu es))"

text \<open>The result of \<^verbatim>\<open>vmm_run\<close> once \<^verbatim>\<open>uc_emu_start\<close> has returned.\<close>

definition run_status :: "bool \<Rightarrow> machine \<Rightarrow> int" where
  "run_status err_ok m =
     (if v_faulted (vm m) then VMM_EXIT_FAULT
      else if \<not> err_ok \<and> \<not> v_powered_off (vm m) then - 1
      else v_exit_code (vm m))"

text \<open>The state \<^verbatim>\<open>uc_emu_start\<close> begins with.\<close>

definition emu_start :: "machine \<Rightarrow> machine" where
  "emu_start m = upd_uc (\<lambda>u. u\<lparr>uc_stopped := False, uc_rip := RAM_BASE\<rparr>) m"

definition vmm_run :: "uc_event list \<Rightarrow> bool \<Rightarrow> machine \<Rightarrow> ub + (int \<times> machine)" where
  "vmm_run es err_ok m =
     bind_ub (uc_emu es (emu_start m)) (\<lambda>m'. Inr (run_status err_ok m', m'))"

definition vmm_destroy :: "machine \<Rightarrow> machine" where
  "vmm_destroy m = m\<lparr>vm := (vm m)\<lparr>v_uc := None, v_store := None, v_ram := 0, v_dev := None\<rparr>,
     open_files := (case v_store (vm m) of None \<Rightarrow> open_files m | Some _ \<Rightarrow> open_files m - 1),
     log_file := (case v_store (vm m) of None \<Rightarrow> log_file m | Some _ \<Rightarrow> logstore_close (v_store (vm m)))\<rparr>"

section \<open>What a run keeps\<close>

lemma uc_emu_stopped: "cpu_stopped m \<Longrightarrow> uc_emu es m = Inr m"
  by (cases es) auto

lemma uc_emu_append: "uc_emu (es @ fs) m = bind_ub (uc_emu es m) (uc_emu fs)"
proof (induction es arbitrary: m)
  case Nil
  then show ?case by simp
next
  case (Cons e es)
  then show ?case by (cases "uc_callback e m") (auto simp: uc_emu_stopped)
qed

text \<open>The parts of the machine that only particular callbacks change.\<close>

lemma stop_cpu_frame [simp]:
  "mem (stop_cpu m) = mem m" "v_ram (vm (stop_cpu m)) = v_ram (vm m)"
  "v_dev (vm (stop_cpu m)) = v_dev (vm m)" "v_store (vm (stop_cpu m)) = v_store (vm m)"
  "v_faulted (vm (stop_cpu m)) = v_faulted (vm m)" "v_powered_off (vm (stop_cpu m)) = v_powered_off (vm m)"
  "v_exit_code (vm (stop_cpu m)) = v_exit_code (vm m)" "open_files (stop_cpu m) = open_files m"
  "v_fault_addr (vm (stop_cpu m)) = v_fault_addr (vm m)"
  "console (stop_cpu m) = console m" "log_file (stop_cpu m) = log_file m"
  by (simp_all add: stop_cpu_def)

lemma serial_write_frame [simp]:
  "mem (serial_write offset val m) = mem m" "v_ram (vm (serial_write offset val m)) = v_ram (vm m)"
  "v_dev (vm (serial_write offset val m)) = v_dev (vm m)"
  "v_store (vm (serial_write offset val m)) = v_store (vm m)"
  "v_faulted (vm (serial_write offset val m)) = v_faulted (vm m)"
  "open_files (serial_write offset val m) = open_files m" "log_file (serial_write offset val m) = log_file m"
  by (simp_all add: serial_write_def)

lemma mem_invalid_frame [simp]:
  "mem (snd (mem_invalid type addr m)) = mem m"
  "v_ram (vm (snd (mem_invalid type addr m))) = v_ram (vm m)"
  "v_dev (vm (snd (mem_invalid type addr m))) = v_dev (vm m)"
  "v_store (vm (snd (mem_invalid type addr m))) = v_store (vm m)"
  "v_powered_off (vm (snd (mem_invalid type addr m))) = v_powered_off (vm m)"
  "open_files (snd (mem_invalid type addr m)) = open_files m"
  "log_file (snd (mem_invalid type addr m)) = log_file m"
  "console (snd (mem_invalid type addr m)) = console m"
  by (simp_all add: mem_invalid_def)

lemma mmio_write_frame:
  assumes "vlog_device_mmio_write offset val m = Inr m'"
  shows "v_ram (vm m') = v_ram (vm m) \<and> v_uc (vm m') = v_uc (vm m) \<and> console m' = console m \<and>
    v_faulted (vm m') = v_faulted (vm m) \<and> v_powered_off (vm m') = v_powered_off (vm m) \<and>
    v_exit_code (vm m') = v_exit_code (vm m) \<and> open_files m' = open_files m \<and> log_file m' = log_file m"
  using assms
  by (auto simp: vlog_device_mmio_write_def cmd_log_def cmd_flush_def cmd_stat_def Let_def upd_dev_def upd_store_def
      split: option.splits if_splits)

lemma uc_callback_ram: "uc_callback e m = Inr m' \<Longrightarrow> v_ram (vm m') = v_ram (vm m) \<and> open_files m' = open_files m"
  by (cases e) (auto simp: bind_ub_Inr_iff dest: mmio_write_frame)

lemma uc_emu_ram: "uc_emu es m = Inr m' \<Longrightarrow> v_ram (vm m') = v_ram (vm m) \<and> open_files m' = open_files m"
proof (induction es arbitrary: m)
  case (Cons e es)
  then show ?case by (fastforce simp: bind_ub_Inr_iff dest: uc_callback_ram split: if_splits)
qed simp

lemma uc_callback_confined:
  assumes "uc_callback e m = Inr m'" and "mem m' a \<noteq> mem m a"
  shows "backed_by (ram_window (vm m)) a"
proof (cases e)
  case (Ram_store gpa bs)
  with assms have r: "in_ram gpa (length bs)"
    and ne: "st_bytes (mem m) (v_ram (vm m) + (gpa - RAM_BASE)) bs a \<noteq> mem m a"
    by (auto split: if_splits)
  from r ram_consts have "unat (of_nat (length bs) :: u64) = length bs"
    by (intro unat64) (auto simp: in_ram_def)
  then have "\<exists>w\<in>{ram_window (vm m)}. backed_by w a"
    by (intro vmm_xlate.store_confined [OF _ _ ne, where gpa = gpa and len = "of_nat (length bs)"])
      (use r in \<open>simp_all add: translate_in_ram\<close>)
  then show ?thesis by simp
qed (use assms in \<open>auto simp: bind_ub_Inr_iff dest: mmio_write_confined_ram\<close>)

lemma uc_emu_confined:
  assumes "uc_emu es m = Inr m'" and "mem m' a \<noteq> mem m a"
  shows "backed_by (ram_window (vm m)) a"
  using assms
proof (induction es arbitrary: m)
  case Nil
  then show ?case by simp
next
  case (Cons e es)
  show ?case
  proof (cases "cpu_stopped m")
    case True
    with Cons.prems show ?thesis by simp
  next
    case False
    with Cons.prems obtain m1 where m1: "uc_callback e m = Inr m1" "uc_emu es m1 = Inr m'"
      by (auto simp: bind_ub_Inr_iff)
    have "ram_window (vm m1) = ram_window (vm m)"
      using uc_callback_ram [OF m1(1)] by (simp add: ram_window_def)
    then show ?thesis
      using Cons.IH [OF m1(2)] Cons.prems(2) uc_callback_confined [OF m1(1)] by (cases "mem m1 a = mem m a") auto
  qed
qed

text \<open>A stopped CPU is the mark of a fault or a poweroff, and a run has at most one of them.\<close>

definition run_inv :: "machine \<Rightarrow> bool" where
  "run_inv m = (v_uc (vm m) \<noteq> None \<and>
     (cpu_stopped m \<longleftrightarrow> v_faulted (vm m) \<or> v_powered_off (vm m)) \<and>
     \<not> (v_faulted (vm m) \<and> v_powered_off (vm m)))"

lemma cpu_stopped_stop [simp]: "v_uc (vm m) \<noteq> None \<Longrightarrow> cpu_stopped (stop_cpu m)"
  by (auto simp: cpu_stopped_def stop_cpu_def)

lemma stop_cpu_uc [simp]:
  "v_uc (vm (stop_cpu m)) = None \<longleftrightarrow> v_uc (vm m) = None"
  "(\<exists>u. v_uc (vm (stop_cpu m)) = Some u) \<longleftrightarrow> (\<exists>u. v_uc (vm m) = Some u)"
  by (auto simp: stop_cpu_def)

lemma serial_consts [simp]: "SERIAL_POWEROFF \<noteq> SERIAL_TX"
  by (simp add: cconst)

lemma serial_write_run_inv:
  assumes "run_inv m" and "\<not> cpu_stopped m"
  shows "run_inv (serial_write offset val m)"
proof (cases "offset = SERIAL_POWEROFF \<and> offset \<noteq> SERIAL_TX")
  case True
  then show ?thesis using assms by (simp add: run_inv_def serial_write_def)
next
  case False
  then show ?thesis using assms by (auto simp: run_inv_def serial_write_def cpu_stopped_def)
qed

lemma mem_invalid_run_inv:
  assumes "run_inv m" and "\<not> cpu_stopped m"
  shows "run_inv (snd (mem_invalid type addr m))"
  using assms by (simp add: run_inv_def mem_invalid_def)

lemma uc_callback_run_inv:
  assumes "run_inv m" and "\<not> cpu_stopped m" and "uc_callback e m = Inr m'"
  shows "run_inv m'"
proof (cases e)
  case (Dev_write offset val)
  then show ?thesis using assms mmio_write_frame [of offset val m m']
    by (simp add: run_inv_def cpu_stopped_def)
next
  case (Dev_read offset)
  then show ?thesis using assms by (simp add: bind_ub_Inr_iff)
next
  case (Ram_store gpa bs)
  then show ?thesis using assms
    by (cases "in_ram gpa (length bs)") (auto simp: run_inv_def cpu_stopped_def)
qed (use assms serial_write_run_inv mem_invalid_run_inv in force)+

lemma uc_emu_run_inv: "run_inv m \<Longrightarrow> uc_emu es m = Inr m' \<Longrightarrow> run_inv m'"
proof (induction es arbitrary: m)
  case (Cons e es)
  then show ?case by (auto simp: bind_ub_Inr_iff intro: uc_callback_run_inv split: if_splits)
qed simp

section \<open>Properties of the VMM\<close>

definition demo_vm :: machine where
  "demo_vm = snd (vmm_create \<lparr>ce_store_alloc = True, ce_store_fopen = True, ce_uc_err = None,
     ce_ram = 0x7f0000000000, ce_map_ram = True, ce_map_serial = True, ce_dev_alloc = True,
     ce_map_dev = True\<rparr> False ''vlog.log''
     \<lparr>vm = vmm_zero, mem = (\<lambda>a. CHR ''A''), console = [], errout = [], open_files = 0, log_file = None\<rparr>)"

lemmas vmm_eval = vmm_create_def logstore_open_def uc_map_def upd_uc_def uc_fresh_def Let_def vmm_zero_def upd_dev_def

lemma demo_vm_facts: "v_uc (vm demo_vm) \<noteq> None" "v_dev (vm demo_vm) = Some vlog_device_init"
  "v_store (vm demo_vm) = Some \<lparr>ls_buf = [], ls_disk = [], ls_lock = None\<rparr>"
  "v_ram (vm demo_vm) = 0x7f0000000000" "\<not> cpu_stopped demo_vm" "\<not> v_faulted (vm demo_vm)"
  "\<not> v_powered_off (vm demo_vm)" "open_files demo_vm = 1"
  by (simp_all add: demo_vm_def vmm_eval cpu_stopped_def)

lemma emu_start_demo: "\<not> cpu_stopped (emu_start demo_vm)" "run_inv (emu_start demo_vm)"
  "console (emu_start demo_vm) = []" "v_ram (vm (emu_start demo_vm)) = 0x7f0000000000"
  "mem (emu_start demo_vm) = mem demo_vm"
  by (simp_all add: emu_start_def demo_vm_def vmm_eval cpu_stopped_def run_inv_def)

text \<open>C26: The exit code of a run is the value of the guest's first POWEROFF write; whatever the
  guest would do after it is not executed and the VMM reports no fault.\<close>

theorem vmm_run_poweroff:
  assumes "uc_emu pre (emu_start m) = Inr m1" and "\<not> cpu_stopped m1" and "run_inv (emu_start m)"
  shows "vmm_run (pre @ Serial_write SERIAL_POWEROFF val # post) err_ok m =
    Inr (sint (ucast val :: u32), serial_write SERIAL_POWEROFF val m1)"
proof -
  let ?m2 = "serial_write SERIAL_POWEROFF val m1"
  have inv: "run_inv m1" using assms uc_emu_run_inv by blast
  then have nf: "\<not> v_faulted (vm m1)" using assms(2) by (simp add: run_inv_def)
  have uc: "v_uc (vm m1) \<noteq> None" using inv by (simp add: run_inv_def)
  have st: "cpu_stopped ?m2" using uc by (auto simp: serial_write_def cpu_stopped_def stop_cpu_def SERIAL_TX_def SERIAL_POWEROFF_def)
  have off: "v_powered_off (vm ?m2)" "v_exit_code (vm ?m2) = sint (ucast val :: u32)"
    by (simp_all add: serial_write_def SERIAL_TX_def SERIAL_POWEROFF_def)
  have "uc_emu (pre @ Serial_write SERIAL_POWEROFF val # post) (emu_start m) = Inr ?m2"
    using assms(1,2) st by (simp add: uc_emu_append uc_emu_stopped)
  then show ?thesis using nf off by (simp add: vmm_run_def run_status_def)
qed

theorem vmm_run_poweroff_witness:
  "\<exists>m1. vmm_run [Serial_write SERIAL_TX 72, Serial_write SERIAL_POWEROFF 0xFFFFFFFE, Unmapped 19 0] True demo_vm =
     Inr (- 2, m1) \<and> console m1 = ''H''"
proof -
  have u: "uc_emu [Serial_write SERIAL_TX 72] (emu_start demo_vm) = Inr (serial_write SERIAL_TX 72 (emu_start demo_vm))"
    using emu_start_demo by simp
  have n: "\<not> cpu_stopped (serial_write SERIAL_TX 72 (emu_start demo_vm))"
    using emu_start_demo by (simp add: serial_write_def cpu_stopped_def)
  from vmm_run_poweroff [OF u n emu_start_demo(2), where val = "0xFFFFFFFE" and post = "[Unmapped 19 0]" and err_ok = True]
  show ?thesis by (simp add: serial_write_def emu_start_demo char_of_def bit_0)
qed

text \<open>C27: A guest that touches unmapped memory makes the run return VMM_EXIT_FAULT (77) with the
  faulting address recorded, whatever it would do next and whatever the CPU library reports.\<close>

theorem vmm_run_fault:
  assumes "uc_emu pre (emu_start m) = Inr m1" and "\<not> cpu_stopped m1" and "run_inv (emu_start m)"
  shows "\<exists>m2. vmm_run (pre @ Unmapped type addr # post) err_ok m = Inr (VMM_EXIT_FAULT, m2) \<and>
    v_fault_addr (vm m2) = addr \<and> console m2 = console m1 \<and> mem m2 = mem m1"
proof -
  let ?m2 = "snd (mem_invalid type addr m1)"
  have "run_inv m1" using assms uc_emu_run_inv by blast
  then have uc: "v_uc (vm m1) \<noteq> None" by (simp add: run_inv_def)
  have st: "cpu_stopped ?m2" using uc by (simp add: mem_invalid_def)
  have f: "v_faulted (vm ?m2)" "v_fault_addr (vm ?m2) = addr"
    by (simp_all add: mem_invalid_def)
  have "uc_emu (pre @ Unmapped type addr # post) (emu_start m) = Inr ?m2"
    using assms(1,2) st by (simp add: uc_emu_append uc_emu_stopped del: mem_invalid_frame)
  then have "vmm_run (pre @ Unmapped type addr # post) err_ok m = Inr (VMM_EXIT_FAULT, ?m2)"
    using f by (simp add: vmm_run_def run_status_def)
  moreover have "console ?m2 = console m1" "mem ?m2 = mem m1" by simp_all
  ultimately show ?thesis using f by blast
qed

theorem vmm_run_fault_witness:
  "\<exists>m2. vmm_run [Unmapped 19 0x5000, Serial_write SERIAL_POWEROFF 3] False demo_vm = Inr (77, m2) \<and>
     v_fault_addr (vm m2) = 0x5000"
proof -
  have "uc_emu [] (emu_start demo_vm) = Inr (emu_start demo_vm)" by simp
  from vmm_run_fault [OF this emu_start_demo(1,2), where type = "19" and addr = "0x5000" and post = "[Serial_write SERIAL_POWEROFF 3]" and err_ok = False]
  show ?thesis by (auto simp: cconst)
qed



section \<open>Loading\<close>

text \<open>The environment in which every call behaves and the file on disk is \<open>file\<close>.\<close>

definition file_env :: "byte list \<Rightarrow> load_env" where
  "file_env file = \<lparr>le_file = Some file, le_seek_end = True, le_ftell = of_nat (length file),
     le_seek_set = True, le_fread = length file, le_reg_write = True\<rparr>"

text \<open>Loading a guest accepts exactly the files that fit in guest RAM; it puts the file at the
  start of RAM, changes nothing else there, points RIP at RAM and closes the file.\<close>

theorem vmm_load_binary_ok:
  assumes "length file < 2 ^ 64"
  shows "fst (vmm_load_binary (file_env file) m) = (if length file \<le> unat RAM_SIZE then 0 else - 1) \<and>
    (length file \<le> unat RAM_SIZE \<longrightarrow>
      (let m' = snd (vmm_load_binary (file_env file) m) in
       mem m' = st_bytes (mem m) (v_ram (vm m)) file \<and>
       ld_bytes (mem m') (v_ram (vm m)) (length file) = file \<and>
       v_uc (vm m') = map_option (\<lambda>u. u\<lparr>uc_rip := RAM_BASE\<rparr>) (v_uc (vm m)) \<and>
       open_files m' = open_files m)) \<and>
    (unat RAM_SIZE < length file \<longrightarrow> mem (snd (vmm_load_binary (file_env file) m)) = mem m)"
proof -
  have u: "unat (of_nat (length file) :: u64) = length file" using assms by (rule unat64)
  then have c: "(of_nat (length file) :: u64) > RAM_SIZE \<longleftrightarrow> unat RAM_SIZE < length file"
    by (simp only: word_less_nat_alt)
  show ?thesis
  proof (cases "unat RAM_SIZE < length file")
    case True
    then show ?thesis using c by (simp add: vmm_load_binary_def file_env_def Let_def)
  next
    case False
    have "unat RAM_SIZE \<le> 2 ^ 64" by (simp add: cconst)
    then have "ld_bytes (st_bytes (mem m) (v_ram (vm m)) file) (v_ram (vm m)) (length file) = file"
      using False by (intro ld_st_same) simp_all
    then show ?thesis using c u False
      by (simp add: vmm_load_binary_def file_env_def Let_def upd_uc_def)
  qed
qed

theorem vmm_load_binary_ok_witness:
  "fst (vmm_load_binary (file_env ''AB'') demo_vm) = 0"
  using vmm_load_binary_ok [of "''AB''" demo_vm] by (simp add: cconst)

text \<open>An error path of the loader after the file is opened leaves it open.\<close>

theorem vmm_load_binary_leaks:
  "fst (vmm_load_binary e m) = - 1 \<and> le_file e \<noteq> None \<Longrightarrow>
    open_files (snd (vmm_load_binary e m)) = open_files m + 1"
  by (auto simp: vmm_load_binary_def Let_def split: option.splits if_splits)

theorem vmm_load_binary_leaks_witness:
  "open_files (snd (vmm_load_binary (file_env ''AB''\<lparr>le_fread := 1\<rparr>) demo_vm)) = 2"
  using vmm_load_binary_leaks [of "file_env ''AB''\<lparr>le_fread := 1\<rparr>" demo_vm]
  by (simp add: vmm_load_binary_def file_env_def demo_vm_facts cconst Let_def)

definition create_ok :: "create_env \<Rightarrow> bool" where
  "create_ok e = (ce_store_alloc e \<and> ce_store_fopen e \<and> ce_uc_err e = None \<and> ce_ram e \<noteq> 0 \<and>
     ce_map_ram e \<and> ce_map_serial e \<and> ce_dev_alloc e \<and> ce_map_dev e)"

text \<open>Creating the machine succeeds exactly when every call it makes succeeds, and then the
  guest sees zeroed RAM at RAM_BASE, the serial region and the device at their addresses, the
  stack pointer below the boot-information block and the fault hook.\<close>

theorem vmm_create_ok:
  "(fst (vmm_create e trace path m) = 0 \<longleftrightarrow> create_ok e) \<and>
   (if create_ok e then
     (let m' = snd (vmm_create e trace path m) in
      v_uc (vm m') = Some \<lparr>uc_maps = [(RAM_BASE, RAM_SIZE, Ram (ce_ram e)), (SERIAL_BASE, SERIAL_SIZE, Serial_mmio),
          (DEV_BASE, DEV_SIZE, Device_mmio)], uc_rip = 0, uc_rsp = BOOTINFO_BASE - 16,
          uc_rdi = BOOTINFO_BASE, uc_fault_hook = True, uc_trace_hook = trace, uc_stopped = False\<rparr> \<and>
      v_ram (vm m') = ce_ram e \<and> ld_bytes (mem m') (ce_ram e) (unat RAM_SIZE) = replicate (unat RAM_SIZE) NUL \<and>
      v_dev (vm m') = Some vlog_device_init \<and> map_option ls_contents (v_store (vm m')) = Some [] \<and>
      \<not> v_powered_off (vm m') \<and> \<not> v_faulted (vm m'))
    else fst (vmm_create e trace path m) = - 1)"
proof (cases "create_ok e")
  case True
  have z: "ld_bytes (zero_ram (ce_ram e) (mem m)) (ce_ram e) (unat RAM_SIZE) = replicate (unat RAM_SIZE) NUL"
  proof (rule nth_equalityI)
    fix i assume "i < length (ld_bytes (zero_ram (ce_ram e) (mem m)) (ce_ram e) (unat RAM_SIZE))"
    then have i: "i < unat RAM_SIZE" by simp
    then have "unat (of_nat i :: u64) = i" by (intro unat64) (simp add: cconst)
    then show "ld_bytes (zero_ram (ce_ram e) (mem m)) (ce_ram e) (unat RAM_SIZE) ! i =
        replicate (unat RAM_SIZE) NUL ! i"
      using i by (simp add: ld_bytes_nth zero_ram_def)
  qed simp
  note ok = True [unfolded create_ok_def]
  have st: "logstore_open True True = Some \<lparr>ls_buf = [], ls_disk = [], ls_lock = None\<rparr>"
    by (simp add: logstore_open_def)
  have f: "fst (vmm_create e trace path m) = 0"
    "v_uc (vm (snd (vmm_create e trace path m))) = Some \<lparr>uc_maps = [(RAM_BASE, RAM_SIZE, Ram (ce_ram e)),
       (SERIAL_BASE, SERIAL_SIZE, Serial_mmio), (DEV_BASE, DEV_SIZE, Device_mmio)], uc_rip = 0,
       uc_rsp = BOOTINFO_BASE - 16, uc_rdi = BOOTINFO_BASE, uc_fault_hook = True, uc_trace_hook = trace,
       uc_stopped = False\<rparr>"
    "v_ram (vm (snd (vmm_create e trace path m))) = ce_ram e"
    "mem (snd (vmm_create e trace path m)) = zero_ram (ce_ram e) (mem m)"
    "v_dev (vm (snd (vmm_create e trace path m))) = Some vlog_device_init"
    "v_store (vm (snd (vmm_create e trace path m))) = Some \<lparr>ls_buf = [], ls_disk = [], ls_lock = None\<rparr>"
    "\<not> v_powered_off (vm (snd (vmm_create e trace path m)))"
    "\<not> v_faulted (vm (snd (vmm_create e trace path m)))"
    using ok st by (cases trace; simp add: vmm_create_def uc_map_def upd_uc_def uc_fresh_def Let_def vmm_zero_def upd_dev_def)+
  show ?thesis
    unfolding Let_def f z by (simp add: True ls_contents_def f(7,8))
next
  case False
  then have "fst (vmm_create e trace path m) = - 1"
    by (cases "ce_store_alloc e"; cases "ce_store_fopen e"; cases "ce_uc_err e"; cases "ce_ram e = 0";
        cases "ce_map_ram e"; cases "ce_map_serial e"; cases "ce_dev_alloc e"; cases "ce_map_dev e")
      (simp_all add: create_ok_def vmm_create_def logstore_open_def Let_def)
  with False show ?thesis by simp
qed

end
