(* ===== verification/Netlog.thy ===== *)
theory Netlog
  imports Logstore "HOL-Library.Multiset"
begin

text \<open>
  \<^verbatim>\<open>project_1/emulator/netlog.c\<close>: the TCP listener that turns lines \<open><level> <message>\<close> into
  records of the shared log store.  A connection's line buffer is an array of
  \<^verbatim>\<open>NL_LINE_MAX\<close> bytes of which the first \<^verbatim>\<open>len\<close> are kept in \<open>c_buf\<close>; a store outside the
  array is \<open>Inl OutOfBounds\<close>.  One turn of the poll loop takes what \<^verbatim>\<open>poll\<close>, \<^verbatim>\<open>accept\<close> and
  \<^verbatim>\<open>read\<close> return as an argument.
\<close>

section \<open>Lines and connections\<close>

definition NL_LINE_MAX :: nat where "NL_LINE_MAX = 4200"
definition NL_MAX_CONN :: nat where "NL_MAX_CONN = 64"

record netlog =
  nl_store :: logstore
  nl_seq :: u32

record conn =
  c_fd :: nat
  c_buf :: "byte list"

definition process_line :: "netlog \<Rightarrow> byte list \<Rightarrow> netlog" where
  "process_line nl buf =
     (let line = cstr buf;
          (level, msg) = (case split_at SP line of
             Some (a, b) \<Rightarrow> (ucast (strtoul a) :: u32, b)
           | None \<Rightarrow> (ucast (strtoul line), []))
      in nl\<lparr>nl_store := logstore_append (nl_store nl) (nl_seq nl) level msg, nl_seq := nl_seq nl + 1\<rparr>)"

text \<open>\<open>c->buf[c->len] = '\0'\<close> and \<open>c->buf[c->len++] = ch\<close>.\<close>

definition terminate_line :: "conn \<Rightarrow> ub + byte list" where
  "terminate_line c = (if length (c_buf c) < NL_LINE_MAX then Inr (c_buf c) else Inl OutOfBounds)"

definition put_byte :: "byte \<Rightarrow> conn \<Rightarrow> ub + conn" where
  "put_byte ch c = (if length (c_buf c) < NL_LINE_MAX then Inr (c\<lparr>c_buf := c_buf c @ [ch]\<rparr>) else Inl OutOfBounds)"

definition feed_byte :: "byte \<Rightarrow> netlog \<times> conn \<Rightarrow> ub + (netlog \<times> conn)" where
  "feed_byte ch s = (case s of (nl, c) \<Rightarrow>
     if ch = NL then
       bind_ub (terminate_line c) (\<lambda>line. Inr (process_line nl line, c\<lparr>c_buf := []\<rparr>))
     else if length (c_buf c) < NL_LINE_MAX - 1 then
       bind_ub (put_byte ch c) (\<lambda>c'. Inr (nl, c'))
     else
       bind_ub (terminate_line c) (\<lambda>line.
         bind_ub (put_byte ch (c\<lparr>c_buf := []\<rparr>)) (\<lambda>c'. Inr (process_line nl line, c'))))"

fun feed :: "byte list \<Rightarrow> netlog \<times> conn \<Rightarrow> ub + (netlog \<times> conn)" where
  "feed [] s = Inr s"
| "feed (ch # data) s = bind_ub (feed_byte ch s) (feed data)"

section \<open>The poll loop\<close>

text \<open>
  \<open>r_revents\<close> is what \<^verbatim>\<open>poll\<close> reports for the entries it was given (readable, and any of
  \<^verbatim>\<open>POLLHUP\<close>, \<^verbatim>\<open>POLLERR\<close>, \<^verbatim>\<open>POLLNVAL\<close>); \<open>r_read\<close> what \<^verbatim>\<open>read\<close> returns on each descriptor
  (\<open>None\<close> an error, \<open>Some []\<close> the end of the stream, at most 2048 bytes).  The array \<open>pfds\<close>
  is not initialised; \<open>l_pfds\<close> are its \<^verbatim>\<open>revents\<close>, which survive from one turn to the next.
\<close>

type_synonym revents = "bool \<times> bool"

record turn =
  t_poll :: int
  t_eintr :: bool
  t_stop :: bool
  t_revents :: "nat \<Rightarrow> revents"
  t_accept :: int
  t_read :: "nat \<Rightarrow> byte list option"

record listener =
  l_nl :: netlog
  l_conns :: "conn list"
  l_pfds :: "revents list"
  l_closed :: "nat list"

definition accept_conn :: "turn \<Rightarrow> listener \<Rightarrow> listener" where
  "accept_conn t l =
     (if \<not> fst (l_pfds l ! 0) then l
      else if t_accept t < 0 then l
      else if length (l_conns l) < NL_MAX_CONN then
        l\<lparr>l_conns := l_conns l @ [\<lparr>c_fd = nat (t_accept t), c_buf = []\<rparr>]\<rparr>
      else l\<lparr>l_closed := l_closed l @ [nat (t_accept t)]\<rparr>)"

fun service :: "turn \<Rightarrow> revents list \<Rightarrow> conn list \<Rightarrow> netlog \<Rightarrow> ub + (netlog \<times> conn list \<times> nat list)" where
  "service t (re # res) (c # cs) nl =
     bind_ub
       (if fst re then
          (case t_read t (c_fd c) of
             None \<Rightarrow> Inr (nl, c, True)
           | Some [] \<Rightarrow> Inr (nl, c, True)
           | Some tmp \<Rightarrow> bind_ub (feed (take 2048 tmp) (nl, c)) (\<lambda>(nl, c). Inr (nl, c, False)))
        else Inr (nl, c, False))
       (\<lambda>(nl1, c1, drop).
          bind_ub (service t res cs nl1) (\<lambda>(nl2, keep, closed).
            Inr (if drop \<or> snd re then (nl2, keep, c_fd c1 # closed) else (nl2, c1 # keep, closed))))"
| "service t res [] nl = Inr (nl, [], [])"
| "service t [] (c # cs) nl = Inl OutOfBounds"

text \<open>One turn: whether the loop goes on, and the new state.\<close>

definition listener_turn :: "turn \<Rightarrow> listener \<Rightarrow> ub + (bool \<times> listener)" where
  "listener_turn t l =
     (let nc = length (l_conns l) in
      if t_poll t < 0 then
        Inr (t_eintr t, l\<lparr>l_pfds := replicate (nc + 1) (False, False) @ drop (nc + 1) (l_pfds l)\<rparr>)
      else let l1 = l\<lparr>l_pfds := map (t_revents t) [0..<nc + 1] @ drop (nc + 1) (l_pfds l)\<rparr> in
      if t_stop t then Inr (False, l1)
      else let l2 = accept_conn t l1 in
        bind_ub (service t (tl (l_pfds l2)) (l_conns l2) (l_nl l2)) (\<lambda>(nl, keep, closed).
          Inr (True, l2\<lparr>l_nl := nl, l_conns := keep, l_closed := l_closed l2 @ closed\<rparr>)))"

text \<open>The thread: turns until the loop is left, then every descriptor is closed.\<close>

fun listener_loop :: "turn list \<Rightarrow> listener \<Rightarrow> ub + (bool \<times> listener)" where
  "listener_loop [] l = Inr (True, l)"
| "listener_loop (t # ts) l =
     bind_ub (listener_turn t l) (\<lambda>(go, l'). if go then listener_loop ts l' else Inr (False, l'))"

definition listener_exit :: "listener \<Rightarrow> listener" where
  "listener_exit l = l\<lparr>l_conns := [], l_closed := l_closed l @ map c_fd (l_conns l)\<rparr>"

section \<open>Starting and stopping\<close>

text \<open>The results of the calls of \<^verbatim>\<open>netlog_start\<close>, and the descriptor it leaves open.\<close>

record start_env =
  se_calloc :: bool
  se_socket :: int
  se_bind :: bool
  se_listen :: bool
  se_pthread :: bool
  se_pfds :: "revents list"

definition netlog_start :: "start_env \<Rightarrow> logstore \<Rightarrow> (int \<times> listener) option \<times> int list" where
  "netlog_start e store =
     (if \<not> se_calloc e then (None, [])
      else if se_socket e < 0 then (None, [])
      else if \<not> se_bind e \<or> \<not> se_listen e then (None, [])
      else if \<not> se_pthread e then (None, [])
      else (Some (se_socket e, \<lparr>l_nl = \<lparr>nl_store = store, nl_seq = 0\<rparr>, l_conns = [], l_pfds = se_pfds e,
              l_closed = []\<rparr>), [se_socket e]))"

text \<open>\<^verbatim>\<open>netlog_stop\<close> joins the thread, which closes its connections, before it closes the listen
  descriptor.\<close>

definition netlog_stop :: "int \<Rightarrow> listener \<Rightarrow> listener" where
  "netlog_stop lfd l = (let l' = listener_exit l in l'\<lparr>l_closed := l_closed l' @ [nat lfd]\<rparr>)"

section \<open>The line buffer\<close>

definition conn_ok :: "conn \<Rightarrow> bool" where
  "conn_ok c = (length (c_buf c) < NL_LINE_MAX)"

lemma nl_consts: "NL_LINE_MAX = 4200" "NL_LINE_MAX - 1 = 4199"
  by (simp_all add: NL_LINE_MAX_def)

lemma feed_byte_ok:
  assumes "conn_ok c"
  shows "\<exists>nl' c'. feed_byte ch (nl, c) = Inr (nl', c') \<and> conn_ok c' \<and> c_fd c' = c_fd c"
  using assms by (simp add: conn_ok_def feed_byte_def terminate_line_def put_byte_def nl_consts)

lemma feed_ok: "conn_ok c \<Longrightarrow> \<exists>nl' c'. feed data (nl, c) = Inr (nl', c') \<and> conn_ok c' \<and> c_fd c' = c_fd c"
proof (induction data arbitrary: nl c)
  case (Cons ch data)
  then show ?case using feed_byte_ok [OF Cons.prems, of ch nl] by (fastforce simp: bind_ub_def)
qed simp

lemma feed_append: "feed (a @ b) s = bind_ub (feed a s) (feed b)"
proof (induction a arbitrary: s)
  case (Cons ch a)
  then have "feed (a @ b) = (\<lambda>s. bind_ub (feed a s) (feed b))" by blast
  then show ?case by (simp add: bind_ub_assoc)
qed simp

text \<open>What a complete line becomes, and the records a line sequence becomes.\<close>

definition line_record :: "byte list \<Rightarrow> u32 \<times> byte list" where
  "line_record buf = (case split_at SP (cstr buf) of
      Some (a, b) \<Rightarrow> (ucast (strtoul a), b) | None \<Rightarrow> (ucast (strtoul (cstr buf)), []))"

fun number_calls :: "u32 \<Rightarrow> (u32 \<times> byte list) list \<Rightarrow> rec_call list" where
  "number_calls n [] = []"
| "number_calls n ((level, msg) # rs) = (n, level, msg) # number_calls (n + 1) rs"

lemma number_calls_append: "number_calls n (rs @ rs') = number_calls n rs @ number_calls (n + of_nat (length rs)) rs'"
  by (induction n rs rule: number_calls.induct) (auto simp: algebra_simps)

lemma process_line_record:
  "process_line nl buf = nl\<lparr>nl_store := logstore_append (nl_store nl) (nl_seq nl) (fst (line_record buf)) (snd (line_record buf)),
     nl_seq := nl_seq nl + 1\<rparr>"
  by (simp add: process_line_def line_record_def Let_def split: option.split prod.split)

text \<open>What a listener has done with the lines it has seen: the abstraction of its state.\<close>

definition nl_logged :: "netlog \<Rightarrow> byte list \<Rightarrow> (u32 \<times> byte list) list \<Rightarrow> bool" where
  "nl_logged nl base rs = (ls_contents (nl_store nl) = base @ concat (map fmt_call (number_calls 0 rs)) \<and>
     nl_seq nl = of_nat (length rs))"

lemma process_line_logged:
  assumes "nl_logged nl base rs"
  shows "nl_logged (process_line nl buf) base (rs @ [line_record buf])"
proof -
  obtain lv msg where r: "line_record buf = (lv, msg)" by (cases "line_record buf")
  show ?thesis using assms
    by (simp add: nl_logged_def process_line_record r ls.append_contents number_calls_append)
qed

text \<open>The lines of a byte stream (complete ones, and the unterminated rest), for producers whose
  lines fit the buffer.\<close>

fun split_lines :: "byte list \<Rightarrow> byte list \<Rightarrow> byte list list \<times> byte list" where
  "split_lines acc [] = ([], acc)"
| "split_lines acc (c # cs) =
     (if c = NL then (case split_lines [] cs of (ls, r) \<Rightarrow> (acc # ls, r)) else split_lines (acc @ [c]) cs)"

definition fits :: "byte list \<Rightarrow> bool" where
  "fits line = (length line < NL_LINE_MAX)"

lemma split_lines_rest: "split_lines acc s = (ls, r) \<Longrightarrow> ls = [] \<Longrightarrow> length acc \<le> length r"
proof (induction acc s arbitrary: ls r rule: split_lines.induct)
  case (2 acc c cs)
  then show ?case by (auto split: if_splits prod.splits)
qed simp

lemma split_lines_first:
  assumes "split_lines acc s = (ls, r)"
  shows "case ls of [] \<Rightarrow> length acc \<le> length r | l # _ \<Rightarrow> length acc \<le> length l"
  using assms
proof (induction acc s arbitrary: ls r rule: split_lines.induct)
  case (2 acc c cs)
  then show ?case by (fastforce split: if_splits prod.splits list.splits)
qed simp

lemma feed_lines:
  assumes "split_lines (c_buf c) data = (ls, r)" and "list_all fits ls" and "fits r"
    and "nl_logged nl base rs"
  shows "\<exists>nl'. feed data (nl, c) = Inr (nl', c\<lparr>c_buf := r\<rparr>) \<and> nl_logged nl' base (rs @ map line_record ls)"
  using assms
proof (induction data arbitrary: nl c rs ls)
  case Nil
  then show ?case by auto
next
  case (Cons ch data)
  show ?case
  proof (cases "ch = NL")
    case True
    with Cons.prems(1) obtain ls' where sp: "split_lines [] data = (ls', r)" and ls: "ls = c_buf c # ls'"
      by (auto split: prod.splits)
    have ok: "length (c_buf c) < NL_LINE_MAX" using Cons.prems(2) ls by (simp add: fits_def)
    obtain nl' where "feed data (process_line nl (c_buf c), c\<lparr>c_buf := []\<rparr>) = Inr (nl', c\<lparr>c_buf := r\<rparr>)"
      "nl_logged nl' base ((rs @ [line_record (c_buf c)]) @ map line_record ls')"
      using Cons.IH [where c = "c\<lparr>c_buf := []\<rparr>", OF _ _ Cons.prems(3) process_line_logged [OF Cons.prems(4)]] sp ls Cons.prems(2)
      by auto
    then show ?thesis using ok True ls by (simp add: feed_byte_def terminate_line_def)
  next
    case False
    with Cons.prems(1) have sp: "split_lines (c_buf c @ [ch]) data = (ls, r)" by simp
    have "length (c_buf c @ [ch]) < NL_LINE_MAX"
      using split_lines_first [OF sp] Cons.prems(2,3) by (cases ls) (auto simp: fits_def)
    then have room: "length (c_buf c) < NL_LINE_MAX - 1" "length (c_buf c) < NL_LINE_MAX" by simp_all
    obtain nl' where "feed data (nl, c\<lparr>c_buf := c_buf c @ [ch]\<rparr>) = Inr (nl', c\<lparr>c_buf := r\<rparr>)"
      "nl_logged nl' base (rs @ map line_record ls)"
      using Cons.IH [where c = "c\<lparr>c_buf := c_buf c @ [ch]\<rparr>", OF _ Cons.prems(2,3,4)] sp by auto
    then show ?thesis using room False by (simp add: feed_byte_def put_byte_def)
  qed
qed

section \<open>The connection table\<close>

definition listener_ok :: "listener \<Rightarrow> bool" where
  "listener_ok l = (length (l_conns l) \<le> NL_MAX_CONN \<and> length (l_pfds l) = NL_MAX_CONN + 1 \<and>
     list_all conn_ok (l_conns l))"

text \<open>The descriptors the listener owns or has closed, as a multiset.\<close>

definition fds :: "listener \<Rightarrow> nat multiset" where
  "fds l = mset (map c_fd (l_conns l)) + mset (l_closed l)"

lemma service_ok:
  assumes "list_all conn_ok cs" and "length cs \<le> length res"
  shows "\<exists>nl' keep closed. service t res cs nl = Inr (nl', keep, closed) \<and> list_all conn_ok keep \<and>
    length keep \<le> length cs \<and> mset (map c_fd keep) + mset closed = mset (map c_fd cs)"
  using assms
proof (induction t res cs nl rule: service.induct)
  case (1 t re res c cs nl)
  let ?head = "if fst re then
          (case t_read t (c_fd c) of
             None \<Rightarrow> Inr (nl, c, True)
           | Some [] \<Rightarrow> Inr (nl, c, True)
           | Some tmp \<Rightarrow> bind_ub (feed (take 2048 tmp) (nl, c)) (\<lambda>(nl, c). Inr (nl, c, False)))
        else Inr (nl, c, False)"
  have "\<exists>nl1 c1 d. ?head = Inr (nl1, c1, d) \<and> conn_ok c1 \<and> c_fd c1 = c_fd c"
  proof (cases "fst re \<and> (\<exists>b tmp. t_read t (c_fd c) = Some (b # tmp))")
    case True
    then obtain b tmp where b: "fst re" "t_read t (c_fd c) = Some (b # tmp)" by auto
    obtain nl' c' where "feed (take 2048 (b # tmp)) (nl, c) = Inr (nl', c')" "conn_ok c'" "c_fd c' = c_fd c"
      using feed_ok [of c "take 2048 (b # tmp)" nl] 1(2) by auto
    with b show ?thesis by (intro exI [of _ nl'] exI [of _ c'] exI [of _ False]) simp
  next
    case False
    then show ?thesis using 1(2) by (auto split: option.split list.split)
  qed
  then obtain nl1 c1 d where h: "?head = Inr (nl1, c1, d)" "conn_ok c1" "c_fd c1 = c_fd c" by blast
  obtain nl' keep closed where s: "service t res cs nl1 = Inr (nl', keep, closed)" "list_all conn_ok keep"
    "length keep \<le> length cs" "mset (map c_fd keep) + mset closed = mset (map c_fd cs)"
    using 1(1) [where x = nl1] 1(2,3) by auto
  show ?case
    unfolding service.simps h(1) using s h(2,3) by (cases "d \<or> snd re") auto
next
  case (2 t res nl)
  then show ?case by simp
next
  case (3 t c cs nl)
  then show ?case by simp
qed


fun goes_on :: "turn \<Rightarrow> bool" where
  "goes_on t = (if t_poll t < 0 then t_eintr t else \<not> t_stop t)"

definition accepted_fd :: "turn \<Rightarrow> nat multiset" where
  "accepted_fd t = (if 0 \<le> t_poll t \<and> \<not> t_stop t \<and> fst (t_revents t 0) \<and> 0 \<le> t_accept t
     then {#nat (t_accept t)#} else {#})"

fun accepted_fds :: "turn list \<Rightarrow> nat multiset" where
  "accepted_fds [] = {#}"
| "accepted_fds (t # ts) = accepted_fd t + (if goes_on t then accepted_fds ts else {#})"

lemma listener_turn_ok:
  assumes "listener_ok l"
  shows "\<exists>l'. listener_turn t l = Inr (goes_on t, l') \<and> listener_ok l' \<and> fds l' = fds l + accepted_fd t"
proof (cases "t_poll t < 0 \<or> t_stop t")
  case True
  then show ?thesis using assms
    by (auto simp: listener_turn_def listener_ok_def fds_def accepted_fd_def Let_def)
next
  case False
  let ?nc = "length (l_conns l)"
  let ?l1 = "l\<lparr>l_pfds := map (t_revents t) [0..<?nc + 1] @ drop (?nc + 1) (l_pfds l)\<rparr>"
  let ?l2 = "accept_conn t ?l1"
  have nc: "?nc \<le> NL_MAX_CONN" using assms by (simp add: listener_ok_def)
  have p0: "l_pfds ?l1 ! 0 = t_revents t 0"
    by (simp add: nth_append del: upt_Suc)
  have len: "length (l_pfds ?l2) = NL_MAX_CONN + 1"
    using assms nc by (simp add: accept_conn_def listener_ok_def del: upt_Suc)
  have ok: "list_all conn_ok (l_conns ?l2)" "length (l_conns ?l2) \<le> NL_MAX_CONN"
    using assms by (auto simp: accept_conn_def listener_ok_def conn_ok_def nl_consts)
  have fds2: "fds ?l2 = fds l + accepted_fd t"
    using False p0 by (simp add: accept_conn_def fds_def accepted_fd_def del: upt_Suc)
  obtain nl' keep closed where s: "service t (tl (l_pfds ?l2)) (l_conns ?l2) (l_nl ?l2) = Inr (nl', keep, closed)"
    "list_all conn_ok keep" "length keep \<le> length (l_conns ?l2)"
    "mset (map c_fd keep) + mset closed = mset (map c_fd (l_conns ?l2))"
    using service_ok [OF ok(1), of "tl (l_pfds ?l2)" t "l_nl ?l2"] ok(2) len by auto
  let ?l' = "?l2\<lparr>l_nl := nl', l_conns := keep, l_closed := l_closed ?l2 @ closed\<rparr>"
  have "listener_turn t l = Inr (True, ?l')"
    using False s(1) by (simp add: listener_turn_def Let_def del: upt_Suc)
  moreover have "listener_ok ?l'" using s(2,3) ok(2) len by (simp add: listener_ok_def)
  moreover have "fds ?l' = fds ?l2" using s(4) by (simp add: fds_def ac_simps flip: s(4))
  ultimately show ?thesis using False fds2 by auto
qed

lemma listener_loop_ok:
  assumes "listener_ok l"
  shows "\<exists>go l'. listener_loop ts l = Inr (go, l') \<and> listener_ok l' \<and> fds l' = fds l + accepted_fds ts"
  using assms
proof (induction ts arbitrary: l)
  case (Cons t ts)
  obtain l1 where l1: "listener_turn t l = Inr (goes_on t, l1)" "listener_ok l1" "fds l1 = fds l + accepted_fd t"
    using listener_turn_ok [OF Cons.prems] by blast
  show ?case
  proof (cases "goes_on t")
    case True
    then show ?thesis using Cons.IH [OF l1(2)] l1 by (auto simp del: goes_on.simps simp: ac_simps)
  next
    case False
    then show ?thesis using l1 by (auto simp del: goes_on.simps)
  qed
qed auto

text \<open>Feeding a stream in the pieces that \<^verbatim>\<open>read\<close> happens to deliver.\<close>

fun feed_chunks :: "byte list list \<Rightarrow> netlog \<times> conn \<Rightarrow> ub + (netlog \<times> conn)" where
  "feed_chunks [] s = Inr s"
| "feed_chunks (d # ds) s = bind_ub (feed d s) (feed_chunks ds)"

lemma feed_chunks_concat: "feed_chunks ds s = feed (concat ds) s"
proof (induction ds arbitrary: s)
  case (Cons d ds)
  then have "feed_chunks ds = feed (concat ds)" by blast
  then show ?case by (simp add: feed_append)
qed simp

section \<open>Properties of the listener\<close>

definition demo_listener :: listener where
  "demo_listener = \<lparr>l_nl = \<lparr>nl_store = \<lparr>ls_buf = [], ls_disk = [], ls_lock = None\<rparr>, nl_seq = 0\<rparr>,
     l_conns = [], l_pfds = replicate (NL_MAX_CONN + 1) (False, False), l_closed = []\<rparr>"

definition demo_turn :: turn where
  "demo_turn = \<lparr>t_poll = 1, t_eintr = False, t_stop = False, t_revents = (\<lambda>i. (i = 0, False)),
     t_accept = 7, t_read = (\<lambda>_. None)\<rparr>"



text \<open>C17: The listener never writes outside a line buffer or its poll table, never holds more
  than 64 connections, and has closed every descriptor it accepted exactly once when it exits.\<close>

theorem listener_safe:
  assumes "listener_ok l" and "l_conns l = []" and "l_closed l = []"
  shows "\<exists>go l'. listener_loop ts l = Inr (go, l') \<and> length (l_conns l') \<le> 64 \<and>
    list_all conn_ok (l_conns l') \<and> mset (l_closed (listener_exit l')) = accepted_fds ts"
proof -
  obtain go l' where l': "listener_loop ts l = Inr (go, l')" "listener_ok l'" "fds l' = fds l + accepted_fds ts"
    using listener_loop_ok [OF assms(1)] by blast
  have "mset (l_closed (listener_exit l')) = fds l'" by (simp add: listener_exit_def fds_def)
  with l' assms show ?thesis by (auto simp: listener_ok_def NL_MAX_CONN_def fds_def)
qed

theorem listener_safe_witness:
  "\<exists>go l'. listener_loop [demo_turn] demo_listener = Inr (go, l') \<and>
     mset (l_closed (listener_exit l')) = {#7#}"
proof -
  have "listener_ok demo_listener" "l_conns demo_listener = []" "l_closed demo_listener = []"
    by (simp_all add: listener_ok_def demo_listener_def)
  from listener_safe [OF this, of "[demo_turn]"] show ?thesis
    by (auto simp: demo_turn_def accepted_fd_def)
qed

text \<open>A connection is serviced in the turn that accepts it, with the \<^verbatim>\<open>revents\<close> its slot of
  the poll table happened to hold: left-over error bits close it although \<^verbatim>\<open>poll\<close> never
  reported on it.\<close>

theorem stale_revents_drop:
  assumes "listener_ok l" and "length (l_conns l) < NL_MAX_CONN" and "0 \<le> t_poll t" and "\<not> t_stop t"
    and "t_revents t = (\<lambda>i. (i = 0, False))" and "0 \<le> t_accept t"
    and "l_pfds l ! (length (l_conns l) + 1) = (False, True)"
  shows "\<exists>l'. listener_turn t l = Inr (True, l') \<and> l_conns l' = l_conns l \<and>
    l_closed l' = l_closed l @ [nat (t_accept t)]"
proof -
  let ?nc = "length (l_conns l)"
  have srv: "service t (replicate (length cs) (False, False) @ (False, True) # res) (cs @ [c]) nl =
      Inr (nl, cs, [c_fd c])" for cs c res nl
    by (induction cs) simp_all
  have len: "?nc + 1 < length (l_pfds l)" using assms(1,2) by (simp add: listener_ok_def)
  have d: "drop (?nc + 1) (l_pfds l) = (False, True) # drop (?nc + 2) (l_pfds l)"
    using Cons_nth_drop_Suc [OF len] assms(7) by simp
  have m: "map (t_revents t) [0..<?nc + 1] = (True, False) # replicate ?nc (False, False)"
    by (rule nth_equalityI) (auto simp: assms(5) nth_Cons simp del: upt_Suc split: nat.split)
  show ?thesis
    using assms(2,3,4,6) unfolding listener_turn_def Let_def m d
    by (simp add: accept_conn_def srv)
qed

theorem stale_revents_drop_witness:
  "\<exists>l'. listener_turn demo_turn (demo_listener\<lparr>l_pfds := replicate 65 (False, True)\<rparr>) = Inr (True, l') \<and>
     l_conns l' = [] \<and> l_closed l' = [7]"
  using stale_revents_drop [of "demo_listener\<lparr>l_pfds := replicate 65 (False, True)\<rparr>" demo_turn]
  by (simp add: listener_ok_def demo_listener_def demo_turn_def NL_MAX_CONN_def)

end
