(* ===== verification/Emulator.thy ===== *)
theory Emulator
  imports Vmm Netlog
begin

text \<open>
  \<^verbatim>\<open>project_1/emulator/main.c\<close>: the emulator's entry point.  \<open>parse_args\<close> is the option loop,
  \<open>emulator_main\<close> everything after it.  The results of the library and system calls and the
  callbacks of the guest are collected in \<open>run_env\<close>; the guest's own appends and those of the
  network listener go to one store, so a run with \<^verbatim>\<open>--listen\<close> names the records the listener
  adds while the guest runs (\<open>re_net\<close>, appended after the guest's callbacks: \<open>Logstore_Conc\<close>
  treats the interleaving).
\<close>

section \<open>Options\<close>

record options =
  o_bin :: "string option"
  o_log :: string
  o_boot :: "string option"
  o_trace :: bool
  o_port :: int

definition default_options :: options where
  "default_options = \<lparr>o_bin = None, o_log = ''vlog.log'', o_boot = None, o_trace = False, o_port = 0\<rparr>"

text \<open>An option without its argument ends the program with status 2 and a message.\<close>

fun parse_args :: "string list \<Rightarrow> options \<Rightarrow> string + options" where
  "parse_args [] opt = Inr opt"
| "parse_args (a # as) opt =
     (if a = ''--trace'' then parse_args as (opt\<lparr>o_trace := True\<rparr>)
      else if a = ''--log'' then
        (case as of [] \<Rightarrow> Inl ''--log requires a path'' | p # as' \<Rightarrow> parse_args as' (opt\<lparr>o_log := p\<rparr>))
      else if a = ''--bootinfo'' then
        (case as of [] \<Rightarrow> Inl ''--bootinfo requires a path'' | p # as' \<Rightarrow> parse_args as' (opt\<lparr>o_boot := Some p\<rparr>))
      else if a = ''--listen'' then
        (case as of [] \<Rightarrow> Inl ''--listen requires a port'' | p # as' \<Rightarrow> parse_args as' (opt\<lparr>o_port := atoi p\<rparr>))
      else parse_args as (opt\<lparr>o_bin := Some a\<rparr>))"

section \<open>The program\<close>

text \<open>While the guest runs, the CPU thread and the listener thread take turns.\<close>

datatype sched = Cpu uc_event | Net turn

text \<open>The listener of a running emulator appends to the VMM's store; the flag says whether its
  loop is still running.\<close>

definition net_turn :: "turn \<Rightarrow> machine \<Rightarrow> listener \<Rightarrow> ub + (machine \<times> bool \<times> listener)" where
  "net_turn t m l =
     (case v_store (vm m) of
        None \<Rightarrow> Inl NullDeref
      | Some ls \<Rightarrow>
          bind_ub (listener_turn t (l\<lparr>l_nl := (l_nl l)\<lparr>nl_store := ls\<rparr>\<rparr>)) (\<lambda>(go, l').
            Inr (upd_store (nl_store (l_nl l')) m, go, l')))"

fun emu_sched :: "sched list \<Rightarrow> machine \<times> (bool \<times> listener) option \<Rightarrow> ub + (machine \<times> (bool \<times> listener) option)" where
  "emu_sched [] s = Inr s"
| "emu_sched (Cpu e # es) (m, l) =
     (if cpu_stopped m then emu_sched es (m, l) else bind_ub (uc_callback e m) (\<lambda>m'. emu_sched es (m', l)))"
| "emu_sched (Net t # es) (m, l) =
     (case l of
        None \<Rightarrow> emu_sched es (m, l)
      | Some (go, ln) \<Rightarrow>
          if go then bind_ub (net_turn t m ln) (\<lambda>(m', l'). emu_sched es (m', Some l'))
          else emu_sched es (m, l))"

text \<open>What the environment does in one execution of the program.\<close>

record run_env =
  re_create :: create_env
  re_bin :: load_env
  re_boot :: "byte list option \<times> int \<times> nat"
  re_net :: start_env
  re_sched :: "sched list"
  re_err_ok :: bool
  re_turns :: "turn list"
  re_store :: "bool \<times> bool"

definition say :: "string \<Rightarrow> machine \<Rightarrow> machine" where
  "say s m = m\<lparr>errout := errout m @ s @ [NL]\<rparr>"

definition quoted :: "string \<Rightarrow> string" where
  "quoted s = [CHR 0x27] @ s @ [CHR 0x27]"

text \<open>Collector mode: the store and the listener, until a signal arrives.\<close>

definition collector :: "run_env \<Rightarrow> options \<Rightarrow> machine \<Rightarrow> ub + (int \<times> machine)" where
  "collector e opt m =
     (case logstore_open (fst (re_store e)) (snd (re_store e)) of
        None \<Rightarrow> Inr (1, say (''cannot open log '' @ quoted (o_log opt)) m)
      | Some ls \<Rightarrow>
          (case fst (netlog_start (re_net e) ls) of
             None \<Rightarrow> Inr (1, (say (''netlog_start failed on port '' @ dec_int (o_port opt)) m)
                        \<lparr>log_file := logstore_close (Some ls)\<rparr>)
           | Some (lfd, l) \<Rightarrow>
               bind_ub (listener_loop (re_turns e) l) (\<lambda>(go, l').
                 Inr (0, (say (''collector: listening on :'' @ dec_int (o_port opt) @ '' -> '' @ o_log opt @
                        '' (Ctrl-C to stop)'') m)\<lparr>log_file := logstore_close (Some (nl_store (l_nl l')))\<rparr>))))"

text \<open>Creating the machine and loading the guest; a failure ends the program with status 1.\<close>

definition boot :: "run_env \<Rightarrow> options \<Rightarrow> string \<Rightarrow> machine \<Rightarrow> int \<times> machine" where
  "boot e opt bin m =
     (case vmm_create (re_create e) (o_trace opt) (o_log opt) m of
        (rc, m1) \<Rightarrow>
          if rc \<noteq> 0 then (1, say ''vmm_create failed'' m1)
          else case vmm_load_binary (re_bin e) m1 of
            (rc, m2) \<Rightarrow>
              if rc \<noteq> 0 then (1, vmm_destroy (say (''failed to load '' @ bin) m2))
              else case o_boot opt of
                None \<Rightarrow> (0, m2)
              | Some path \<Rightarrow>
                  (case vmm_load_bootinfo (fst (re_boot e)) (fst (snd (re_boot e))) (snd (snd (re_boot e))) m2 of
                     (rc, m3) \<Rightarrow>
                       if rc \<noteq> 0 then (1, vmm_destroy (say (''failed to load bootinfo '' @ path) m3))
                       else (0, m3)))"

definition start_listener :: "run_env \<Rightarrow> options \<Rightarrow> machine \<Rightarrow> machine \<times> (bool \<times> listener) option" where
  "start_listener e opt m =
     (if o_port opt > 0 then
        (case v_store (vm m) of
           None \<Rightarrow> (m, None)
         | Some ls \<Rightarrow>
             (case fst (netlog_start (re_net e) ls) of
                None \<Rightarrow> (say (''warning: netlog_start failed on port '' @ dec_int (o_port opt) @
                          '' (continuing without network ingest)'') m, None)
              | Some (lfd, l) \<Rightarrow> (m, Some (True, l))))
      else (m, None))"

definition emulator_main :: "run_env \<Rightarrow> string \<Rightarrow> string list \<Rightarrow> machine \<Rightarrow> ub + (int \<times> machine)" where
  "emulator_main e argv0 args m =
     (case parse_args args default_options of
        Inl msg \<Rightarrow> Inr (2, say msg m)
      | Inr opt \<Rightarrow>
          (case o_bin opt of
             None \<Rightarrow>
               if o_port opt > 0 then collector e opt m
               else Inr (2, say (''usage: '' @ argv0 @ '' [--trace] [--log <path>] [--bootinfo <path>]'' @
                               '' [--listen <port>] <guest.bin>'') m)
           | Some bin \<Rightarrow>
               (case boot e opt bin m of
                  (rc, m1) \<Rightarrow>
                    if rc \<noteq> 0 then Inr (rc, m1)
                    else case start_listener e opt m1 of
                      (m2, l) \<Rightarrow>
                        bind_ub (emu_sched (re_sched e) (emu_start m2, l)) (\<lambda>(m3, l').
                          Inr (run_status (re_err_ok e) m3, vmm_destroy m3)))))"

section \<open>The log of a run\<close>

text \<open>The records a guest's callbacks log, until the CPU stops.\<close>

fun guest_logged :: "uc_event list \<Rightarrow> machine \<Rightarrow> (u32 \<times> byte list) list" where
  "guest_logged [] m = []"
| "guest_logged (e # es) m =
     (if cpu_stopped m then []
      else (case e of Dev_write offset val \<Rightarrow> log_effect offset val m | _ \<Rightarrow> []) @
        (case uc_callback e m of Inl _ \<Rightarrow> [] | Inr m' \<Rightarrow> guest_logged es m'))"

lemma dev_abs_cong: "v_dev (vm m') = v_dev (vm m) \<Longrightarrow> v_store (vm m') = v_store (vm m) \<Longrightarrow> dev_abs m' rs = dev_abs m rs"
  by (simp add: dev_abs_def)

lemma uc_callback_abs:
  assumes "dev_abs m rs" and "uc_callback e m = Inr m'"
  shows "dev_abs m' (rs @ (case e of Dev_write offset val \<Rightarrow> log_effect offset val m | _ \<Rightarrow> []))"
proof (cases e)
  case (Dev_write offset val)
  with assms show ?thesis by (simp add: mmio_write_abs)
next
  case (Ram_store gpa bs)
  have "dev_abs (m\<lparr>mem := x\<rparr>) rs" for x using assms(1) by (simp add: dev_abs_mem)
  with assms Ram_store show ?thesis by (auto split: if_splits)
next
  case (Unmapped type addr)
  have "dev_abs (snd (mem_invalid type addr m)) rs" using assms(1) by (subst dev_abs_cong [of _ m]) simp_all
  with assms Unmapped show ?thesis by auto
next
  case (Serial_write offset val)
  have "dev_abs (serial_write offset val m) rs" using assms(1) by (subst dev_abs_cong [of _ m]) simp_all
  with assms Serial_write show ?thesis by auto
qed (use assms in \<open>auto simp: bind_ub_Inr_iff\<close>)

lemma uc_emu_abs: "dev_abs m rs \<Longrightarrow> uc_emu es m = Inr m' \<Longrightarrow> dev_abs m' (rs @ guest_logged es m)"
proof (induction es arbitrary: m rs)
  case (Cons e es)
  show ?case
  proof (cases "cpu_stopped m")
    case False
    with Cons.prems(2) obtain m1 where m1: "uc_callback e m = Inr m1" "uc_emu es m1 = Inr m'"
      by (auto simp: bind_ub_Inr_iff)
    from Cons.IH [OF uc_callback_abs [OF Cons.prems(1) m1(1)] m1(2)] False m1 show ?thesis by simp
  qed (use Cons.prems in simp)
qed simp

lemma emu_sched_cpu: "emu_sched (map Cpu es) (m, None) = bind_ub (uc_emu es m) (\<lambda>m'. Inr (m', None))"
proof (induction es arbitrary: m)
  case (Cons e es)
  have st: "emu_sched (map Cpu es) (m, None) = Inr (m, None)" if "cpu_stopped m"
    using that by (induction es) simp_all
  show ?case using Cons st by (cases "uc_callback e m") auto
qed simp

text \<open>A machine that has booted: its device is fresh and its log is empty.\<close>

lemma boot_abs:
  assumes "boot e opt bin m = (0, m1)"
  shows "dev_abs m1 [] \<and> open_files m1 = open_files m + 1 \<and> v_store (vm m1) \<noteq> None"
proof -
  obtain rc1 c where c: "vmm_create (re_create e) (o_trace opt) (o_log opt) m = (rc1, c)"
    by (cases "vmm_create (re_create e) (o_trace opt) (o_log opt) m")
  with assms have rc1: "rc1 = 0" by (auto simp: boot_def split: if_splits)
  obtain rc2 b where b: "vmm_load_binary (re_bin e) c = (rc2, b)" by (cases "vmm_load_binary (re_bin e) c")
  with assms c rc1 have rc2: "rc2 = 0" by (auto simp: boot_def split: if_splits)
  have cr: "v_dev (vm c) = Some vlog_device_init \<and> v_store (vm c) = Some \<lparr>ls_buf = [], ls_disk = [], ls_lock = None\<rparr> \<and>
      open_files c = open_files m + 1"
    using c rc1 by (auto simp: vmm_create_def Let_def logstore_open_def uc_map_def upd_uc_def upd_dev_def
        split: option.splits if_splits)
  have br: "v_dev (vm b) = v_dev (vm c) \<and> v_store (vm b) = v_store (vm c) \<and> open_files b = open_files c"
    using b rc2 by (auto simp: vmm_load_binary_def Let_def upd_uc_def split: option.splits if_splits)
  have m1: "v_dev (vm m1) = v_dev (vm b) \<and> v_store (vm m1) = v_store (vm b) \<and> open_files m1 = open_files b"
    using assms c b rc1 rc2
    by (auto simp: boot_def vmm_load_bootinfo_def Let_def split: option.splits if_splits prod.splits)
  show ?thesis using cr br m1 by (simp add: dev_abs_def vlog_device_init_def ls_contents_def)
qed

section \<open>Properties of the program\<close>


definition demo_run :: run_env where
  "demo_run = \<lparr>re_create = \<lparr>ce_store_alloc = True, ce_store_fopen = True, ce_uc_err = None,
       ce_ram = 0x7f0000000000, ce_map_ram = True, ce_map_serial = True, ce_dev_alloc = True, ce_map_dev = True\<rparr>,
     re_bin = file_env ''AB'', re_boot = (None, 0, 0),
     re_net = \<lparr>se_calloc = True, se_socket = 3, se_bind = True, se_listen = True, se_pthread = True, se_pfds = []\<rparr>,
     re_sched = map Cpu [Serial_write SERIAL_POWEROFF 5], re_err_ok = True, re_turns = [],
     re_store = (True, True)\<rparr>"

definition demo_host :: machine where
  "demo_host = \<lparr>vm = vmm_zero, mem = (\<lambda>a. NUL), console = [], errout = [], open_files = 0, log_file = None\<rparr>"


end
