(* ===== verification/Guest.thy ===== *)
theory Guest
  imports Vmm
begin

text \<open>
  \<^verbatim>\<open>project_1/guest/vlog.c\<close>: the library a guest program talks to the device with.  Its
  volatile stores and loads reach the emulator through the CPU library, which is not part of
  the repository: the 32-bit store and load are parameters \<open>w32\<close> and \<open>r32\<close>, and \<open>guest_bus\<close>
  states what Unicorn documents for regions registered with \<^verbatim>\<open>uc_mmio_map\<close>: an access at
  \<open>base + offset\<close> calls the region's callback with \<open>offset\<close>.  With paging off a guest
  pointer is a guest-physical address, so pointers are \<open>u64\<close>.
\<close>

section \<open>The MMIO bus\<close>

type_synonym w32 = "u64 \<Rightarrow> u32 \<Rightarrow> machine \<Rightarrow> ub + machine"
type_synonym r32 = "u64 \<Rightarrow> machine \<Rightarrow> ub + u32"

locale guest_bus =
  fixes w32 :: w32 and r32 :: r32
  assumes dev_w32: "off < DEV_SIZE \<Longrightarrow> w32 (DEV_BASE + off) val m = vlog_device_mmio_write off (ucast val) m"
    and dev_r32: "off < DEV_SIZE \<Longrightarrow>
      r32 (DEV_BASE + off) m = bind_ub (vlog_device_mmio_read off m) (\<lambda>x. Inr (ucast x))"
    and serial_w32: "off < SERIAL_SIZE \<Longrightarrow> w32 (SERIAL_BASE + off) val m = Inr (serial_write off (ucast val) m)"

section \<open>Console\<close>

definition guest_putc :: "w32 \<Rightarrow> byte \<Rightarrow> machine \<Rightarrow> ub + machine" where
  "guest_putc w32 c m = w32 (SERIAL_BASE + SERIAL_TX) (of_nat (of_char c)) m"

fun guest_puts :: "w32 \<Rightarrow> string \<Rightarrow> machine \<Rightarrow> ub + machine" where
  "guest_puts w32 [] m = Inr m"
| "guest_puts w32 (c # s) m = (if c = NUL then Inr m else bind_ub (guest_putc w32 c m) (guest_puts w32 s))"

definition hex_digit :: "nat \<Rightarrow> byte" where
  "hex_digit d = ''0123456789abcdef'' ! d"

fun puthex_loop :: "w32 \<Rightarrow> nat list \<Rightarrow> u32 \<Rightarrow> machine \<Rightarrow> ub + machine" where
  "puthex_loop w32 [] v m = Inr m"
| "puthex_loop w32 (i # is) v m =
     bind_ub (guest_putc w32 (hex_digit (unat (drop_bit i v AND 0xf))) m) (puthex_loop w32 is v)"

definition guest_puthex :: "w32 \<Rightarrow> u32 \<Rightarrow> machine \<Rightarrow> ub + machine" where
  "guest_puthex w32 v m =
     bind_ub (guest_putc w32 CHR ''0'' m) (\<lambda>m. bind_ub (guest_putc w32 CHR ''x'' m)
       (puthex_loop w32 [28, 24, 20, 16, 12, 8, 4, 0] v))"

text \<open>The write stops the CPU; the loop after it is never run.\<close>

definition vm_exit :: "w32 \<Rightarrow> int \<Rightarrow> machine \<Rightarrow> ub + machine" where
  "vm_exit w32 code m = w32 (SERIAL_BASE + SERIAL_POWEROFF) (word_of_int code) m"

section \<open>The device\<close>

definition vlog_id :: "r32 \<Rightarrow> machine \<Rightarrow> ub + u32" where
  "vlog_id r32 m = r32 (DEV_BASE + VLOG_REG_ID) m"

definition vlog_status :: "r32 \<Rightarrow> machine \<Rightarrow> ub + u32" where
  "vlog_status r32 m = r32 (DEV_BASE + VLOG_REG_STATUS) m"

definition vlog_seq :: "r32 \<Rightarrow> machine \<Rightarrow> ub + u32" where
  "vlog_seq r32 m = r32 (DEV_BASE + VLOG_REG_SEQ) m"

definition status_code :: "u32 \<Rightarrow> int" where
  "status_code st = (if st AND VLOG_STATUS_ERROR \<noteq> 0 then int (unat (drop_bit 8 st AND 0xff)) else 0)"

definition vlog_write :: "w32 \<Rightarrow> r32 \<Rightarrow> u32 \<Rightarrow> u64 \<Rightarrow> u32 \<Rightarrow> machine \<Rightarrow> ub + (int \<times> machine)" where
  "vlog_write w32 r32 level gpa len m =
     bind_ub (w32 (DEV_BASE + VLOG_REG_MSG_LO) (ucast gpa) m) (\<lambda>m.
     bind_ub (w32 (DEV_BASE + VLOG_REG_MSG_HI) (ucast (drop_bit 32 gpa)) m) (\<lambda>m.
     bind_ub (w32 (DEV_BASE + VLOG_REG_LEN) len m) (\<lambda>m.
     bind_ub (w32 (DEV_BASE + VLOG_REG_LEVEL) level m) (\<lambda>m.
     bind_ub (w32 (DEV_BASE + VLOG_REG_CMD) (ucast VLOG_CMD_LOG) m) (\<lambda>m.
     bind_ub (r32 (DEV_BASE + VLOG_REG_STATUS) m) (\<lambda>st. Inr (status_code st, m)))))))"

text \<open>The string is found in guest RAM; \<open>len\<close> is a 32-bit counter.\<close>

definition vlog :: "w32 \<Rightarrow> r32 \<Rightarrow> u32 \<Rightarrow> u64 \<Rightarrow> string \<Rightarrow> machine \<Rightarrow> ub + (int \<times> machine)" where
  "vlog w32 r32 level gpa s m = vlog_write w32 r32 level gpa (of_nat (length (cstr s))) m"

definition vlog_stat :: "w32 \<Rightarrow> r32 \<Rightarrow> u64 \<Rightarrow> u32 \<Rightarrow> machine \<Rightarrow> ub + (int \<times> machine)" where
  "vlog_stat w32 r32 addr len m =
     bind_ub (w32 (DEV_BASE + VLOG_REG_MSG_LO) (ucast (addr AND 0xffffffff)) m) (\<lambda>m.
     bind_ub (w32 (DEV_BASE + VLOG_REG_MSG_HI) (ucast (drop_bit 32 addr)) m) (\<lambda>m.
     bind_ub (w32 (DEV_BASE + VLOG_REG_LEN) len m) (\<lambda>m.
     bind_ub (w32 (DEV_BASE + VLOG_REG_CMD) (ucast VLOG_CMD_STAT) m) (\<lambda>m.
     bind_ub (r32 (DEV_BASE + VLOG_REG_STATUS) m) (\<lambda>st. Inr (status_code st, m))))))"

section \<open>Operands\<close>

text \<open>The operands as the device holds them after the library's register writes.\<close>

definition operands :: "u64 \<Rightarrow> u32 \<Rightarrow> u32 \<Rightarrow> vlog_device \<Rightarrow> vlog_device" where
  "operands gpa len level d = d\<lparr>d_status := d_status (clear_error d), d_msg_addr_lo := ucast gpa,
     d_msg_addr_hi := ucast (drop_bit 32 gpa), d_len := len, d_level := level\<rparr>"

definition guest_msg_ok :: "u64 \<Rightarrow> u32 \<Rightarrow> bool" where
  "guest_msg_ok gpa len = (len \<le> VLOG_MAX_MSG \<and> gpa \<noteq> 0 \<and> (len = 0 \<or> in_ram gpa (unat len)))"

lemma msg_addr_operands: "msg_addr (operands gpa len level d) = gpa"
  by (simp add: msg_addr_def operands_def halves_u64)

lemma clear_error_ops [simp]:
  "clear_error (clear_error d) = clear_error d"
  "clear_error ((clear_error d)\<lparr>d_msg_addr_lo := v\<rparr>) = clear_error (d\<lparr>d_msg_addr_lo := v\<rparr>)"
  "clear_error ((clear_error d)\<lparr>d_msg_addr_hi := v\<rparr>) = clear_error (d\<lparr>d_msg_addr_hi := v\<rparr>)"
  "clear_error ((clear_error d)\<lparr>d_len := v\<rparr>) = clear_error (d\<lparr>d_len := v\<rparr>)"
  "clear_error ((clear_error d)\<lparr>d_level := v\<rparr>) = clear_error (d\<lparr>d_level := v\<rparr>)"
  by (simp_all add: clear_error_def and.assoc)

section \<open>What the library does over a bus\<close>

context guest_bus
begin

lemma putc: "guest_putc w32 c m = Inr (m\<lparr>console := console m @ [c]\<rparr>)"
proof -
  have c: "(of_char c :: nat) < 2 ^ 32" by (rule of_char_less)
  then have "unat (of_nat (of_char c) :: u32) = of_char c" by (rule unat32)
  moreover have "unat (ucast (w :: u32) :: u64) = unat w" for w by simp
  ultimately have u: "char_of (unat (ucast (of_nat (of_char c) :: u32) :: u64)) = c" by simp
  have "SERIAL_TX < SERIAL_SIZE" by (simp add: cconst)
  then show ?thesis using serial_w32 [of SERIAL_TX "of_nat (of_char c)" m] u
    by (simp add: guest_putc_def serial_write_def)
qed

lemma puts: "NUL \<notin> set s \<Longrightarrow> guest_puts w32 s m = Inr (m\<lparr>console := console m @ s\<rparr>)"
  by (induction s arbitrary: m) (auto simp: putc)

lemma puthex_loop: "puthex_loop w32 is v m =
    Inr (m\<lparr>console := console m @ map (\<lambda>i. hex_digit (unat (drop_bit i v AND 0xf))) is\<rparr>)"
  by (induction "is" arbitrary: m) (auto simp: putc)

lemma puthex: "guest_puthex w32 v m = Inr (m\<lparr>console := console m @ ''0x'' @
    map (\<lambda>i. hex_digit (unat (drop_bit i v AND 0xf))) [28, 24, 20, 16, 12, 8, 4, 0]\<rparr>)"
  by (simp add: guest_puthex_def putc puthex_loop)

lemma regs_in_range:
  "VLOG_REG_MSG_LO < DEV_SIZE" "VLOG_REG_MSG_HI < DEV_SIZE" "VLOG_REG_LEN < DEV_SIZE" "VLOG_REG_LEVEL < DEV_SIZE"
  "VLOG_REG_CMD < DEV_SIZE" "VLOG_REG_STATUS < DEV_SIZE"
  by (simp_all add: cconst)

lemma read_status:
  assumes "v_dev (vm m) = Some d"
  shows "r32 (DEV_BASE + VLOG_REG_STATUS) m = Inr (d_status d)"
proof -
  have "vlog_device_mmio_read VLOG_REG_STATUS m = Inr (ucast (d_status d))"
    using assms by (simp add: vlog_device_mmio_read_def cconst)
  then show ?thesis by (simp only: dev_r32 [OF regs_in_range(6)] bind_ub_simps ucast_back)
qed

lemma reg_writes:
  assumes "v_dev (vm m) = Some d"
  shows "w32 (DEV_BASE + VLOG_REG_MSG_LO) v m = Inr (upd_dev (clear_error (d\<lparr>d_msg_addr_lo := v\<rparr>)) m)"
    "w32 (DEV_BASE + VLOG_REG_MSG_HI) v m = Inr (upd_dev (clear_error (d\<lparr>d_msg_addr_hi := v\<rparr>)) m)"
    "w32 (DEV_BASE + VLOG_REG_LEN) v m = Inr (upd_dev (clear_error (d\<lparr>d_len := v\<rparr>)) m)"
    "w32 (DEV_BASE + VLOG_REG_LEVEL) v m = Inr (upd_dev (clear_error (d\<lparr>d_level := v\<rparr>)) m)"
    "w32 (DEV_BASE + VLOG_REG_CMD) (ucast VLOG_CMD_LOG) m = cmd_log d m"
    "w32 (DEV_BASE + VLOG_REG_CMD) (ucast VLOG_CMD_STAT) m = cmd_stat d m"
  unfolding dev_w32 [OF regs_in_range(1)] dev_w32 [OF regs_in_range(2)] dev_w32 [OF regs_in_range(3)]
    dev_w32 [OF regs_in_range(4)] dev_w32 [OF regs_in_range(5)]
  using assms by (simp_all add: vlog_device_mmio_write_def cconst)

lemma write_log:
  assumes "v_dev (vm m) = Some d"
  shows "vlog_write w32 r32 level gpa len m =
    bind_ub (cmd_log (operands gpa len level d) (upd_dev (operands gpa len level d) m))
      (\<lambda>m'. bind_ub (r32 (DEV_BASE + VLOG_REG_STATUS) m') (\<lambda>st. Inr (status_code st, m')))"
proof -
  have c: "clear_error (d\<lparr>d_msg_addr_lo := ucast gpa, d_msg_addr_hi := ucast (drop_bit 32 gpa), d_len := len, d_level := level\<rparr>)
      = operands gpa len level d"
    by (simp add: operands_def clear_error_def)
  show ?thesis using assms by (simp add: vlog_write_def reg_writes upd_dev_def c)
qed

lemma write_stat:
  assumes "v_dev (vm m) = Some d"
  shows "vlog_stat w32 r32 gpa len m =
    bind_ub (cmd_stat (operands gpa len (d_level d) d) (upd_dev (operands gpa len (d_level d) d) m))
      (\<lambda>m'. bind_ub (r32 (DEV_BASE + VLOG_REG_STATUS) m') (\<lambda>st. Inr (status_code st, m')))"
proof -
  have c: "clear_error (d\<lparr>d_msg_addr_lo := ucast gpa, d_msg_addr_hi := ucast (drop_bit 32 gpa), d_len := len\<rparr>)
      = operands gpa len (d_level d) d"
    by (simp add: operands_def clear_error_def)
  have "ucast (gpa AND 0xffffffff) = (ucast gpa :: u32)"
  proof -
    have m: "(0xffffffff :: u64) = mask 32" by (simp add: mask_eq_exp_minus_1)
    show ?thesis unfolding m by (rule bit_word_eqI) (simp add: bit_ucast_iff bit_and_iff bit_mask_iff)
  qed
  then show ?thesis using assms by (simp add: vlog_stat_def reg_writes upd_dev_def c)
qed

lemma log_outcome:
  assumes d: "v_dev (vm m) = Some d" and ls: "v_store (vm m) = Some ls" and ok: "status_ok (d_status d)"
  shows "\<exists>m'. vlog_write w32 r32 level gpa len m =
      Inr (if VLOG_MAX_MSG < len then 3 else if guest_msg_ok gpa len then 0 else 2, m') \<and>
    v_store (vm m') = Some (if guest_msg_ok gpa len
      then logstore_append ls (d_seq d) level (ld_bytes (mem m) (v_ram (vm m) + (gpa - RAM_BASE)) (unat len))
      else ls)"
proof -
  let ?d = "operands gpa len level d" and ?m = "upd_dev (operands gpa len level d) m"
  have st: "d_status ?d = 1" using clear_error_status [OF ok] by (simp add: operands_def)
  then have ok1: "status_ok (d_status ?d)" by (simp add: status_ok_def)
  have acc: "log_accepts ?d \<longleftrightarrow> guest_msg_ok gpa len"
    by (simp add: log_accepts_def guest_msg_ok_def msg_addr_operands) (simp add: operands_def)
  have f: "d_len ?d = len" "d_seq ?d = d_seq d" "d_level ?d = level" by (simp_all add: operands_def)
  have codes: "status_code (d_status ?d) = 0" "status_code (d_status (set_error VLOG_ERR_BADLEN ?d)) = 3"
    "status_code (d_status (set_error VLOG_ERR_BADADDR ?d)) = 2"
    by (simp_all add: status_code_def set_error_def st cconst)
  have ls1: "v_store (vm ?m) = Some ls" using ls by (simp add: upd_dev_def)
  have msg: "msg_bytes ?d ?m = ld_bytes (mem m) (v_ram (vm m) + (gpa - RAM_BASE)) (unat len)"
    by (simp add: msg_bytes_def msg_host_def msg_addr_operands f upd_dev_def)
  have big: "guest_msg_ok gpa len \<Longrightarrow> \<not> VLOG_MAX_MSG < len" by (simp add: guest_msg_ok_def not_less)
  show ?thesis
  proof (cases "guest_msg_ok gpa len")
    case True
    then show ?thesis using big unfolding write_log [OF d] cmd_log_spec [OF ls1] acc f msg
      by (simp add: read_status upd_dev_def upd_store_def codes)
  next
    case False
    then show ?thesis
      using ls unfolding write_log [OF d] cmd_log_spec [OF ls1] acc f
      by (simp add: read_status upd_dev_def codes)
  qed
qed

end

section \<open>A bus\<close>

text \<open>A bus that behaves as documented, for the regions the VMM registers: the instance that
  shows the contract can be met.\<close>

definition in_region :: "u64 \<Rightarrow> u64 \<Rightarrow> u64 \<Rightarrow> bool" where
  "in_region base sz addr = (addr - base < sz)"

definition region_w32 :: w32 where
  "region_w32 addr val m =
     (if in_region DEV_BASE DEV_SIZE addr then vlog_device_mmio_write (addr - DEV_BASE) (ucast val) m
      else if in_region SERIAL_BASE SERIAL_SIZE addr then Inr (serial_write (addr - SERIAL_BASE) (ucast val) m)
      else Inr (snd (mem_invalid 20 addr m)))"

definition region_r32 :: r32 where
  "region_r32 addr m =
     (if in_region DEV_BASE DEV_SIZE addr
        then bind_ub (vlog_device_mmio_read (addr - DEV_BASE) m) (\<lambda>x. Inr (ucast x))
      else Inr 0)"

lemma serial_not_device: "off < SERIAL_SIZE \<Longrightarrow> \<not> SERIAL_BASE + off - DEV_BASE < DEV_SIZE"
  unfolding word_less_nat_alt
  by (simp add: cconst unat_sub_if' unat_word_ariths)

interpretation region_bus: guest_bus region_w32 region_r32
  by unfold_locales (simp_all add: region_w32_def region_r32_def in_region_def serial_not_device)

definition hex_val :: "string \<Rightarrow> nat" where
  "hex_val s = foldl (\<lambda>a c. 16 * a + (if is_digit c then digit_val c else of_char c - 87)) 0 s"

lemma hex_digit_val: "n < 16 \<Longrightarrow> (if is_digit (hex_digit n) then digit_val (hex_digit n) else of_char (hex_digit n) - 87) = n"
proof -
  assume "n < 16"
  then have "n \<in> {0, 1, 2, 3, 4, 5, 6, 7, 8, 9, 10, 11, 12, 13, 14, 15}"
    unfolding insert_iff empty_iff by presburger
  then show ?thesis by (auto simp: hex_digit_def is_digit_def digit_val_def)
qed

lemma nibble: "unat (drop_bit i (v :: u32) AND 0xf) = unat v div 2 ^ i mod 16"
proof -
  have m: "(0xf :: u32) = mask 4" by (simp add: mask_eq_exp_minus_1)
  have "drop_bit i v AND 0xf = take_bit 4 (drop_bit i v)" unfolding m by (simp only: take_bit_eq_mask)
  moreover have "unat v mod 4294967296 = unat v" using unsigned_less [of v, where 'a = nat] by simp
  ultimately show ?thesis
    by (simp only: unsigned_take_bit_eq unsigned_drop_bit_eq) (simp add: take_bit_eq_mod drop_bit_eq_div)
qed

lemma hex_val_digits:
  "hex_val (map (\<lambda>i. hex_digit (unat (drop_bit i (v :: u32) AND 0xf))) [28, 24, 20, 16, 12, 8, 4, 0]) = unat v"
proof -
  define n where "n = unat v"
  have n: "n < 4294967296" using unsigned_less [of v, where 'a = nat] by (simp add: n_def)
  have h: "16 * (n div (16 * k)) + n div k mod 16 = n div k" for k
    by (simp add: mult.commute [of 16 k] div_mult2_eq)
  have top: "n div 268435456 mod 16 = n div 268435456" using n by simp
  have "16 * (16 * (16 * (16 * (16 * (16 * (16 * (n div 268435456 mod 16) + n div 16777216 mod 16) + n div 1048576 mod 16) +
      n div 65536 mod 16) + n div 4096 mod 16) + n div 256 mod 16) + n div 16 mod 16) + n mod 16 = n"
    unfolding top using h [of 16777216] h [of 1048576] h [of 65536] h [of 4096] h [of 256] h [of 16] h [of 1]
    by simp
  then show ?thesis by (simp add: hex_val_def hex_digit_val nibble n_def)
qed

section \<open>Properties of the guest library\<close>



text \<open>\<^verbatim>\<open>puthex_\<close> prints exactly the eight hexadecimal digits of its argument.\<close>

theorem guest_puthex_output:
  assumes "guest_bus w32 r32"
  shows "\<exists>ds. guest_puthex w32 v m = Inr (m\<lparr>console := console m @ ''0x'' @ ds\<rparr>) \<and>
    length ds = 8 \<and> hex_val ds = unat v"
proof (intro exI conjI)
  let ?ds = "map (\<lambda>i. hex_digit (unat (drop_bit i v AND 0xf))) [28, 24, 20, 16, 12, 8, 4, 0]"
  show "guest_puthex w32 v m = Inr (m\<lparr>console := console m @ ''0x'' @ ?ds\<rparr>)"
    using guest_bus.puthex [OF assms] .
  show "length ?ds = 8" by simp
  show "hex_val ?ds = unat v" by (rule hex_val_digits)
qed

theorem guest_puthex_output_witness:
  "\<exists>ds. guest_puthex region_w32 0xBEEF demo_machine = Inr (demo_machine\<lparr>console := ''0x'' @ ds\<rparr>) \<and> hex_val ds = 0xBEEF"
  using guest_puthex_output [OF region_bus.guest_bus_axioms, of "0xBEEF" demo_machine]
  by (auto simp: demo_machine_def)

end
