(* ===== verification/Logstore_Conc.thy ===== *)
theory Logstore_Conc
  imports Logstore "HOL-Library.Sublist"
begin

text \<open>
  Concurrent producers of one log store: the vCPU thread (through the MMIO device) and the
  network listener both call \<^verbatim>\<open>logstore_append\<close>.  Each thread runs the library calls of its
  appends (\<open>append_ops\<close>) in order; the scheduler interleaves threads arbitrarily, and
  \<^verbatim>\<open>pthread_mutex_lock\<close> waits until the mutex is free.  The theory shows what the mutex is
  there for: no interleaving tears a record, and every thread's records keep their order.
\<close>

section \<open>The system of producers\<close>

record producers =
  p_store :: logstore
  p_calls :: "nat \<Rightarrow> rec_call list"
  p_cur :: "nat \<Rightarrow> (rec_call \<times> ls_op list) option"
  p_done :: "(nat \<times> rec_call) list"

definition call_ops :: "rec_call \<Rightarrow> ls_op list" where
  "call_ops c = append_ops (fst c) (fst (snd c)) (snd (snd c))"

definition init_producers :: "(nat \<Rightarrow> rec_call list) \<Rightarrow> producers" where
  "init_producers cs = \<lparr>p_store = \<lparr>ls_buf = [], ls_disk = [], ls_lock = None\<rparr>,
     p_calls = cs, p_cur = (\<lambda>_. None), p_done = []\<rparr>"

inductive producer_step :: "producers \<Rightarrow> producers \<Rightarrow> bool" where
  call: "p_cur s t = None \<Longrightarrow> p_calls s t = c # cs \<Longrightarrow>
    producer_step s (s\<lparr>p_calls := (p_calls s)(t := cs), p_cur := (p_cur s)(t \<mapsto> (c, call_ops c))\<rparr>)"
| exec: "p_cur s t = Some (c, op # ops) \<Longrightarrow> (op = Mutex_lock \<longrightarrow> ls_lock (p_store s) = None) \<Longrightarrow>
    producer_step s (s\<lparr>p_store := ls_exec t op (p_store s), p_cur := (p_cur s)(t \<mapsto> (c, ops)),
      p_done := (if op = Mutex_unlock then p_done s @ [(t, c)] else p_done s)\<rparr>)"
| return: "p_cur s t = Some (c, []) \<Longrightarrow> producer_step s (s\<lparr>p_cur := (p_cur s)(t := None)\<rparr>)"

inductive_cases producer_stepE: "producer_step s s'"

inductive producers_reach :: "(nat \<Rightarrow> rec_call list) \<Rightarrow> producers \<Rightarrow> bool" for cs where
  init: "producers_reach cs (init_producers cs)"
| step: "producers_reach cs s \<Longrightarrow> producer_step s s' \<Longrightarrow> producers_reach cs s'"

section \<open>The operations of one call\<close>

definition outs :: "ls_op list \<Rightarrow> byte list" where
  "outs ops = concat (map op_out ops)"

definition body_ops :: "rec_call \<Rightarrow> ls_op list" where
  "body_ops c = tl (call_ops c)"

lemma call_ops_Cons: "call_ops c = Mutex_lock # body_ops c"
  by (simp add: call_ops_def append_ops_def body_ops_def)

lemma body_ops_form: "body_ops c =
   Fprintf_head (fst c) (fst (snd c)) # (if snd (snd c) = [] then [] else [Fwrite (snd (snd c))]) @
   [Fputc NL, Fflush, Mutex_unlock]"
  by (simp add: body_ops_def call_ops_def append_ops_def)

lemma outs_body: "outs (body_ops c) = fmt_call c"
proof -
  have "outs (body_ops c) = outs (call_ops c)" by (simp add: call_ops_Cons outs_def)
  then show ?thesis
    by (simp add: outs_def call_ops_def append_ops_out fmt_call_def split_beta)
qed

text \<open>Where in its body a call can stand: the lock is not taken twice, the unlock is the last
  operation, and the buffer has been flushed by then.\<close>

lemma body_split:
  assumes "pre @ op # ops = body_ops c"
  shows "op \<noteq> Mutex_lock" "op = Mutex_unlock \<longleftrightarrow> ops = []"
    "Fflush \<notin> set (op # ops) \<Longrightarrow> ops = []"
  using assms by (auto simp: body_ops_form append_eq_Cons_conv split: if_splits)

section \<open>The invariant\<close>

definition done_out :: "producers \<Rightarrow> byte list" where
  "done_out s = concat (map (\<lambda>x. fmt_call (snd x)) (p_done s))"

text \<open>A thread outside the critical section is between calls, about to lock, or past its unlock.\<close>

definition outside :: "(rec_call \<times> ls_op list) option \<Rightarrow> bool" where
  "outside x = (case x of None \<Rightarrow> True | Some (c, ops) \<Rightarrow> ops = [] \<or> ops = call_ops c)"

lemma outside_simps [simp]: "outside None" "outside (Some (c, call_ops c))" "outside (Some (c, []))"
  by (simp_all add: outside_def)

definition held_inv :: "producers \<Rightarrow> nat \<Rightarrow> bool" where
  "held_inv s t = (\<exists>c pre ops. p_cur s t = Some (c, ops) \<and> pre @ ops = body_ops c \<and> ops \<noteq> [] \<and>
     ls_contents (p_store s) = done_out s @ outs pre \<and>
     (Fflush \<notin> set ops \<longrightarrow> ls_buf (p_store s) = []))"

definition prod_inv :: "producers \<Rightarrow> bool" where
  "prod_inv s = (case ls_lock (p_store s) of
     None \<Rightarrow> ls_contents (p_store s) = done_out s \<and> ls_buf (p_store s) = [] \<and> (\<forall>u. outside (p_cur s u))
   | Some t \<Rightarrow> held_inv s t \<and> (\<forall>u. u \<noteq> t \<longrightarrow> outside (p_cur s u)))"

lemma prod_inv_init: "prod_inv (init_producers cs)"
  by (simp add: prod_inv_def init_producers_def outside_def ls_contents_def done_out_def)

lemma ls_lock_exec: "ls_lock (ls_exec t op ls) =
    (if op = Mutex_lock then Some t else if op = Mutex_unlock then None else ls_lock ls)"
  by (cases op) auto

lemma exec_held:
  assumes lock: "ls_lock (p_store s) = Some t" and inv: "prod_inv s"
    and cur: "p_cur s t = Some (c, op # ops)"
  shows "prod_inv (s\<lparr>p_store := ls_exec t op (p_store s), p_cur := (p_cur s)(t \<mapsto> (c, ops)),
      p_done := (if op = Mutex_unlock then p_done s @ [(t, c)] else p_done s)\<rparr>)" (is "prod_inv ?s'")
proof -
  from inv lock cur obtain pre where body: "pre @ op # ops = body_ops c"
    and cont: "ls_contents (p_store s) = done_out s @ outs pre"
    and buf: "Fflush \<notin> set (op # ops) \<Longrightarrow> ls_buf (p_store s) = []"
    and others: "\<forall>u. u \<noteq> t \<longrightarrow> outside (p_cur s u)"
    by (auto simp: prod_inv_def held_inv_def)
  note split = body_split [OF body]
  have cont': "ls_contents (ls_exec t op (p_store s)) = done_out s @ outs (pre @ [op])"
    by (simp add: ls_contents_exec cont outs_def)
  show ?thesis
  proof (cases "op = Mutex_unlock")
    case True
    with split have ops: "ops = []" by simp
    have "outs (pre @ [op]) = fmt_call c" using body ops outs_body [of c] by simp
    with cont' True ops buf others show ?thesis
      by (auto simp: prod_inv_def ls_lock_exec done_out_def outside_def)
  next
    case False
    with split have ops: "ops \<noteq> []" "op \<noteq> Mutex_lock" by auto
    have "Fflush \<notin> set ops \<Longrightarrow> ls_buf (ls_exec t op (p_store s)) = []"
      using split(3) ops by (cases "op = Fflush") auto
    with cont' False ops body have "held_inv ?s' t"
      unfolding held_inv_def
      by (intro exI [of _ c] exI [of _ "pre @ [op]"] exI [of _ ops]) (simp add: done_out_def)
    with False ops lock others show ?thesis
      by (simp add: prod_inv_def ls_lock_exec)
  qed
qed

lemma exec_lock:
  assumes lock: "ls_lock (p_store s) = None" and inv: "prod_inv s"
    and cur: "p_cur s t = Some (c, op # ops)"
  shows "prod_inv (s\<lparr>p_store := ls_exec t op (p_store s), p_cur := (p_cur s)(t \<mapsto> (c, ops)),
      p_done := (if op = Mutex_unlock then p_done s @ [(t, c)] else p_done s)\<rparr>)" (is "prod_inv ?s'")
proof -
  from inv lock have "outside (p_cur s t)" by (simp add: prod_inv_def)
  with cur have op: "op = Mutex_lock" "ops = body_ops c"
    by (auto simp: outside_def call_ops_Cons)
  from inv lock have free: "ls_contents (p_store s) = done_out s" "ls_buf (p_store s) = []"
    "\<forall>u. outside (p_cur s u)"
    by (simp_all add: prod_inv_def)
  have "ops \<noteq> []" using op by (simp add: body_ops_form)
  then have "held_inv ?s' t"
    using op free unfolding held_inv_def
    by (intro exI [of _ c] exI [of _ "[]"] exI [of _ ops])
      (simp add: ls_contents_def done_out_def outs_def)
  with op free show ?thesis by (simp add: prod_inv_def)
qed

lemma producer_step_inv: "producer_step s s' \<Longrightarrow> prod_inv s \<Longrightarrow> prod_inv s'"
proof (induction rule: producer_step.induct)
  case (call s t c cs)
  then show ?case
    by (auto simp: prod_inv_def held_inv_def done_out_def split: option.splits)
next
  case (exec s t c op ops)
  show ?case
  proof (cases "ls_lock (p_store s)")
    case None
    then show ?thesis using exec by (intro exec_lock)
  next
    case (Some u)
    have "u = t"
    proof (rule ccontr)
      assume "u \<noteq> t"
      with Some exec.prems have "outside (p_cur s t)" by (auto simp: prod_inv_def)
      with exec.hyps Some show False by (auto simp: outside_def call_ops_Cons)
    qed
    with Some exec show ?thesis by (intro exec_held) auto
  qed
next
  case (return s t c)
  then show ?case
    by (auto simp: prod_inv_def held_inv_def done_out_def split: option.splits)
qed

lemma reach_prod_inv: "producers_reach cs s \<Longrightarrow> prod_inv s"
  by (induction rule: producers_reach.induct) (auto intro: prod_inv_init producer_step_inv)

section \<open>Order per thread\<close>

definition pending :: "producers \<Rightarrow> nat \<Rightarrow> rec_call list" where
  "pending s t = (case p_cur s t of None \<Rightarrow> [] | Some (c, ops) \<Rightarrow> if ops = [] then [] else [c])"

definition done_by :: "producers \<Rightarrow> nat \<Rightarrow> rec_call list" where
  "done_by s t = map snd (filter (\<lambda>x. fst x = t) (p_done s))"

definition order_inv :: "(nat \<Rightarrow> rec_call list) \<Rightarrow> producers \<Rightarrow> bool" where
  "order_inv cs s = (\<forall>t. done_by s t @ pending s t @ p_calls s t = cs t)"

lemma prod_inv_unlock:
  assumes "prod_inv s" and "p_cur s t = Some (c, op # ops)"
    and "op = Mutex_lock \<longrightarrow> ls_lock (p_store s) = None"
  shows "op = Mutex_unlock \<longleftrightarrow> ops = []"
proof (cases "outside (p_cur s t)")
  case True
  with assms have "op = Mutex_lock" "ops = body_ops c" by (auto simp: outside_def call_ops_Cons)
  then show ?thesis by (simp add: body_ops_form)
next
  case False
  with assms(1) have "held_inv s t"
    by (cases "ls_lock (p_store s)") (auto simp: prod_inv_def split: if_splits, metis)
  with assms(2) obtain pre where "pre @ op # ops = body_ops c" by (auto simp: held_inv_def)
  then show ?thesis by (rule body_split)
qed

lemma producer_step_order:
  assumes "producer_step s s'" and "prod_inv s" and "order_inv cs s"
  shows "order_inv cs s'"
  using assms
proof (induction rule: producer_step.induct)
  case (call s t c cs')
  then have "done_by s t @ c # cs' = cs t"
    by (auto simp: order_inv_def pending_def dest: spec [of _ t])
  with call show ?case by (simp add: order_inv_def pending_def done_by_def call_ops_Cons)
next
  case (exec s t c op ops)
  from exec have "done_by s t @ c # p_calls s t = cs t"
    by (auto simp: order_inv_def pending_def dest: spec [of _ t])
  with prod_inv_unlock [OF exec.prems(1) exec.hyps] exec show ?case
    by (simp add: order_inv_def pending_def done_by_def)
next
  case (return s t c)
  then have "done_by s t @ p_calls s t = cs t"
    by (auto simp: order_inv_def pending_def dest: spec [of _ t])
  with return show ?case by (simp add: order_inv_def pending_def done_by_def)
qed

lemma reach_order: "producers_reach cs s \<Longrightarrow> order_inv cs s"
proof (induction rule: producers_reach.induct)
  case init
  show ?case by (simp add: order_inv_def pending_def done_by_def init_producers_def)
next
  case (step s s')
  then show ?case by (blast intro: producer_step_order reach_prod_inv)
qed

lemma reach_held:
  assumes "producers_reach cs s" and "ls_lock (p_store s) = Some t"
  obtains c pre ops where "p_cur s t = Some (c, ops)" "pre @ ops = body_ops c" "ops \<noteq> []"
    "ls_contents (p_store s) = done_out s @ outs pre"
  using reach_prod_inv [OF assms(1)] assms(2) unfolding prod_inv_def held_inv_def
  by (simp only: option.case) (elim conjE exE, rule that)

section \<open>Properties of the shared store\<close>

text \<open>C4: In every interleaving of the producers the log consists of whole records, in the order
  the appends finished, followed by at most a prefix of one record; while the mutex is free there
  is no such prefix and everything is on disk.\<close>

theorem log_never_torn:
  assumes "producers_reach cs s"
  shows "\<exists>c part. prefix part (fmt_call c) \<and>
    ls_contents (p_store s) = concat (map (\<lambda>x. fmt_call (snd x)) (p_done s)) @ part \<and>
    (ls_lock (p_store s) = None \<longrightarrow> part = [] \<and> ls_buf (p_store s) = [])"
proof (cases "ls_lock (p_store s)")
  case None
  then show ?thesis using reach_prod_inv [OF assms] by (auto simp: prod_inv_def done_out_def)
next
  case (Some t)
  with assms obtain c pre ops where "pre @ ops = body_ops c" "ls_contents (p_store s) = done_out s @ outs pre"
    by (rule reach_held)
  moreover from this have "prefix (outs pre) (fmt_call c)"
    using outs_body [of c] by (metis concat_append map_append outs_def prefixI)
  ultimately show ?thesis using Some by (intro exI [of _ c] exI [of _ "outs pre"]) (simp add: done_out_def)
qed


text \<open>C23: The mutex does not deadlock: as long as some thread has an append to make or to finish,
  some thread can take a step.\<close>

theorem producers_progress:
  assumes "producers_reach cs s" and "p_cur s t \<noteq> None \<or> p_calls s t \<noteq> []"
  shows "\<exists>s'. producer_step s s'"
proof (cases "ls_lock (p_store s)")
  case None
  consider c cs' where "p_cur s t = None" "p_calls s t = c # cs'" | c where "p_cur s t = Some (c, [])"
    | c op ops where "p_cur s t = Some (c, op # ops)"
    using assms(2) by (metis list.exhaust option.exhaust surj_pair)
  then show ?thesis using None by cases (blast intro: producer_step.intros)+
next
  case (Some u)
  with assms(1) obtain c pre ops where cur: "p_cur s u = Some (c, ops)" "pre @ ops = body_ops c" "ops \<noteq> []"
    by (rule reach_held)
  then obtain op ops' where "ops = op # ops'" by (cases ops) auto
  with cur body_split(1) [of pre op ops' c] show ?thesis by (blast intro: producer_step.exec)
qed

section \<open>Examples\<close>

definition demo_calls :: "nat \<Rightarrow> rec_call list" where
  "demo_calls t = (if t = 0 then [(0, 1, ''boot'')] else if t = 1 then [(0, 2, ''net'')] else [])"

text \<open>Thread 0 has written the head of its record while thread 1 waits for the mutex.\<close>

lemma demo_producers:
  "\<exists>s. producers_reach demo_calls s \<and> ls_lock (p_store s) = Some 0 \<and> p_cur s 1 = Some ((0, 2, ''net''), call_ops (0, 2, ''net'')) \<and>
     p_done s = [] \<and> ls_contents (p_store s) = head_text 0 1"
proof -
  let ?c = "(0, 1, ''boot'') :: rec_call" and ?d = "(0, 2, ''net'') :: rec_call"
  let ?s0 = "init_producers demo_calls"
  let ?s1 = "?s0\<lparr>p_calls := (p_calls ?s0)(0 := []), p_cur := (p_cur ?s0)(0 \<mapsto> (?c, call_ops ?c))\<rparr>"
  let ?s2 = "?s1\<lparr>p_calls := (p_calls ?s1)(1 := []), p_cur := (p_cur ?s1)(1 \<mapsto> (?d, call_ops ?d))\<rparr>"
  have "producer_step ?s0 ?s1" by (rule producer_step.call) (simp_all add: init_producers_def demo_calls_def)
  moreover have "producer_step ?s1 ?s2" by (rule producer_step.call) (simp_all add: init_producers_def demo_calls_def)
  ultimately have r2: "producers_reach demo_calls ?s2" by (blast intro: producers_reach.intros)
  have c: "call_ops ?c = Mutex_lock # Fprintf_head 0 1 # [Fwrite ''boot'', Fputc NL, Fflush, Mutex_unlock]"
    by (simp add: call_ops_def append_ops_def)
  have "p_cur ?s2 0 = Some (?c, Mutex_lock # Fprintf_head 0 1 # [Fwrite ''boot'', Fputc NL, Fflush, Mutex_unlock])"
    by (simp add: c)
  from producers_reach.step [OF r2 producer_step.exec [OF this]] obtain s3 where s3: "producers_reach demo_calls s3"
    "p_store s3 = ls_exec 0 Mutex_lock (p_store ?s2)"
    "p_cur s3 = (p_cur ?s2)(0 \<mapsto> (?c, Fprintf_head 0 1 # [Fwrite ''boot'', Fputc NL, Fflush, Mutex_unlock]))" "p_done s3 = []"
    by (force simp: init_producers_def)
  have "p_cur s3 0 = Some (?c, Fprintf_head 0 1 # [Fwrite ''boot'', Fputc NL, Fflush, Mutex_unlock])" by (simp add: s3)
  from producers_reach.step [OF s3(1) producer_step.exec [OF this]] s3 show ?thesis
    by (force simp: init_producers_def ls_contents_def)
qed

theorem log_never_torn_witness:
  "\<exists>(s :: producers) c. ls_lock (p_store s) = Some 0 \<and> ls_contents (p_store s) = head_text 0 1 \<and> prefix (head_text 0 1) (fmt_call c)"
proof -
  obtain s where s: "producers_reach demo_calls s" "ls_lock (p_store s) = Some 0" "p_done s = []"
    "ls_contents (p_store s) = head_text 0 1"
    using demo_producers by blast
  from log_never_torn [OF s(1)] obtain c where "prefix (head_text 0 1) (fmt_call c)"
    unfolding s(3,4) by (auto simp del: split_paired_Ex)
  with s show ?thesis by blast
qed


theorem producers_progress_witness:
  "\<exists>s s'. ls_lock (p_store s) = Some 0 \<and> p_cur s 1 \<noteq> None \<and> producer_step s s'"
proof -
  obtain s where s: "producers_reach demo_calls s" "ls_lock (p_store s) = Some 0"
    "p_cur s 1 = Some ((0, 2, ''net''), call_ops (0, 2, ''net''))"
    using demo_producers by blast
  have "\<exists>s'. producer_step s s'" using producers_progress [OF s(1), of 1] s(3) by blast
  with s(2,3) show ?thesis by (elim exE) (intro exI [of _ s] exI, simp)
qed

end
