(* ===== verification/Vring.thy ===== *)
theory Vring
  imports Gpa
begin

text \<open>
  The split virtqueue of the virtio specification, as
  \<^verbatim>\<open>project_1/vhost/standard-headers/linux/virtio_ring.h\<close> declares it: the three rings in host
  memory (descriptor table, avail ring, used ring), read and written through their field
  addresses, and \<^verbatim>\<open>vring_need_event\<close>.  Both the student device (\<open>Virtq\<close>) and libvhost-user
  (\<open>Vu_Queue\<close>) work on this layout.  All hosts considered are little-endian, so the
  \<^verbatim>\<open>le16toh\<close> family is the identity.
\<close>

named_theorems vring "field addresses and flags of the rings"

section \<open>Flags and structures\<close>

definition VRING_DESC_F_NEXT :: u16 where [vring]: "VRING_DESC_F_NEXT = 1"
definition VRING_DESC_F_WRITE :: u16 where [vring]: "VRING_DESC_F_WRITE = 2"
definition VRING_DESC_F_INDIRECT :: u16 where [vring]: "VRING_DESC_F_INDIRECT = 4"
definition VRING_USED_F_NO_NOTIFY :: u16 where [vring]: "VRING_USED_F_NO_NOTIFY = 1"
definition VRING_AVAIL_F_NO_INTERRUPT :: u16 where [vring]: "VRING_AVAIL_F_NO_INTERRUPT = 1"
definition VIRTIO_RING_F_INDIRECT_DESC :: nat where [vring]: "VIRTIO_RING_F_INDIRECT_DESC = 28"
definition VIRTIO_RING_F_EVENT_IDX :: nat where [vring]: "VIRTIO_RING_F_EVENT_IDX = 29"

record vring_desc =
  d_addr :: u64
  d_dlen :: u32
  d_flags :: u16
  d_next :: u16

definition sizeof_vring_desc :: nat where [vring]: "sizeof_vring_desc = 16"

definition desc_at :: "hmem \<Rightarrow> u64 \<Rightarrow> nat \<Rightarrow> vring_desc" where
  "desc_at hm table i =
     (let p = table + of_nat (sizeof_vring_desc * i) in
      \<lparr>d_addr = ld64 hm p, d_dlen = ld32 hm (p + 8), d_flags = ld16 hm (p + 12), d_next = ld16 hm (p + 14)\<rparr>)"

definition has_flag :: "vring_desc \<Rightarrow> u16 \<Rightarrow> bool" where
  "has_flag d f = (d_flags d AND f \<noteq> 0)"

text \<open>\<^verbatim>\<open>struct vring_avail\<close>: flags, idx, ring of 16-bit heads.  \<^verbatim>\<open>struct vring_used\<close>: flags, idx,
  ring of 8-byte elements \<^verbatim>\<open>{id, len}\<close>.\<close>

definition avail_flags :: "hmem \<Rightarrow> u64 \<Rightarrow> u16" where "avail_flags hm avail = ld16 hm avail"
definition avail_idx :: "hmem \<Rightarrow> u64 \<Rightarrow> u16" where "avail_idx hm avail = ld16 hm (avail + 2)"
definition avail_ring :: "hmem \<Rightarrow> u64 \<Rightarrow> nat \<Rightarrow> u16" where
  "avail_ring hm avail i = ld16 hm (avail + 4 + of_nat (2 * i))"

definition used_flags :: "hmem \<Rightarrow> u64 \<Rightarrow> u16" where "used_flags hm used = ld16 hm used"
definition set_used_flags :: "u64 \<Rightarrow> u16 \<Rightarrow> hmem \<Rightarrow> hmem" where "set_used_flags used v hm = st16 hm used v"
definition used_idx :: "hmem \<Rightarrow> u64 \<Rightarrow> u16" where "used_idx hm used = ld16 hm (used + 2)"
definition set_used_idx :: "u64 \<Rightarrow> u16 \<Rightarrow> hmem \<Rightarrow> hmem" where "set_used_idx used v hm = st16 hm (used + 2) v"
definition used_elem :: "u64 \<Rightarrow> nat \<Rightarrow> u64" where "used_elem used i = used + 4 + of_nat (8 * i)"
definition used_id :: "hmem \<Rightarrow> u64 \<Rightarrow> nat \<Rightarrow> u32" where "used_id hm used i = ld32 hm (used_elem used i)"
definition used_len :: "hmem \<Rightarrow> u64 \<Rightarrow> nat \<Rightarrow> u32" where "used_len hm used i = ld32 hm (used_elem used i + 4)"
definition set_used_id :: "u64 \<Rightarrow> nat \<Rightarrow> u32 \<Rightarrow> hmem \<Rightarrow> hmem" where
  "set_used_id used i v hm = st32 hm (used_elem used i) v"
definition set_used_len :: "u64 \<Rightarrow> nat \<Rightarrow> u32 \<Rightarrow> hmem \<Rightarrow> hmem" where
  "set_used_len used i v hm = st32 hm (used_elem used i + 4) v"

section \<open>Event suppression\<close>

definition vring_need_event :: "u16 \<Rightarrow> u16 \<Rightarrow> u16 \<Rightarrow> bool" where
  "vring_need_event event_idx new_idx old = (new_idx - event_idx - 1 < new_idx - old)"

text \<open>The free-running indices the device passed when it went from \<open>old\<close> to \<open>new\<close>.\<close>

definition passed :: "u16 \<Rightarrow> u16 \<Rightarrow> u16 \<Rightarrow> bool" where
  "passed old new e = (\<exists>k < unat (new - old). e = old + of_nat k)"

lemma need_event_passed: "vring_need_event e new old \<longleftrightarrow> passed old new e"
proof -
  define n where "n = unat (new - old)"
  have n: "n < 65536" using unsigned_less [of "new - old", where 'a = nat] by (simp add: n_def)
  have new: "new = old + of_nat n" by (simp add: n_def)
  define k where "k = unat (e - old)"
  have k: "k < 65536" using unsigned_less [of "e - old", where 'a = nat] by (simp add: k_def)
  have e: "e = old + of_nat k" by (simp add: k_def)
  have un: "unat (of_nat n :: u16) = n" "unat (of_nat k :: u16) = k" using n k by (simp_all add: unat_of_nat)
  have diff: "new - e - 1 = of_nat n - of_nat k - (1 :: u16)" by (simp add: new e)
  have d: "unat (of_nat n - of_nat k - (1 :: u16)) = (if k < n then n - k - 1 else n + 65535 - k)"
  proof -
    have "unat (of_nat n - of_nat k :: u16) = (if k \<le> n then n - k else n + 65536 - k)"
      using un n k by (simp add: unat_sub_if')
    then show ?thesis using n k
      by (subst unat_sub_if') (auto simp: un split: if_splits)
  qed
  have "vring_need_event e new old \<longleftrightarrow> k < n"
    unfolding vring_need_event_def word_less_nat_alt diff d using n k by (auto simp: n_def [symmetric])
  moreover have "passed old new e \<longleftrightarrow> k < n"
  proof
    assume "passed old new e"
    then obtain j where j: "j < n" "e = old + of_nat j" by (auto simp: passed_def n_def)
    then have "k = j" using n by (simp add: k_def unat_of_nat)
    with j show "k < n" by simp
  next
    assume "k < n"
    then show "passed old new e" using e by (auto simp: passed_def n_def)
  qed
  ultimately show ?thesis by simp
qed

section \<open>Writes to the used ring\<close>

text \<open>The ring stores stay inside the ring: what they leave alone.\<close>

lemma used_idx_set_id [simp]:
  assumes "8 * i + 12 \<le> 2 ^ 64"
  shows "used_idx (set_used_id used i v hm) used = used_idx hm used"
    "used_idx (set_used_len used i v hm) used = used_idx hm used"
proof -
  have "apart (used + of_nat 2) 2 (used + of_nat (4 + 8 * i)) 4"
    by (rule apart_offsets) (use assms in auto)
  moreover have "apart (used + of_nat 2) 2 (used + of_nat (8 + 8 * i)) 4"
    by (rule apart_offsets) (use assms in auto)
  ultimately show "used_idx (set_used_id used i v hm) used = used_idx hm used"
    "used_idx (set_used_len used i v hm) used = used_idx hm used"
    by (simp_all add: used_idx_def set_used_id_def set_used_len_def used_elem_def ld16_def st32_def ld_st_apart
        algebra_simps)
qed

lemma used_idx_set [simp]: "used_idx (set_used_idx used v hm) used = v"
  by (simp add: used_idx_def set_used_idx_def ld_st_16)

lemma used_id_set_idx [simp]:
  assumes "8 * i + 12 \<le> 2 ^ 64"
  shows "used_id (set_used_idx used v hm) used i = used_id hm used i"
    "used_len (set_used_idx used v hm) used i = used_len hm used i"
proof -
  have "apart (used + of_nat (4 + 8 * i)) 4 (used + of_nat 2) 2"
    by (rule apart_offsets) (use assms in auto)
  moreover have "apart (used + of_nat (8 + 8 * i)) 4 (used + of_nat 2) 2"
    by (rule apart_offsets) (use assms in auto)
  ultimately show "used_id (set_used_idx used v hm) used i = used_id hm used i"
    "used_len (set_used_idx used v hm) used i = used_len hm used i"
    by (simp_all add: used_id_def used_len_def set_used_idx_def used_elem_def ld32_def st16_def ld_st_apart
        algebra_simps)
qed

lemma used_id_set_id:
  assumes "8 * i + 12 \<le> 2 ^ 64" and "8 * j + 12 \<le> 2 ^ 64"
  shows "used_id (set_used_id used j v hm) used i = (if i = j then v else used_id hm used i)"
    "used_id (set_used_len used j v hm) used i = used_id hm used i"
    "used_len (set_used_len used j v hm) used i = (if i = j then v else used_len hm used i)"
    "used_len (set_used_id used j v hm) used i = used_len hm used i"
proof -
  have a: "apart (used + of_nat (4 + 8 * i)) 4 (used + of_nat (4 + 8 * j)) 4" if "i \<noteq> j"
    by (rule apart_offsets) (use assms that in auto)
  have b: "apart (used + of_nat (4 + 8 * i)) 4 (used + of_nat (8 + 8 * j)) 4"
    by (rule apart_offsets, presburger) (use assms in auto)
  have c: "apart (used + of_nat (8 + 8 * i)) 4 (used + of_nat (8 + 8 * j)) 4" if "i \<noteq> j"
    by (rule apart_offsets) (use assms that in auto)
  have d: "apart (used + of_nat (8 + 8 * i)) 4 (used + of_nat (4 + 8 * j)) 4"
    by (rule apart_offsets, presburger) (use assms in auto)
  show "used_id (set_used_id used j v hm) used i = (if i = j then v else used_id hm used i)"
    using a by (auto simp: used_id_def set_used_id_def used_elem_def ld_st_32)
      (simp add: ld32_def st32_def ld_st_apart algebra_simps)
  show "used_id (set_used_len used j v hm) used i = used_id hm used i"
    using b by (simp add: used_id_def set_used_len_def used_elem_def ld32_def st32_def ld_st_apart algebra_simps)
  show "used_len (set_used_len used j v hm) used i = (if i = j then v else used_len hm used i)"
    using c by (auto simp: used_len_def set_used_len_def used_elem_def ld_st_32)
      (simp add: ld32_def st32_def ld_st_apart algebra_simps)
  show "used_len (set_used_id used j v hm) used i = used_len hm used i"
    using d by (simp add: used_len_def set_used_id_def used_elem_def ld32_def st32_def ld_st_apart algebra_simps)
qed

end
