(* ===== verification/Sink.thy ===== *)
theory Sink
  imports Logstore
begin

text \<open>
  \<^verbatim>\<open>project_1/vhost/sink.c\<close>: the log sink of the virtio backend.  A record's bytes are a line
  \<open><level> <message>\<close>; the sink strips the line end, reads a one-digit level and appends to
  the log store, whose contract (\<open>record_store\<close>) it relies on.
\<close>

record vlog_sink =
  sk_store :: logstore
  sk_seq :: u32

definition vlog_sink_open :: "bool \<Rightarrow> bool \<Rightarrow> bool \<Rightarrow> vlog_sink option" where
  "vlog_sink_open calloc_ok store_ok fopen_ok =
     (if \<not> calloc_ok then None
      else case logstore_open store_ok fopen_ok of
        None \<Rightarrow> None
      | Some ls \<Rightarrow> Some \<lparr>sk_store = ls, sk_seq = 0\<rparr>)"

definition vlog_sink_close :: "vlog_sink option \<Rightarrow> byte list option" where
  "vlog_sink_close s = (case s of None \<Rightarrow> None | Some sk \<Rightarrow> logstore_close (Some (sk_store sk)))"

text \<open>The loop that drops trailing line ends: the length that is left.\<close>

primrec strip_len :: "byte list \<Rightarrow> nat \<Rightarrow> nat" where
  "strip_len p 0 = 0"
| "strip_len p (Suc n) = (if p ! n = NL \<or> p ! n = CR then strip_len p n else Suc n)"

definition vlog_sink_emit :: "vlog_sink \<Rightarrow> byte list \<Rightarrow> nat \<Rightarrow> vlog_sink" where
  "vlog_sink_emit sk p n =
     (let len = strip_len p n in
      if len = 0 then sk
      else
        let (level, q) =
          (if 2 \<le> len \<and> is_digit (p ! 0) \<and> p ! 1 = SP
           then (of_nat (digit_val (p ! 0)), take (len - 2) (drop 2 p)) else (1, take len p))
        in sk\<lparr>sk_store := logstore_append (sk_store sk) (sk_seq sk) level q, sk_seq := sk_seq sk + 1\<rparr>)"

section \<open>What a line becomes\<close>

lemma strip_len_le: "strip_len p n \<le> n"
  by (induction n) auto

lemma strip_len_take: "n \<le> length p \<Longrightarrow> take (strip_len p n) p = rev (dropWhile (\<lambda>c. c = NL \<or> c = CR) (rev (take n p)))"
  by (induction n) (auto simp: take_Suc_conv_app_nth)

text \<open>The message of a line: level and text, or nothing for an empty line.\<close>

definition sink_line :: "byte list \<Rightarrow> (u32 \<times> byte list) option" where
  "sink_line bs =
     (let l = rev (dropWhile (\<lambda>c. c = NL \<or> c = CR) (rev bs)) in
      case l of
        [] \<Rightarrow> None
      | [c] \<Rightarrow> Some (1, l)
      | c # d # r \<Rightarrow> if is_digit c \<and> d = SP then Some (of_nat (digit_val c), r) else Some (1, l))"

lemma sink_emit_line:
  "vlog_sink_emit sk bs (length bs) =
     (case sink_line bs of
        None \<Rightarrow> sk
      | Some (level, q) \<Rightarrow>
          sk\<lparr>sk_store := logstore_append (sk_store sk) (sk_seq sk) level q, sk_seq := sk_seq sk + 1\<rparr>)"
proof -
  let ?k = "strip_len bs (length bs)"
  have t: "rev (dropWhile (\<lambda>c. c = NL \<or> c = CR) (rev bs)) = take ?k bs"
    using strip_len_take [of "length bs" bs] by simp
  have k: "?k \<le> length bs" by (rule strip_len_le)
  consider "?k = 0" | "?k = 1" | "2 \<le> ?k" by linarith
  then show ?thesis
  proof cases
    case 1
    then show ?thesis by (simp add: sink_line_def t vlog_sink_emit_def)
  next
    case 2
    with k obtain c r where "bs = c # r" by (cases bs) auto
    then show ?thesis unfolding sink_line_def t vlog_sink_emit_def Let_def 2 by simp
  next
    case 3
    with k obtain c d r where bs: "bs = c # d # r" by (cases bs; cases "tl bs") auto
    obtain k' where "?k = 2 + k'" using 3 le_Suc_ex by blast
    then have k': "?k = Suc (Suc k')" by simp
    then show ?thesis unfolding sink_line_def t vlog_sink_emit_def Let_def k' by (simp add: bs)
  qed
qed

text \<open>The abstract view: the messages a sink has recorded.\<close>

definition sink_abs :: "vlog_sink \<Rightarrow> rec_call list \<Rightarrow> bool" where
  "sink_abs sk cs = (ls_contents (sk_store sk) = concat (map fmt_call cs))"

lemma sink_emit_abs:
  assumes "sink_abs sk cs"
  shows "sink_abs (vlog_sink_emit sk bs (length bs)) (cs @
    (case sink_line bs of None \<Rightarrow> [] | Some (level, q) \<Rightarrow> [(sk_seq sk, level, q)]))"
  using assms by (auto simp: sink_emit_line sink_abs_def ls.append_contents split: option.split)

lemma sink_emit_seq: "sk_seq (vlog_sink_emit sk bs (length bs)) = sk_seq sk + (if sink_line bs = None then 0 else 1)"
  by (auto simp: sink_emit_line split: option.split)

section \<open>Properties of the sink\<close>

text \<open>C28: What a guest writes as \<open><digit> <message>\<close> and a line end is recorded with that level
  and exactly that message, for every message that does not itself end in a line end.\<close>

theorem sink_line_roundtrip:
  assumes "level < 10" and "msg \<noteq> []" and "last msg \<noteq> NL" and "last msg \<noteq> CR"
    and "e = [] \<or> e = [NL] \<or> e = [CR, NL]"
  shows "vlog_sink_emit sk (digit level # SP # msg @ e) (length (digit level # SP # msg @ e)) =
    sk\<lparr>sk_store := logstore_append (sk_store sk) (sk_seq sk) (of_nat level) msg, sk_seq := sk_seq sk + 1\<rparr>"
proof -
  obtain m0 c where m: "msg = m0 @ [c]" using assms(2) by (cases msg rule: rev_cases) auto
  have "rev (dropWhile (\<lambda>c. c = NL \<or> c = CR) (rev (digit level # SP # msg @ e))) = digit level # SP # msg"
    using assms m by auto
  then show ?thesis using digit_facts(1,2) [OF assms(1)] m
    unfolding sink_emit_line sink_line_def by (simp add: Let_def)
qed

theorem sink_line_roundtrip_witness:
  "ls_contents (sk_store (vlog_sink_emit \<lparr>sk_store = \<lparr>ls_buf = [], ls_disk = [], ls_lock = None\<rparr>, sk_seq = 7\<rparr>
     (digit 3 # SP # ''disk'' @ [NL]) (length (digit 3 # SP # ''disk'' @ [NL])))) = fmt_record 7 3 ''disk''"
  using sink_line_roundtrip [of 3 "''disk''" "[NL]" "\<lparr>sk_store = \<lparr>ls_buf = [], ls_disk = [], ls_lock = None\<rparr>, sk_seq = 7\<rparr>"]
  by (simp add: ls.append_contents del: length_Cons) (simp add: ls_contents_def)

end
