(* ===== verification/Virtq.thy ===== *)
theory Virtq
  imports Vring Sink
begin

text \<open>
  \<^verbatim>\<open>project_1/vhost/virtio.c\<close> and \<^verbatim>\<open>virtq.h\<close>: the virtqueue device.  Host memory is explicit, so
  what the guest put in the rings, the tables and the buffers is data of the model.  A walk over
  a descriptor chain may not end (an indirect table that refers to itself), so it is a
  \<^verbatim>\<open>partial_function\<close> in the option monad: \<open>None\<close> is the endless loop.  Division by the ring
  size is \<open>Inl DivByZero\<close> when it is 0.
\<close>

section \<open>Address translation\<close>

record virtq_mem_region =
  r_gpa :: u64
  r_size :: u64
  r_hva :: u64

type_synonym virtq_mem = "virtq_mem_region list"

fun virtq_gpa_to_hva_from :: "virtq_mem \<Rightarrow> u64 \<Rightarrow> u64 \<Rightarrow> u64 option" where
  "virtq_gpa_to_hva_from [] gpa len = None"
| "virtq_gpa_to_hva_from (r # rs) gpa len =
     (if gpa \<ge> r_gpa r \<and> gpa - r_gpa r < r_size r \<and> len \<le> r_size r - (gpa - r_gpa r)
      then Some (r_hva r + (gpa - r_gpa r)) else virtq_gpa_to_hva_from rs gpa len)"

definition virtq_gpa_to_hva :: "virtq_mem \<Rightarrow> u64 \<Rightarrow> u64 \<Rightarrow> u64 option" where
  "virtq_gpa_to_hva mem gpa len = (if len = 0 then None else virtq_gpa_to_hva_from mem gpa len)"

definition region_window :: "virtq_mem_region \<Rightarrow> window" where
  "region_window r = (r_gpa r, unat (r_size r), r_hva r)"

lemma region_guard:
  "(gpa \<ge> r_gpa r \<and> gpa - r_gpa r < r_size r \<and> len \<le> r_size r - (gpa - r_gpa r)) \<longleftrightarrow>
   unat (r_gpa r) \<le> unat gpa \<and> unat gpa < unat (r_gpa r) + unat (r_size r) \<and>
   unat gpa + unat len \<le> unat (r_gpa r) + unat (r_size r)"
proof (cases "gpa \<ge> r_gpa r \<and> gpa - r_gpa r < r_size r")
  case True
  then have o: "unat (gpa - r_gpa r) = unat gpa - unat (r_gpa r)" "unat (r_gpa r) \<le> unat gpa"
    by (auto simp: unat_sub word_le_nat_alt)
  have "unat (r_size r - (gpa - r_gpa r)) = unat (r_size r) - unat (gpa - r_gpa r)"
    using True by (intro unat_sub less_imp_le) simp
  with True o show ?thesis by (auto simp: word_le_nat_alt word_less_nat_alt)
next
  case False
  then show ?thesis by (auto simp: word_le_nat_alt word_less_nat_alt unat_sub)
qed

lemma gpa_to_hva_from_Some:
  "virtq_gpa_to_hva_from mem gpa len = Some p \<Longrightarrow> \<exists>r\<in>set mem. in_window (region_window r) gpa len \<and>
     p = host_of (region_window r) gpa"
  by (induction mem) (auto simp: region_guard in_window_def host_of_def region_window_def split: if_splits)

lemma gpa_to_hva_from_None:
  assumes "r \<in> set mem" and "in_window (region_window r) gpa len" and "0 < len"
  shows "virtq_gpa_to_hva_from mem gpa len \<noteq> None"
proof -
  have "0 < unat len" using assms(3) by (simp add: word_less_nat_alt)
  then show ?thesis using assms
    by (induction mem) (auto simp: region_guard in_window_def region_window_def)
qed

interpretation virtq_xlate: gpa_translation virtq_gpa_to_hva "\<lambda>mem. region_window ` set mem"
  by unfold_locales
    (auto simp: virtq_gpa_to_hva_def split: if_splits dest!: gpa_to_hva_from_Some dest: gpa_to_hva_from_None)

section \<open>The queue\<close>

record virtq =
  q_desc :: u64
  q_avail :: u64
  q_used :: u64
  q_num :: u16
  q_last_avail :: u16

definition VIRTQ_MAX_RECORD :: nat where "VIRTQ_MAX_RECORD = 4096"

text \<open>\<^verbatim>\<open>memcpy(rec + rec_len, data, cp_len)\<close> after the cap.\<close>

definition add_data :: "hmem \<Rightarrow> virtq_mem \<Rightarrow> vring_desc \<Rightarrow> byte list \<Rightarrow> byte list" where
  "add_data hm mem d rec =
     (case virtq_gpa_to_hva mem (d_addr d) (ucast (d_dlen d)) of
        None \<Rightarrow> rec
      | Some data \<Rightarrow>
          (let cp_len = (if unat (d_dlen d) > VIRTQ_MAX_RECORD - length rec
                         then VIRTQ_MAX_RECORD - length rec else unat (d_dlen d))
           in rec @ ld_bytes hm data cp_len))"

text \<open>The inner loop: table, its size, the index, the step counter and the record so far.\<close>

partial_function (option) walk ::
  "nat \<Rightarrow> virtq_mem \<Rightarrow> hmem \<Rightarrow> u64 \<Rightarrow> u32 \<Rightarrow> u16 \<Rightarrow> nat \<Rightarrow> byte list \<Rightarrow> byte list option" where
  "walk num mem hm table t_size i x rec =
     (if \<not> x < num then Some rec
      else if ucast i \<ge> t_size then Some rec
      else let d = desc_at hm table (unat i) in
      if has_flag d VRING_DESC_F_INDIRECT then
        (case virtq_gpa_to_hva mem (d_addr d) (ucast (d_dlen d)) of
           None \<Rightarrow> Some rec
         | Some t \<Rightarrow> walk num mem hm t (d_dlen d div of_nat sizeof_vring_desc) 0 x rec)
      else
        let rec' = (if has_flag d VRING_DESC_F_WRITE then rec else add_data hm mem d rec) in
        if has_flag d VRING_DESC_F_NEXT then walk num mem hm table t_size (d_next d) (x + 1) rec'
        else Some rec')"

text \<open>One chain: the record, and the completion of the chain on the used ring.\<close>

definition complete_chain :: "virtq \<Rightarrow> u16 \<Rightarrow> hmem \<Rightarrow> hmem" where
  "complete_chain vq head hm =
     (let i = unat (used_idx hm (q_used vq)) mod unat (q_num vq);
          hm1 = set_used_id (q_used vq) i (ucast head) hm;
          i1 = unat (used_idx hm1 (q_used vq)) mod unat (q_num vq);
          hm2 = set_used_len (q_used vq) i1 0 hm1
      in set_used_idx (q_used vq) (used_idx hm2 (q_used vq) + 1) hm2)"

record vq_run =
  run_vq :: virtq
  run_mem :: hmem
  run_sink :: vlog_sink
  run_chains :: nat

definition handle_chain :: "virtq_mem \<Rightarrow> vq_run \<Rightarrow> (ub + vq_run) option" where
  "handle_chain mem s =
     (let vq = run_vq s; hm = run_mem s in
      if q_num vq = 0 then Some (Inl DivByZero)
      else let head = avail_ring hm (q_avail vq) (unat (q_last_avail vq mod q_num vq)) in
      case walk (unat (q_num vq)) mem hm (q_desc vq) (ucast (q_num vq)) head 0 [] of
        None \<Rightarrow> None
      | Some rec \<Rightarrow> Some (Inr (s\<lparr>
          run_sink := (if rec \<noteq> [] then vlog_sink_emit (run_sink s) rec (length rec) else run_sink s),
          run_mem := complete_chain vq head hm,
          run_vq := vq\<lparr>q_last_avail := q_last_avail vq + 1\<rparr>,
          run_chains := run_chains s + 1\<rparr>)))"

partial_function (option) handle_loop :: "virtq_mem \<Rightarrow> u16 \<Rightarrow> vq_run \<Rightarrow> (ub + vq_run) option" where
  "handle_loop mem ready s =
     (if q_last_avail (run_vq s) = ready then Some (Inr s)
      else case handle_chain mem s of
        None \<Rightarrow> None
      | Some r \<Rightarrow> (case r of Inl e \<Rightarrow> Some (Inl e) | Inr s' \<Rightarrow> handle_loop mem ready s'))"

definition vlog_virtq_handle :: "virtq \<Rightarrow> virtq_mem \<Rightarrow> hmem \<Rightarrow> vlog_sink \<Rightarrow> (ub + vq_run) option" where
  "vlog_virtq_handle vq mem hm sk =
     handle_loop mem (avail_idx hm (q_avail vq)) \<lparr>run_vq = vq, run_mem = hm, run_sink = sk, run_chains = 0\<rparr>"

section \<open>The reference: which buffers a chain denotes\<close>

text \<open>A chain inside one table, at most \<open>n\<close> descriptors long.\<close>

fun chain_flat :: "hmem \<Rightarrow> u64 \<Rightarrow> nat \<Rightarrow> nat \<Rightarrow> u16 \<Rightarrow> vring_desc list" where
  "chain_flat hm table t_size 0 i = []"
| "chain_flat hm table t_size (Suc n) i =
     (if t_size \<le> unat i then []
      else let d = desc_at hm table (unat i) in
        d # (if has_flag d VRING_DESC_F_NEXT then chain_flat hm table t_size n (d_next d) else []))"

text \<open>A chain of the queue: it may go on in an indirect table.\<close>

fun chain_of :: "virtq_mem \<Rightarrow> hmem \<Rightarrow> u64 \<Rightarrow> nat \<Rightarrow> nat \<Rightarrow> u16 \<Rightarrow> vring_desc list" where
  "chain_of mem hm table t_size 0 i = []"
| "chain_of mem hm table t_size (Suc n) i =
     (if t_size \<le> unat i then []
      else let d = desc_at hm table (unat i) in
      if has_flag d VRING_DESC_F_INDIRECT then
        (case virtq_gpa_to_hva mem (d_addr d) (ucast (d_dlen d)) of
           None \<Rightarrow> []
         | Some t \<Rightarrow> chain_flat hm t (unat (d_dlen d) div sizeof_vring_desc) (Suc n) 0)
      else d # (if has_flag d VRING_DESC_F_NEXT then chain_of mem hm table t_size n (d_next d) else []))"

definition desc_data :: "hmem \<Rightarrow> virtq_mem \<Rightarrow> vring_desc \<Rightarrow> byte list" where
  "desc_data hm mem d =
     (if has_flag d VRING_DESC_F_WRITE then []
      else case virtq_gpa_to_hva mem (d_addr d) (ucast (d_dlen d)) of
        None \<Rightarrow> [] | Some p \<Rightarrow> ld_bytes hm p (unat (d_dlen d)))"

definition chain_record :: "hmem \<Rightarrow> virtq_mem \<Rightarrow> vring_desc list \<Rightarrow> byte list" where
  "chain_record hm mem ds = take VIRTQ_MAX_RECORD (concat (map (desc_data hm mem) ds))"

text \<open>No table reached through an indirect descriptor holds another one.\<close>

definition flat :: "hmem \<Rightarrow> u64 \<Rightarrow> nat \<Rightarrow> bool" where
  "flat hm table n = (\<forall>k<n. \<not> has_flag (desc_at hm table k) VRING_DESC_F_INDIRECT)"

definition nest_ok :: "virtq_mem \<Rightarrow> hmem \<Rightarrow> u64 \<Rightarrow> nat \<Rightarrow> bool" where
  "nest_ok mem hm table n = (\<forall>k<n. let d = desc_at hm table k in
     has_flag d VRING_DESC_F_INDIRECT \<longrightarrow>
       (\<forall>t. virtq_gpa_to_hva mem (d_addr d) (ucast (d_dlen d)) = Some t \<longrightarrow>
         flat hm t (unat (d_dlen d) div sizeof_vring_desc)))"

section \<open>The walk computes the reference\<close>

lemma add_data_take:
  assumes "length rec \<le> VIRTQ_MAX_RECORD"
  shows "(if has_flag d VRING_DESC_F_WRITE then rec else add_data hm mem d rec) =
    take VIRTQ_MAX_RECORD (rec @ desc_data hm mem d)"
proof -
  have t: "ld_bytes hm p (if n > k then k else n) = take k (ld_bytes hm p n)" for p n k
    using ld_bytes_take [of k n hm p] by simp
  show ?thesis using assms
    by (auto simp: add_data_def desc_data_def Let_def t ld_bytes_take [symmetric] split: option.split)
qed

lemma take_more: "take n (take n (a @ b) @ c) = take n (a @ b @ c)"
  by (auto simp: min_def)

lemma u16_u32_le: "(ucast (i :: u16) :: u32) \<ge> t \<longleftrightarrow> unat t \<le> unat i"
  by (simp add: word_le_nat_alt)

lemma walk_flat:
  assumes "flat hm table (unat t_size)" and "length rec \<le> VIRTQ_MAX_RECORD" and "x + n = num"
  shows "walk num mem hm table t_size i x rec =
    Some (take VIRTQ_MAX_RECORD (rec @ concat (map (desc_data hm mem) (chain_flat hm table (unat t_size) n i))))"
  using assms(2,3)
proof (induction n arbitrary: x i rec)
  case 0
  then show ?case by (subst walk.simps) simp
next
  case (Suc n)
  show ?case
  proof (cases "unat t_size \<le> unat i")
    case True
    with Suc.prems show ?thesis by (subst walk.simps) (simp add: u16_u32_le)
  next
    case False
    then have d: "\<not> has_flag (desc_at hm table (unat i)) VRING_DESC_F_INDIRECT"
      using assms(1) by (simp add: flat_def)
    let ?d = "desc_at hm table (unat i)" and ?rec = "take VIRTQ_MAX_RECORD (rec @ desc_data hm mem (desc_at hm table (unat i)))"
    have "walk num mem hm table t_size i x rec =
        (if has_flag ?d VRING_DESC_F_NEXT then walk num mem hm table t_size (d_next ?d) (x + 1) ?rec else Some ?rec)"
      using d False Suc.prems(2) by (subst walk.simps) (simp add: u16_u32_le Let_def add_data_take [OF Suc.prems(1)])
    then show ?thesis
      using Suc.IH [of ?rec "x + 1" "d_next ?d"] Suc.prems False by (simp add: Let_def take_more del: take_append)
  qed
qed

lemma walk_chain:
  assumes "nest_ok mem hm table (unat t_size)" and "length rec \<le> VIRTQ_MAX_RECORD" and "x + n = num"
  shows "walk num mem hm table t_size i x rec =
    Some (take VIRTQ_MAX_RECORD (rec @ concat (map (desc_data hm mem) (chain_of mem hm table (unat t_size) n i))))"
  using assms(2,3)
proof (induction n arbitrary: x i rec)
  case 0
  then show ?case by (subst walk.simps) simp
next
  case (Suc n)
  let ?d = "desc_at hm table (unat i)"
  show ?case
  proof (cases "unat t_size \<le> unat i")
    case True
    with Suc.prems show ?thesis by (subst walk.simps) (simp add: u16_u32_le)
  next
    case False
    show ?thesis
    proof (cases "has_flag ?d VRING_DESC_F_INDIRECT")
      case True
      show ?thesis
      proof (cases "virtq_gpa_to_hva mem (d_addr ?d) (ucast (d_dlen ?d))")
        case None
        with True False Suc.prems show ?thesis by (subst walk.simps) (simp add: u16_u32_le Let_def)
      next
        case (Some t)
        have sz: "unat (d_dlen ?d div of_nat sizeof_vring_desc) = unat (d_dlen ?d) div sizeof_vring_desc"
          by (simp add: unat_div sizeof_vring_desc_def)
        have fl: "flat hm t (unat (d_dlen ?d div of_nat sizeof_vring_desc))"
          unfolding sz using assms(1) False True Some by (auto simp: nest_ok_def Let_def)
        have "walk num mem hm table t_size i x rec = walk num mem hm t (d_dlen ?d div of_nat sizeof_vring_desc) 0 x rec"
          using True False Some Suc.prems by (subst walk.simps) (simp add: u16_u32_le Let_def)
        also have "\<dots> = Some (take VIRTQ_MAX_RECORD (rec @ concat (map (desc_data hm mem)
            (chain_flat hm t (unat (d_dlen ?d) div sizeof_vring_desc) (Suc n) 0))))"
          using walk_flat [OF fl Suc.prems(1,2)] unfolding sz .
        finally show ?thesis using True False Some by (simp add: Let_def del: chain_flat.simps)
      qed
    next
      case ind: False
      let ?rec = "take VIRTQ_MAX_RECORD (rec @ desc_data hm mem ?d)"
      have "walk num mem hm table t_size i x rec =
          (if has_flag ?d VRING_DESC_F_NEXT then walk num mem hm table t_size (d_next ?d) (x + 1) ?rec else Some ?rec)"
        using ind False Suc.prems(2) by (subst walk.simps) (simp add: u16_u32_le Let_def add_data_take [OF Suc.prems(1)])
      then show ?thesis
        using Suc.IH [of ?rec "x + 1" "d_next ?d"] Suc.prems False ind by (simp add: Let_def take_more del: take_append)
    qed
  qed
qed

lemma walk_record:
  assumes "nest_ok mem hm (q_desc vq) (unat (q_num vq))"
  shows "walk (unat (q_num vq)) mem hm (q_desc vq) (ucast (q_num vq)) head 0 [] =
    Some (chain_record hm mem (chain_of mem hm (q_desc vq) (unat (q_num vq)) (unat (q_num vq)) head))"
  using walk_chain [of mem hm "q_desc vq" "ucast (q_num vq)" "[]" 0 "unat (q_num vq)"] assms
  by (simp add: chain_record_def)

section \<open>The endless loop\<close>

text \<open>An indirect descriptor whose table starts with a copy of itself is followed for ever.\<close>

lemmas walk_raw = walk.raw_induct [of _ "(((((((num, mem), hm), table), t_size), i), x), rec)", unfolded prod.case]
  for num mem hm table t_size i x rec

lemma walk_cycle:
  assumes t: "0 < t_size" and ind: "has_flag (desc_at hm table 0) VRING_DESC_F_INDIRECT"
    and self: "virtq_gpa_to_hva mem (d_addr (desc_at hm table 0)) (ucast (d_dlen (desc_at hm table 0))) = Some table"
    and sz: "t_size = d_dlen (desc_at hm table 0) div of_nat sizeof_vring_desc" and x: "x < num"
  shows "walk num mem hm table t_size 0 x rec = None"
proof (rule ccontr)
  assume "walk num mem hm table t_size 0 x rec \<noteq> None"
  then obtain r where r: "walk num mem hm table t_size 0 x rec = Some r" by auto
  define P where "P = (\<lambda>n me h ta ts i' x' (rec' :: byte list) (y :: byte list).
    \<not> (n = num \<and> me = mem \<and> h = hm \<and> ta = table \<and> ts = t_size \<and> i' = (0 :: u16) \<and> x' = x))"
  have "P num mem hm table t_size 0 x rec r"
  proof (rule walk_raw [where P = P, OF _ r])
    fix w :: "nat \<Rightarrow> virtq_mem \<Rightarrow> hmem \<Rightarrow> u64 \<Rightarrow> u32 \<Rightarrow> u16 \<Rightarrow> nat \<Rightarrow> byte list \<Rightarrow> byte list option"
      and n me h ta ts x' rec' y and i' :: u16
    assume IH: "\<And>me h ta ts i' x' rec' b y. w me h ta ts i' x' rec' b = Some y \<Longrightarrow> P me h ta ts i' x' rec' b y"
      and eq: "(if \<not> x' < n then Some rec'
      else if ucast i' \<ge> ts then Some rec'
      else let d = desc_at h ta (unat i') in
      if has_flag d VRING_DESC_F_INDIRECT then
        (case virtq_gpa_to_hva me (d_addr d) (ucast (d_dlen d)) of
           None \<Rightarrow> Some rec'
         | Some t \<Rightarrow> w n me h t (d_dlen d div of_nat sizeof_vring_desc) 0 x' rec')
      else
        let rec1 = (if has_flag d VRING_DESC_F_WRITE then rec' else add_data h me d rec') in
        if has_flag d VRING_DESC_F_NEXT then w n me h ta ts (d_next d) (x' + 1) rec1
        else Some rec1) = Some y"
    have nz: "\<not> (ucast (0 :: u16) \<ge> t_size)" using t by (simp add: not_le)
    show "P n me h ta ts i' x' rec' y"
    proof (rule ccontr)
      assume "\<not> P n me h ta ts i' x' rec' y"
      then have same: "n = num" "me = mem" "h = hm" "ta = table" "ts = t_size" "i' = 0" "x' = x"
        by (simp_all add: P_def)
      have "w num mem hm table t_size 0 x rec' = Some y"
        using eq x nz ind self sz by (simp add: same Let_def)
      from IH [OF this] show False by (simp add: P_def)
    qed
  qed
  then show False by (simp add: P_def)
qed

section \<open>Completing a chain\<close>

definition used_area :: "virtq \<Rightarrow> u64 set" where
  "used_area vq = {a. unat (a - q_used vq) < 4 + 8 * unat (q_num vq)}"

lemma st_off_frame: "off + length bs \<le> unat (a - base) \<Longrightarrow> st_bytes m (base + of_nat off) bs a = m a"
proof -
  assume h: "off + length bs \<le> unat (a - base)"
  have off: "off < 2 ^ 64" using h unsigned_less [of "a - base", where 'a = nat] by simp
  have "unat (a - (base + of_nat off)) = unat (a - base - of_nat off)" by (simp add: algebra_simps)
  also have "\<dots> = unat (a - base) - off"
    using h off by (subst unat_sub) (auto simp: word_le_nat_alt unat64)
  finally show ?thesis using h by (intro st_bytes_outside) simp
qed

lemma used_frame:
  assumes "a \<notin> used_area vq" and "i < unat (q_num vq)"
  shows "set_used_id (q_used vq) i v hm a = hm a" "set_used_len (q_used vq) i v hm a = hm a"
    "set_used_idx (q_used vq) w hm a = hm a"
proof -
  have o: "4 + 8 * unat (q_num vq) \<le> unat (a - q_used vq)" using assms(1) by (simp add: used_area_def not_less)
  have e: "used_elem (q_used vq) i = q_used vq + of_nat (4 + 8 * i)"
    "used_elem (q_used vq) i + 4 = q_used vq + of_nat (8 + 8 * i)"
    by (simp_all add: used_elem_def algebra_simps)
  have f: "4 + 8 * i + 4 \<le> unat (a - q_used vq)" "8 + 8 * i + 4 \<le> unat (a - q_used vq)" "2 + 2 \<le> unat (a - q_used vq)"
    using o assms(2) by linarith+
  show "set_used_id (q_used vq) i v hm a = hm a"
    unfolding set_used_id_def st32_def e(1) by (rule st_off_frame) (use f in simp)
  show "set_used_len (q_used vq) i v hm a = hm a"
    unfolding set_used_len_def st32_def e(2) by (rule st_off_frame) (use f in simp)
  show "set_used_idx (q_used vq) w hm a = hm a"
    using st_off_frame [of 2 "le_bytes 2 (unat w)" a "q_used vq" hm] f by (simp add: set_used_idx_def st16_def)
qed

definition slot :: "virtq \<Rightarrow> u16 \<Rightarrow> nat" where
  "slot vq idx = unat idx mod unat (q_num vq)"

lemma slot_bounds: "8 * slot vq idx + 12 \<le> 2 ^ 64"
proof -
  have "slot vq idx \<le> unat idx" by (simp add: slot_def)
  also have "\<dots> < 65536" using unsigned_less [of idx, where 'a = nat] by simp
  finally show ?thesis by simp
qed

lemma complete_chain_eq:
  "complete_chain vq head hm =
    (let i = slot vq (used_idx hm (q_used vq)) in
     set_used_idx (q_used vq) (used_idx hm (q_used vq) + 1)
       (set_used_len (q_used vq) i 0 (set_used_id (q_used vq) i (ucast head) hm)))"
  using slot_bounds [of vq "used_idx hm (q_used vq)"]
  by (simp add: complete_chain_def slot_def Let_def)

lemma complete_chain_idx: "used_idx (complete_chain vq head hm) (q_used vq) = used_idx hm (q_used vq) + 1"
  by (simp add: complete_chain_eq Let_def)

lemma complete_chain_elem:
  assumes "8 * k + 12 \<le> 2 ^ 64"
  shows "used_id (complete_chain vq head hm) (q_used vq) k =
      (if k = slot vq (used_idx hm (q_used vq)) then ucast head else used_id hm (q_used vq) k)"
    "used_len (complete_chain vq head hm) (q_used vq) k =
      (if k = slot vq (used_idx hm (q_used vq)) then 0 else used_len hm (q_used vq) k)"
  using assms slot_bounds [of vq "used_idx hm (q_used vq)"]
  by (simp_all add: complete_chain_eq Let_def used_id_set_id)

lemma complete_chain_frame:
  assumes "q_num vq \<noteq> 0" and "a \<notin> used_area vq"
  shows "complete_chain vq head hm a = hm a"
proof -
  have "slot vq (used_idx hm (q_used vq)) < unat (q_num vq)"
    using assms(1) by (simp add: slot_def unat_gt_0)
  then show ?thesis using assms(2) by (simp add: complete_chain_eq Let_def used_frame)
qed

section \<open>The loop\<close>

definition left :: "u16 \<Rightarrow> vq_run \<Rightarrow> nat" where
  "left ready s = unat (ready - q_last_avail (run_vq s))"

lemma left_0: "left ready s = 0 \<longleftrightarrow> q_last_avail (run_vq s) = ready"
  by (auto simp: left_def unat_eq_0)

lemma left_step:
  assumes "left ready s = Suc n" and "q_last_avail (run_vq s') = q_last_avail (run_vq s) + 1"
  shows "left ready s' = n"
proof -
  have "ready - q_last_avail (run_vq s) \<noteq> 0" using assms(1) by (auto simp: left_def)
  then have "unat (ready - q_last_avail (run_vq s) - 1) = unat (ready - q_last_avail (run_vq s)) - 1"
    by (rule unat_minus_one)
  then show ?thesis using assms by (simp add: left_def algebra_simps)
qed

lemma handle_chain_vq:
  assumes "handle_chain mem s = Some (Inr s')"
  shows "run_vq s' = (run_vq s)\<lparr>q_last_avail := q_last_avail (run_vq s) + 1\<rparr> \<and> run_chains s' = run_chains s + 1 \<and>
    q_num (run_vq s) \<noteq> 0 \<and>
    run_mem s' = complete_chain (run_vq s) (avail_ring (run_mem s) (q_avail (run_vq s))
      (unat (q_last_avail (run_vq s) mod q_num (run_vq s)))) (run_mem s)"
  using assms by (auto simp: handle_chain_def Let_def split: if_splits option.splits)

lemma handle_loop_step:
  assumes "left ready s = Suc n" and "handle_loop mem ready s = Some (Inr s')"
  shows "\<exists>s1. handle_chain mem s = Some (Inr s1) \<and> left ready s1 = n \<and> handle_loop mem ready s1 = Some (Inr s')"
proof -
  have ne: "q_last_avail (run_vq s) \<noteq> ready" using assms(1) left_0 [of ready s] by simp
  with assms(2) obtain s1 where s1: "handle_chain mem s = Some (Inr s1)" "handle_loop mem ready s1 = Some (Inr s')"
    by (subst (asm) handle_loop.simps) (auto split: option.splits sum.splits)
  moreover have "left ready s1 = n"
    using handle_chain_vq [OF s1(1)] by (intro left_step [OF assms(1)]) simp
  ultimately show ?thesis by blast
qed

lemma handle_loop_counts:
  assumes "handle_loop mem ready s = Some (Inr s')" and "left ready s = n"
  shows "run_chains s' = run_chains s + n \<and> run_vq s' = (run_vq s)\<lparr>q_last_avail := ready\<rparr> \<and>
    used_idx (run_mem s') (q_used (run_vq s)) = used_idx (run_mem s) (q_used (run_vq s)) + of_nat n \<and>
    (\<forall>a. a \<notin> used_area (run_vq s) \<longrightarrow> run_mem s' a = run_mem s a)"
  using assms
proof (induction n arbitrary: s)
  case 0
  then show ?case using left_0 [of ready s] by (subst (asm) handle_loop.simps) simp
next
  case (Suc n)
  obtain s1 where s1: "handle_chain mem s = Some (Inr s1)" "left ready s1 = n" "handle_loop mem ready s1 = Some (Inr s')"
    using handle_loop_step [OF Suc.prems(2,1)] by blast
  note v = handle_chain_vq [OF s1(1)]
  have "used_area (run_vq s1) = used_area (run_vq s)" using v by (simp add: used_area_def)
  then show ?case using Suc.IH [OF s1(3,2)] v by (simp add: complete_chain_idx complete_chain_frame)
qed

section \<open>What a guest gets from a kick\<close>

definition queue_record :: "virtq \<Rightarrow> virtq_mem \<Rightarrow> hmem \<Rightarrow> u16 \<Rightarrow> byte list" where
  "queue_record vq mem hm head =
     chain_record hm mem (chain_of mem hm (q_desc vq) (unat (q_num vq)) (unat (q_num vq)) head)"

definition emit_chain :: "virtq \<Rightarrow> virtq_mem \<Rightarrow> hmem \<Rightarrow> u16 \<Rightarrow> vlog_sink \<Rightarrow> vlog_sink" where
  "emit_chain vq mem hm head sk =
     (let rec = queue_record vq mem hm head in if rec \<noteq> [] then vlog_sink_emit sk rec (length rec) else sk)"

fun heads :: "virtq \<Rightarrow> hmem \<Rightarrow> u16 \<Rightarrow> nat \<Rightarrow> u16 list" where
  "heads vq hm la 0 = []"
| "heads vq hm la (Suc n) = avail_ring hm (q_avail vq) (unat (la mod q_num vq)) # heads vq hm (la + 1) n"

definition same_outside :: "virtq \<Rightarrow> hmem \<Rightarrow> hmem \<Rightarrow> bool" where
  "same_outside vq hm hm' = (\<forall>a. a \<notin> used_area vq \<longrightarrow> hm' a = hm a)"

text \<open>The device's own writes, which stay in the used ring, do not reach the avail ring, the
  descriptors or the buffers, and no indirect table holds an indirect descriptor.\<close>

definition undisturbed :: "virtq \<Rightarrow> virtq_mem \<Rightarrow> hmem \<Rightarrow> bool" where
  "undisturbed vq mem hm = (\<forall>hm'. same_outside vq hm hm' \<longrightarrow>
     nest_ok mem hm' (q_desc vq) (unat (q_num vq)) \<and>
     (\<forall>head. queue_record vq mem hm' head = queue_record vq mem hm head) \<and>
     (\<forall>k < unat (q_num vq). avail_ring hm' (q_avail vq) k = avail_ring hm (q_avail vq) k))"

definition same_queue :: "virtq \<Rightarrow> virtq \<Rightarrow> bool" where
  "same_queue vq vq' = (vq' = vq\<lparr>q_last_avail := q_last_avail vq'\<rparr>)"

lemma same_queueD:
  assumes "same_queue vq vq'"
  shows "q_desc vq' = q_desc vq" "q_avail vq' = q_avail vq" "q_used vq' = q_used vq" "q_num vq' = q_num vq"
    "used_area vq' = used_area vq" "same_outside vq' = same_outside vq" "slot vq' = slot vq"
    "queue_record vq' = queue_record vq"
proof -
  from assms obtain l where l: "vq' = vq\<lparr>q_last_avail := l\<rparr>" by (auto simp: same_queue_def)
  show "q_desc vq' = q_desc vq" "q_avail vq' = q_avail vq" "q_used vq' = q_used vq" "q_num vq' = q_num vq"
    "used_area vq' = used_area vq"
    by (simp_all add: l used_area_def)
  show "same_outside vq' = same_outside vq" "slot vq' = slot vq" "queue_record vq' = queue_record vq"
    by (intro ext, simp add: l same_outside_def used_area_def slot_def queue_record_def)+
qed

lemma handle_chain_spec:
  assumes u: "undisturbed vq mem hm" and sq: "same_queue vq (run_vq s)" and sm: "same_outside vq hm (run_mem s)"
    and n: "q_num vq \<noteq> 0"
  defines "head \<equiv> avail_ring hm (q_avail vq) (unat (q_last_avail (run_vq s) mod q_num vq))"
  shows "\<exists>s1. handle_chain mem s = Some (Inr s1) \<and> run_sink s1 = emit_chain vq mem hm head (run_sink s) \<and>
    run_mem s1 = complete_chain (run_vq s) head (run_mem s) \<and>
    q_last_avail (run_vq s1) = q_last_avail (run_vq s) + 1 \<and>
    same_queue vq (run_vq s1) \<and> same_outside vq hm (run_mem s1)"
proof -
  note q = same_queueD [OF sq]
  have lt: "unat (q_last_avail (run_vq s) mod q_num vq) < unat (q_num vq)"
    using n by (simp add: unat_mod unat_gt_0)
  have hd: "avail_ring (run_mem s) (q_avail vq) (unat (q_last_avail (run_vq s) mod q_num vq)) = head"
    using u sm lt by (simp add: undisturbed_def head_def)
  have ne: "nest_ok mem (run_mem s) (q_desc (run_vq s)) (unat (q_num (run_vq s)))"
    using u sm by (simp add: undisturbed_def q)
  have rec: "walk (unat (q_num vq)) mem (run_mem s) (q_desc vq) (ucast (q_num vq)) head 0 [] = Some (queue_record vq mem hm head)"
    using walk_record [OF ne, of head] u sm by (simp add: undisturbed_def queue_record_def q)
  have so: "same_outside vq hm (complete_chain (run_vq s) head (run_mem s))"
    using sm n by (simp add: same_outside_def complete_chain_frame q)
  show ?thesis
    using n so sq by (simp add: handle_chain_def Let_def q hd rec emit_chain_def same_queue_def)
qed

lemma handle_loop_spec:
  assumes u: "undisturbed vq mem hm" and n: "q_num vq \<noteq> 0"
  shows "same_queue vq (run_vq s) \<Longrightarrow> same_outside vq hm (run_mem s) \<Longrightarrow> left ready s = k \<Longrightarrow>
    \<exists>s'. handle_loop mem ready s = Some (Inr s') \<and>
      run_sink s' = fold (emit_chain vq mem hm) (heads vq hm (q_last_avail (run_vq s)) k) (run_sink s)"
proof (induction k arbitrary: s)
  case 0
  then show ?case using left_0 [of ready s] by (subst handle_loop.simps) simp
next
  case (Suc k)
  obtain s1 where s1: "handle_chain mem s = Some (Inr s1)"
    "run_sink s1 = emit_chain vq mem hm (avail_ring hm (q_avail vq) (unat (q_last_avail (run_vq s) mod q_num vq))) (run_sink s)"
    "q_last_avail (run_vq s1) = q_last_avail (run_vq s) + 1" "same_queue vq (run_vq s1)" "same_outside vq hm (run_mem s1)"
    using handle_chain_spec [OF u Suc.prems(1,2) n] by blast
  have "q_last_avail (run_vq s) \<noteq> ready" using Suc.prems(3) left_0 [of ready s] by simp
  then have "handle_loop mem ready s = handle_loop mem ready s1"
    using s1(1) by (subst handle_loop.simps) simp
  moreover have "left ready s1 = k" by (rule left_step [OF Suc.prems(3) s1(3)])
  ultimately show ?case using Suc.IH [OF s1(4,5)] s1(2,3) by simp
qed

text \<open>The slots of \<open>num\<close> consecutive indices are distinct when the ring size divides 2 ^ 16.\<close>

lemma slot_offset:
  assumes "unat (q_num vq) dvd 65536"
  shows "slot vq (idx + of_nat j) = (unat idx + j) mod unat (q_num vq)"
proof -
  have "unat (idx + of_nat j) = (unat idx + j) mod 65536"
    by (simp add: unat_word_ariths unat_of_nat mod_add_right_eq)
  then show ?thesis using assms by (simp add: slot_def mod_mod_cancel)
qed

lemma slot_distinct:
  assumes "unat (q_num vq) dvd 65536" and "0 < j" and "j < unat (q_num vq)"
  shows "slot vq (idx + of_nat j) \<noteq> slot vq idx"
proof
  assume "slot vq (idx + of_nat j) = slot vq idx"
  then have "(unat idx + j) mod unat (q_num vq) = (unat idx + 0) mod unat (q_num vq)"
    using slot_offset [OF assms(1), of idx j] by (simp add: slot_def)
  then have "unat (q_num vq) dvd j"
    using mod_eq_dvd_iff_nat [of "unat idx" "unat idx + j" "unat (q_num vq)"] by simp
  with assms show False by (simp add: nat_dvd_not_less)
qed

lemma handle_loop_ids:
  assumes u: "undisturbed vq mem hm" and n: "q_num vq \<noteq> 0" and pow: "unat (q_num vq) dvd 65536"
  shows "same_queue vq (run_vq s) \<Longrightarrow> same_outside vq hm (run_mem s) \<Longrightarrow> left ready s = k \<Longrightarrow>
    k \<le> unat (q_num vq) \<Longrightarrow> handle_loop mem ready s = Some (Inr s') \<Longrightarrow>
    (\<forall>j<k. used_id (run_mem s') (q_used vq) (slot vq (used_idx (run_mem s) (q_used vq) + of_nat j)) =
        ucast (heads vq hm (q_last_avail (run_vq s)) k ! j) \<and>
       used_len (run_mem s') (q_used vq) (slot vq (used_idx (run_mem s) (q_used vq) + of_nat j)) = 0) \<and>
    (\<forall>i. (\<forall>j<k. i \<noteq> slot vq (used_idx (run_mem s) (q_used vq) + of_nat j)) \<and> 8 * i + 12 \<le> 2 ^ 64 \<longrightarrow>
       used_id (run_mem s') (q_used vq) i = used_id (run_mem s) (q_used vq) i \<and>
       used_len (run_mem s') (q_used vq) i = used_len (run_mem s) (q_used vq) i)"
proof (induction k arbitrary: s)
  case 0
  then show ?case using left_0 [of ready s] by (subst (asm) handle_loop.simps) simp
next
  case (Suc k)
  let ?idx = "used_idx (run_mem s) (q_used vq)"
  let ?head = "avail_ring hm (q_avail vq) (unat (q_last_avail (run_vq s) mod q_num vq))"
  note q = same_queueD [OF Suc.prems(1)]
  obtain s1 where s1: "handle_chain mem s = Some (Inr s1)"
    "run_mem s1 = complete_chain (run_vq s) ?head (run_mem s)"
    "q_last_avail (run_vq s1) = q_last_avail (run_vq s) + 1" "same_queue vq (run_vq s1)" "same_outside vq hm (run_mem s1)"
    using handle_chain_spec [OF u Suc.prems(1,2) n] by blast
  have "q_last_avail (run_vq s) \<noteq> ready" using Suc.prems(3) left_0 [of ready s] by simp
  then have l1: "handle_loop mem ready s1 = Some (Inr s')"
    using s1(1) Suc.prems(5) by (subst (asm) handle_loop.simps) simp
  have lk: "left ready s1 = k" by (rule left_step [OF Suc.prems(3) s1(3)])
  have idx1: "used_idx (run_mem s1) (q_used vq) = ?idx + 1"
    using complete_chain_idx [of "run_vq s" ?head "run_mem s"] s1(2) by (simp add: q)
  note el = complete_chain_elem [of _ "run_vq s" ?head "run_mem s", folded s1(2), unfolded q]
  note ih = Suc.IH [OF s1(4,5) lk _ l1, unfolded idx1]
  have k: "k \<le> unat (q_num vq)" using Suc.prems(4) by simp
  have first: "\<forall>j<k. slot vq ?idx \<noteq> slot vq (?idx + 1 + of_nat j)"
  proof (intro allI impI)
    fix j assume "j < k"
    then show "slot vq ?idx \<noteq> slot vq (?idx + 1 + of_nat j)"
      using slot_distinct [OF pow, of "Suc j" ?idx] Suc.prems(4) by (simp add: algebra_simps)
  qed
  have z: "used_id (run_mem s') (q_used vq) (slot vq ?idx) = ucast ?head"
    "used_len (run_mem s') (q_used vq) (slot vq ?idx) = 0"
    using ih [OF k] first el [OF slot_bounds, of vq ?idx] slot_bounds [of vq ?idx] by auto
  show ?case
  proof (intro conjI allI impI)
    fix j assume "j < Suc k"
    then show "used_id (run_mem s') (q_used vq) (slot vq (?idx + of_nat j)) =
        ucast (heads vq hm (q_last_avail (run_vq s)) (Suc k) ! j)"
      "used_len (run_mem s') (q_used vq) (slot vq (?idx + of_nat j)) = 0"
      using z ih [OF k] s1(3) by (cases j; simp add: algebra_simps)+
  next
    fix i assume i: "(\<forall>j<Suc k. i \<noteq> slot vq (?idx + of_nat j)) \<and> 8 * i + 12 \<le> 2 ^ 64"
    then have ne: "i \<noteq> slot vq ?idx" by (auto dest: spec [of _ 0])
    have "\<forall>j<k. i \<noteq> slot vq (?idx + 1 + of_nat j)"
      using i by (auto simp: algebra_simps dest!: spec [of _ "Suc _"])
    then show "used_id (run_mem s') (q_used vq) i = used_id (run_mem s) (q_used vq) i"
      "used_len (run_mem s') (q_used vq) i = used_len (run_mem s) (q_used vq) i"
      using ih [OF k] i ne el [of i] by auto
  qed
qed

section \<open>What the device may look at\<close>

text \<open>The rings of the queue and the memory behind the guest's regions.\<close>

definition chain_area :: "virtq \<Rightarrow> virtq_mem \<Rightarrow> u64 set" where
  "chain_area vq mem =
     {q_desc vq + of_nat k | k. k < 16 * unat (q_num vq)} \<union>
     {q_avail vq + of_nat k | k. k < 4 + 2 * unat (q_num vq)} \<union>
     {a. \<exists>w\<in>region_window ` set mem. backed_by w a}"

definition readable :: "virtq \<Rightarrow> virtq_mem \<Rightarrow> u64 set" where
  "readable vq mem = chain_area vq mem \<union> {q_used vq + of_nat k | k. k < 4 + 8 * unat (q_num vq)}"

definition agree :: "u64 set \<Rightarrow> hmem \<Rightarrow> hmem \<Rightarrow> bool" where
  "agree A hm hm' = (\<forall>a\<in>A. hm' a = hm a)"

lemma agree_sym: "agree A hm hm' \<Longrightarrow> agree A hm' hm"
  by (simp add: agree_def)

lemma agree_ld_bytes: "agree A hm hm' \<Longrightarrow> (\<And>k. k < n \<Longrightarrow> p + of_nat k \<in> A) \<Longrightarrow> ld_bytes hm' p n = ld_bytes hm p n"
  by (rule ld_bytes_cong) (simp add: agree_def)

lemma agree_st: "agree A hm hm' \<Longrightarrow> agree A (st_bytes hm p bs) (st_bytes hm' p bs)"
  by (simp add: agree_def st_bytes_def)

lemma agree_field:
  assumes "agree A hm hm'" and "\<And>k. k < m \<Longrightarrow> base + of_nat k \<in> A" and "off + n \<le> m"
  shows "ld_bytes hm' (base + of_nat off) n = ld_bytes hm (base + of_nat off) n"
proof (rule agree_ld_bytes [OF assms(1)])
  fix k assume "k < n"
  then show "base + of_nat off + of_nat k \<in> A" using assms(2) [of "off + k"] assms(3) by (simp add: algebra_simps)
qed

definition table_in :: "u64 set \<Rightarrow> u64 \<Rightarrow> nat \<Rightarrow> bool" where
  "table_in A table n = (\<forall>k < 16 * n. table + of_nat k \<in> A)"

lemma agree_desc:
  assumes ag: "agree A hm hm'" and t: "table_in A table n" and i: "i < n"
  shows "desc_at hm' table i = desc_at hm table i"
proof -
  have f: "ld_bytes hm' (table + of_nat (16 * i + o1)) m = ld_bytes hm (table + of_nat (16 * i + o1)) m"
    if "o1 + m \<le> 16" for o1 m
    using that i t by (intro agree_field [OF ag, of "16 * n"]) (auto simp: table_in_def)
  show ?thesis
    using f [of 0 8] f [of 8 4] f [of 12 2] f [of 14 2]
    by (simp add: desc_at_def Let_def sizeof_vring_desc_def ld64_def ld32_def ld16_def algebra_simps)
qed

lemma translated_in:
  assumes "virtq_gpa_to_hva mem gpa len = Some p" and "k < unat len"
  shows "p + of_nat k \<in> chain_area vq mem"
  using virtq_xlate.bytes_backed [OF assms(1)] assms(2) by (auto simp: chain_area_def)

lemma agree_add_data:
  assumes "agree (chain_area vq mem) hm hm'"
  shows "add_data hm' mem d rec = add_data hm mem d rec"
proof (cases "virtq_gpa_to_hva mem (d_addr d) (ucast (d_dlen d))")
  case (Some p)
  have "ld_bytes hm' p n = ld_bytes hm p n" if "n \<le> unat (d_dlen d)" for n
    using that by (intro agree_ld_bytes [OF assms] translated_in [OF Some]) simp
  then show ?thesis using Some by (simp add: add_data_def Let_def)
qed (simp add: add_data_def)

lemma walk_agree:
  assumes ag: "agree (chain_area vq mem) hm hm'" and r: "walk num mem hm table t_size i x rec = Some r"
    and t: "table_in (chain_area vq mem) table (unat t_size)"
  shows "walk num mem hm' table t_size i x rec = Some r"
proof -
  define P where "P = (\<lambda>n me h ta ts i' x' (rec' :: byte list) (y :: byte list).
    me = mem \<and> h = hm \<and> table_in (chain_area vq mem) ta (unat ts) \<longrightarrow> walk n mem hm' ta ts i' x' rec' = Some y)"
  have "P num mem hm table t_size i x rec r"
  proof (rule walk_raw [where P = P, OF _ r])
    fix w :: "nat \<Rightarrow> virtq_mem \<Rightarrow> hmem \<Rightarrow> u64 \<Rightarrow> u32 \<Rightarrow> u16 \<Rightarrow> nat \<Rightarrow> byte list \<Rightarrow> byte list option"
      and n me h ta ts x' rec' y and i' :: u16
    assume IH: "\<And>me h ta ts i' x' rec' b y. w me h ta ts i' x' rec' b = Some y \<Longrightarrow> P me h ta ts i' x' rec' b y"
      and eq: "(if \<not> x' < n then Some rec'
      else if ucast i' \<ge> ts then Some rec'
      else let d = desc_at h ta (unat i') in
      if has_flag d VRING_DESC_F_INDIRECT then
        (case virtq_gpa_to_hva me (d_addr d) (ucast (d_dlen d)) of
           None \<Rightarrow> Some rec'
         | Some t \<Rightarrow> w n me h t (d_dlen d div of_nat sizeof_vring_desc) 0 x' rec')
      else
        let rec1 = (if has_flag d VRING_DESC_F_WRITE then rec' else add_data h me d rec') in
        if has_flag d VRING_DESC_F_NEXT then w n me h ta ts (d_next d) (x' + 1) rec1
        else Some rec1) = Some y"
    show "P n me h ta ts i' x' rec' y"
      unfolding P_def
    proof (intro impI, elim conjE)
      assume me: "me = mem" and h: "h = hm" and ta: "table_in (chain_area vq mem) ta (unat ts)"
      show "walk n mem hm' ta ts i' x' rec' = Some y"
      proof (cases "x' < n \<and> \<not> unat ts \<le> unat i'")
        case False
        then show ?thesis using eq by (subst walk.simps) (auto simp: u16_u32_le)
      next
        case True
        let ?d = "desc_at hm ta (unat i')"
        have d: "desc_at hm' ta (unat i') = ?d" using True by (intro agree_desc [OF ag ta]) simp
        have sub: "table_in (chain_area vq mem) t (unat (d_dlen ?d div of_nat sizeof_vring_desc))"
          if "virtq_gpa_to_hva mem (d_addr ?d) (ucast (d_dlen ?d)) = Some t" for t
          unfolding table_in_def
        proof (intro allI impI)
          fix k assume "k < 16 * unat (d_dlen ?d div of_nat sizeof_vring_desc)"
          then have "k < unat (d_dlen ?d)" by (simp add: unat_div sizeof_vring_desc_def)
          then show "t + of_nat k \<in> chain_area vq mem" using translated_in [OF that] by simp
        qed
        show ?thesis
          using eq True IH sub ta
          by (subst walk.simps)
            (auto simp: u16_u32_le d me h Let_def agree_add_data [OF ag] P_def split: option.splits if_splits)
      qed
    qed
  qed
  then show ?thesis using t by (simp add: P_def)
qed

lemma walk_agree_eq:
  assumes "agree (chain_area vq mem) hm hm'" and "table_in (chain_area vq mem) table (unat t_size)"
  shows "walk num mem hm' table t_size i x rec = walk num mem hm table t_size i x rec"
proof (cases "walk num mem hm table t_size i x rec")
  case (Some r)
  then show ?thesis using walk_agree [OF assms(1) Some assms(2)] by simp
next
  case None
  then show ?thesis using walk_agree [OF agree_sym [OF assms(1)] _ assms(2)]
    by (cases "walk num mem hm' table t_size i x rec") auto
qed

lemma agree_chain_area: "agree (readable vq mem) hm hm' \<Longrightarrow> agree (chain_area vq mem) hm hm'"
  by (simp add: agree_def readable_def)

lemma desc_table_in: "table_in (chain_area vq mem) (q_desc vq) (unat (q_num vq))"
  by (auto simp: table_in_def chain_area_def)

lemma agree_avail:
  assumes ag: "agree (chain_area vq mem) hm hm'"
  shows "avail_idx hm' (q_avail vq) = avail_idx hm (q_avail vq)"
    "k < unat (q_num vq) \<Longrightarrow> avail_ring hm' (q_avail vq) k = avail_ring hm (q_avail vq) k"
proof -
  have a: "j < 4 + 2 * unat (q_num vq) \<Longrightarrow> q_avail vq + of_nat j \<in> chain_area vq mem" for j
    by (auto simp: chain_area_def)
  show "avail_idx hm' (q_avail vq) = avail_idx hm (q_avail vq)"
    using agree_field [where m = "4 + 2 * unat (q_num vq)" and off = 2 and n = 2, OF ag a]
    by (simp add: avail_idx_def ld16_def)
  show "avail_ring hm' (q_avail vq) k = avail_ring hm (q_avail vq) k" if "k < unat (q_num vq)"
    using agree_field [where m = "4 + 2 * unat (q_num vq)" and off = "4 + 2 * k" and n = 2, OF ag a] that
    by (simp add: avail_ring_def ld16_def algebra_simps)
qed

lemma agree_used_idx:
  assumes ag: "agree (readable vq mem) hm hm'"
  shows "used_idx hm' (q_used vq) = used_idx hm (q_used vq)"
proof -
  have b: "j < 4 + 8 * unat (q_num vq) \<Longrightarrow> q_used vq + of_nat j \<in> readable vq mem" for j
    by (auto simp: readable_def)
  show ?thesis
    using agree_field [where m = "4 + 8 * unat (q_num vq)" and off = 2 and n = 2, OF ag b]
    by (simp add: used_idx_def ld16_def)
qed

text \<open>When the used ring shares no byte with the rest, the device's writes disturb nothing.\<close>

lemma agree_nest_ok:
  assumes ag: "agree (chain_area vq mem) hm hm'" and t: "table_in (chain_area vq mem) table n"
    and ok: "nest_ok mem hm table n"
  shows "nest_ok mem hm' table n"
  unfolding nest_ok_def Let_def
proof (intro allI impI)
  fix k p
  let ?d = "desc_at hm table k"
  assume k: "k < n" and ind: "has_flag (desc_at hm' table k) VRING_DESC_F_INDIRECT"
    and p: "virtq_gpa_to_hva mem (d_addr (desc_at hm' table k)) (ucast (d_dlen (desc_at hm' table k))) = Some p"
  have d: "desc_at hm' table k = ?d" by (rule agree_desc [OF ag t k])
  have p': "virtq_gpa_to_hva mem (d_addr ?d) (ucast (d_dlen ?d)) = Some p" using p d by simp
  have "table_in (chain_area vq mem) p (unat (d_dlen ?d) div sizeof_vring_desc)"
    unfolding table_in_def
  proof (intro allI impI)
    fix j assume "j < 16 * (unat (d_dlen ?d) div sizeof_vring_desc)"
    then have "j < unat (d_dlen ?d)" by (simp add: sizeof_vring_desc_def)
    then show "p + of_nat j \<in> chain_area vq mem" using translated_in [OF p'] by simp
  qed
  moreover have "flat hm p (unat (d_dlen ?d) div sizeof_vring_desc)"
    using ok k ind p' d by (simp add: nest_ok_def Let_def)
  ultimately show "flat hm' p (unat (d_dlen (desc_at hm' table k)) div sizeof_vring_desc)"
    using agree_desc [OF ag] unfolding d by (simp add: flat_def)
qed

lemma undisturbedI:
  assumes ok: "nest_ok mem hm (q_desc vq) (unat (q_num vq))" and "chain_area vq mem \<inter> used_area vq = {}"
  shows "undisturbed vq mem hm"
  unfolding undisturbed_def
proof (intro allI impI conjI)
  fix hm' assume "same_outside vq hm hm'"
  with assms(2) have ag: "agree (chain_area vq mem) hm hm'" by (auto simp: same_outside_def agree_def)
  show ok': "nest_ok mem hm' (q_desc vq) (unat (q_num vq))"
    by (rule agree_nest_ok [OF ag desc_table_in ok])
  show "queue_record vq mem hm' head = queue_record vq mem hm head" for head
    using walk_record [OF ok, of head] walk_record [OF ok', of head]
      walk_agree_eq [OF ag, of "q_desc vq" "ucast (q_num vq)" "unat (q_num vq)" head 0 "[]"] desc_table_in [of vq mem]
    by (simp add: queue_record_def)
  show "avail_ring hm' (q_avail vq) k = avail_ring hm (q_avail vq) k" if "k < unat (q_num vq)" for k
    using agree_avail(2) [OF ag that] .
qed

lemma agree_complete:
  assumes "agree (readable vq mem) hm hm'"
  shows "agree (readable vq mem) (complete_chain vq head hm) (complete_chain vq head hm')"
  using assms
  by (simp add: complete_chain_eq Let_def agree_used_idx set_used_idx_def set_used_len_def set_used_id_def
      st16_def st32_def agree_st)

text \<open>Two runs are related when they differ at most in memory the device may not look at.\<close>

definition run_agree :: "virtq_mem \<Rightarrow> vq_run \<Rightarrow> vq_run \<Rightarrow> bool" where
  "run_agree mem s t = (run_vq t = run_vq s \<and> run_sink t = run_sink s \<and> run_chains t = run_chains s \<and>
     agree (readable (run_vq s) mem) (run_mem s) (run_mem t))"

lemma readable_last [simp]: "readable (vq\<lparr>q_last_avail := l\<rparr>) mem = readable vq mem"
  by (simp add: readable_def chain_area_def)

lemma handle_chain_agree:
  assumes a: "run_agree mem s t"
  shows "rel_option (rel_sum (=) (run_agree mem)) (handle_chain mem s) (handle_chain mem t)"
proof -
  let ?vq = "run_vq s"
  from a have ag: "agree (readable ?vq mem) (run_mem s) (run_mem t)" and eq: "run_vq t = ?vq"
    "run_sink t = run_sink s" "run_chains t = run_chains s"
    by (simp_all add: run_agree_def)
  have lt: "q_num ?vq \<noteq> 0 \<Longrightarrow> unat (q_last_avail ?vq mod q_num ?vq) < unat (q_num ?vq)"
    by (simp add: unat_mod unat_gt_0)
  have w: "walk n mem (run_mem t) (q_desc ?vq) (ucast (q_num ?vq)) h x rec = walk n mem (run_mem s) (q_desc ?vq) (ucast (q_num ?vq)) h x rec"
    for n h x rec
    using desc_table_in [of ?vq mem] by (intro walk_agree_eq [OF agree_chain_area [OF ag]]) simp
  show ?thesis
    using agree_avail(2) [OF agree_chain_area [OF ag] lt] agree_complete [OF ag]
    by (auto simp: handle_chain_def Let_def eq w run_agree_def split: option.split)
qed

lemma handle_loop_agree:
  "run_agree mem s t \<Longrightarrow> left ready s = n \<Longrightarrow>
    rel_option (rel_sum (=) (run_agree mem)) (handle_loop mem ready s) (handle_loop mem ready t)"
proof (induction n arbitrary: s t)
  case 0
  then have "q_last_avail (run_vq s) = ready" "q_last_avail (run_vq t) = ready"
    using left_0 [of ready s] by (simp_all add: run_agree_def)
  then show ?case using 0(1) by (subst handle_loop.simps, subst handle_loop.simps) simp
next
  case (Suc n)
  have ne: "q_last_avail (run_vq s) \<noteq> ready" "q_last_avail (run_vq t) \<noteq> ready"
    using Suc.prems left_0 [of ready s] by (auto simp: run_agree_def)
  note c = handle_chain_agree [OF Suc.prems(1)]
  show ?case
  proof (cases "handle_chain mem s")
    case None
    with c ne show ?thesis by (subst handle_loop.simps, subst handle_loop.simps) (simp add: option_rel_Some1)
  next
    case (Some r)
    with c obtain r' where r': "handle_chain mem t = Some r'" "rel_sum (=) (run_agree mem) r r'"
      by (auto simp: option_rel_Some1)
    show ?thesis
    proof (cases r)
      case (Inl e)
      with r' ne Some show ?thesis
        by (subst handle_loop.simps, subst handle_loop.simps) (cases r'; simp)
    next
      case (Inr s1)
      with r' obtain t1 where t1: "r' = Inr t1" "run_agree mem s1 t1" by (cases r') auto
      have "left ready s1 = n"
        using handle_chain_vq [of mem s s1] Some Inr by (intro left_step [OF Suc.prems(2)]) simp
      with Suc.IH [OF t1(2)] show ?thesis
        using Some Inr r'(1) t1(1) ne by (subst (1 2) handle_loop.simps) simp
    qed
  qed
qed

section \<open>Properties of the virtqueue device\<close>

definition demo_vq :: virtq where
  "demo_vq = \<lparr>q_desc = 0x1000, q_avail = 0x2000, q_used = 0x3000, q_num = 2, q_last_avail = 0\<rparr>"

definition demo_sink :: vlog_sink where
  "demo_sink = \<lparr>sk_store = \<lparr>ls_buf = [], ls_disk = [], ls_lock = None\<rparr>, sk_seq = 0\<rparr>"

definition demo_regions :: virtq_mem where
  "demo_regions = [\<lparr>r_gpa = 0x100000, r_size = 0x1000, r_hva = 0x9000\<rparr>]"

text \<open>One available chain: descriptor 0, the six bytes at guest address 0x100000.\<close>

definition demo_hm :: hmem where
  "demo_hm = st_bytes (st_bytes (st_bytes (\<lambda>_. NUL) 0x1000 [NUL, NUL, CHR 0x10, NUL, NUL, NUL, NUL, NUL, CHR 0x06])
     0x2000 [NUL, NUL, CHR 0x01]) 0x9000 ''3 oops''"

lemma demo_disjoint: "chain_area demo_vq demo_regions \<inter> used_area demo_vq = {}"
proof -
  have "unat (a - 0x3000) \<ge> 20" if "a \<in> chain_area demo_vq demo_regions" for a
  proof -
    from that consider k where "k < 32" "a = 0x1000 + of_nat k" | k where "k < 8" "a = 0x2000 + of_nat k"
      | "unat (a - 0x9000) < 0x1000"
      by (auto simp: chain_area_def demo_vq_def demo_regions_def region_window_def backed_by_def)
    then show ?thesis
    proof cases
      case 1
      then have "unat a = 0x1000 + k" by (simp add: unat_word_ariths unat_of_nat)
      then show ?thesis using 1(1) by (simp add: unat_sub_if')
    next
      case 2
      then have "unat a = 0x2000 + k" by (simp add: unat_word_ariths unat_of_nat)
      then show ?thesis using 2(1) by (simp add: unat_sub_if')
    next
      case 3
      then show ?thesis by (simp add: unat_sub_if' split: if_splits)
    qed
  qed
  then show ?thesis by (fastforce simp: used_area_def demo_vq_def)
qed

lemma demo_descs: "d_flags (desc_at demo_hm 0x1000 0) = 0" "d_flags (desc_at demo_hm 0x1000 1) = 0"
  "d_addr (desc_at demo_hm 0x1000 0) = 0x100000" "d_dlen (desc_at demo_hm 0x1000 0) = 6"
  by (simp_all add: desc_at_def Let_def ld16_def ld32_def ld64_def ld_bytes_def upt_rec demo_hm_def st_bytes_def
      sizeof_vring_desc_def)

lemma demo_rings: "avail_idx demo_hm 0x2000 = 1" "avail_ring demo_hm 0x2000 0 = 0" "used_idx demo_hm 0x3000 = 0"
  by (simp_all add: avail_idx_def avail_ring_def used_idx_def ld16_def ld_bytes_def upt_rec demo_hm_def st_bytes_def)

lemma demo_undisturbed: "undisturbed demo_vq demo_regions demo_hm"
proof (rule undisturbedI [OF _ demo_disjoint])
  have "d_flags (desc_at demo_hm 0x1000 k) = 0" if "k < 2" for k
  proof -
    have "k = 0 \<or> k = 1" using that by auto
    then show ?thesis using demo_descs by auto
  qed
  then show "nest_ok demo_regions demo_hm (q_desc demo_vq) (unat (q_num demo_vq))"
    by (simp add: nest_ok_def demo_vq_def has_flag_def Let_def)
qed

lemma demo_record: "queue_record demo_vq demo_regions demo_hm 0 = ''3 oops''"
proof -
  have c: "chain_of demo_regions demo_hm 0x1000 2 2 0 = [desc_at demo_hm 0x1000 0]"
    using demo_descs by (simp add: numeral_2_eq_2 has_flag_def Let_def)
  have x: "virtq_gpa_to_hva demo_regions 0x100000 6 = Some 0x9000"
    by (simp add: virtq_gpa_to_hva_def demo_regions_def)
  have "ld_bytes demo_hm 0x9000 6 = ''3 oops''"
    by (simp add: demo_hm_def ld_st_same)
  then show ?thesis
    using c x demo_descs
    by (simp add: queue_record_def demo_vq_def chain_record_def desc_data_def has_flag_def VIRTQ_MAX_RECORD_def)
qed

lemma handle_run:
  assumes "undisturbed vq mem hm" and "q_num vq \<noteq> 0" and "unat (q_num vq) dvd 65536"
    and "n = unat (avail_idx hm (q_avail vq) - q_last_avail vq)" and "n \<le> unat (q_num vq)"
  shows "\<exists>s. vlog_virtq_handle vq mem hm sk = Some (Inr s) \<and> run_chains s = n \<and>
    run_vq s = vq\<lparr>q_last_avail := avail_idx hm (q_avail vq)\<rparr> \<and>
    run_sink s = fold (emit_chain vq mem hm) (heads vq hm (q_last_avail vq) n) sk \<and>
    used_idx (run_mem s) (q_used vq) = used_idx hm (q_used vq) + of_nat n \<and>
    (\<forall>j<n. used_id (run_mem s) (q_used vq) (slot vq (used_idx hm (q_used vq) + of_nat j)) =
        ucast (heads vq hm (q_last_avail vq) n ! j) \<and>
      used_len (run_mem s) (q_used vq) (slot vq (used_idx hm (q_used vq) + of_nat j)) = 0)"
proof -
  let ?s = "\<lparr>run_vq = vq, run_mem = hm, run_sink = sk, run_chains = 0\<rparr>"
  have l: "left (avail_idx hm (q_avail vq)) ?s = n" using assms(4) by (simp add: left_def)
  have sq: "same_queue vq (run_vq ?s)" "same_outside vq hm (run_mem ?s)"
    by (simp_all add: same_queue_def same_outside_def)
  obtain s where s: "handle_loop mem (avail_idx hm (q_avail vq)) ?s = Some (Inr s)"
    "run_sink s = fold (emit_chain vq mem hm) (heads vq hm (q_last_avail vq) n) sk"
    using handle_loop_spec [OF assms(1,2) sq l] by auto
  show ?thesis
    using s handle_loop_counts [OF s(1) l] handle_loop_ids [OF assms(1-3) sq l assms(5) s(1)]
    by (auto simp: vlog_virtq_handle_def)
qed

text \<open>C2: A kick with \<open>n\<close> chains ready processes exactly those: each chain's record (its readable
  buffers, concatenated, at most 4096 bytes) goes to the sink in order, each head is completed
  on the used ring in order with length 0, and both indices advance by \<open>n\<close>.\<close>

theorem virtq_handle_spec:
  assumes "undisturbed vq mem hm" and "q_num vq \<noteq> 0" and "unat (q_num vq) dvd 65536"
    and "n = unat (avail_idx hm (q_avail vq) - q_last_avail vq)" and "n \<le> unat (q_num vq)"
  shows "\<exists>s. vlog_virtq_handle vq mem hm sk = Some (Inr s) \<and> run_chains s = n \<and>
    run_vq s = vq\<lparr>q_last_avail := avail_idx hm (q_avail vq)\<rparr> \<and>
    run_sink s = fold (emit_chain vq mem hm) (heads vq hm (q_last_avail vq) n) sk \<and>
    used_idx (run_mem s) (q_used vq) = used_idx hm (q_used vq) + of_nat n \<and>
    (\<forall>j<n. used_id (run_mem s) (q_used vq) (slot vq (used_idx hm (q_used vq) + of_nat j)) =
        ucast (heads vq hm (q_last_avail vq) n ! j) \<and>
      used_len (run_mem s) (q_used vq) (slot vq (used_idx hm (q_used vq) + of_nat j)) = 0)"
  by (rule handle_run [OF assms])

theorem virtq_handle_spec_witness:
  "\<exists>s. vlog_virtq_handle demo_vq demo_regions demo_hm \<lparr>sk_store = \<lparr>ls_buf = [], ls_disk = [], ls_lock = None\<rparr>, sk_seq = 0\<rparr> =
      Some (Inr s) \<and> run_chains s = 1 \<and> ls_contents (sk_store (run_sink s)) = fmt_record 0 3 ''oops'' \<and>
    used_idx (run_mem s) 0x3000 = 1"
proof -
  let ?sk = "\<lparr>sk_store = \<lparr>ls_buf = [], ls_disk = [], ls_lock = None\<rparr>, sk_seq = 0\<rparr> :: vlog_sink"
  have q: "q_num demo_vq \<noteq> 0" "unat (q_num demo_vq) dvd 65536" "1 \<le> unat (q_num demo_vq)"
    "1 = unat (avail_idx demo_hm (q_avail demo_vq) - q_last_avail demo_vq)"
    using demo_rings by (simp_all add: demo_vq_def)
  have h: "heads demo_vq demo_hm (q_last_avail demo_vq) 1 = [0]"
    using demo_rings by (simp add: demo_vq_def)
  have e: "emit_chain demo_vq demo_regions demo_hm 0 ?sk = vlog_sink_emit ?sk ''3 oops'' (length ''3 oops'')"
    by (simp add: emit_chain_def demo_record)
  have l: "sink_line ''3 oops'' = Some (3, ''oops'')"
    by (simp add: sink_line_def Let_def is_digit_def digit_val_def)
  from virtq_handle_spec [OF demo_undisturbed q(1,2,4,3), of ?sk]
  obtain s where s: "vlog_virtq_handle demo_vq demo_regions demo_hm ?sk = Some (Inr s)" "run_chains s = 1"
    "run_sink s = vlog_sink_emit ?sk ''3 oops'' (length ''3 oops'')" "used_idx (run_mem s) (q_used demo_vq) = 0 + 1"
    unfolding h using e demo_rings by (auto simp: demo_vq_def)
  have "ls_contents (sk_store (run_sink s)) = fmt_record 0 3 ''oops''"
    unfolding s(3) sink_emit_line l by (simp add: ls.append_contents) (simp add: ls_contents_def)
  then show ?thesis using s by (auto simp: demo_vq_def)
qed

text \<open>C13: A kick depends on nothing but the queue's rings and the memory behind the guest's
  regions: two host memories that agree there give the same result, so a guest cannot make the
  device log, or branch on, memory that is not its own.\<close>

theorem virtq_isolation:
  assumes "agree (readable vq mem) hm hm'"
  shows "rel_option (rel_sum (=) (run_agree mem)) (vlog_virtq_handle vq mem hm sk) (vlog_virtq_handle vq mem hm' sk)"
proof -
  have "run_agree mem \<lparr>run_vq = vq, run_mem = hm, run_sink = sk, run_chains = 0\<rparr>
      \<lparr>run_vq = vq, run_mem = hm', run_sink = sk, run_chains = 0\<rparr>"
    using assms by (simp add: run_agree_def)
  then show ?thesis
    using handle_loop_agree [OF _ refl] by (simp add: vlog_virtq_handle_def agree_avail(1) [OF agree_chain_area [OF assms]])
qed

theorem virtq_isolation_witness:
  "rel_option (rel_sum (=) (run_agree demo_regions)) (vlog_virtq_handle demo_vq demo_regions demo_hm demo_sink)
     (vlog_virtq_handle demo_vq demo_regions (demo_hm(0x20000 := CHR ''S'')) demo_sink)"
proof (rule virtq_isolation)
  have "0x20000 \<notin> readable demo_vq demo_regions"
  proof
    assume "0x20000 \<in> readable demo_vq demo_regions"
    then consider k where "k < 32" "(0x20000 :: u64) = 0x1000 + of_nat k" | k where "k < 8" "(0x20000 :: u64) = 0x2000 + of_nat k"
      | k where "k < 20" "(0x20000 :: u64) = 0x3000 + of_nat k" | "unat (0x20000 - 0x9000 :: u64) < 0x1000"
      by (auto simp: readable_def chain_area_def demo_vq_def demo_regions_def region_window_def backed_by_def)
    then show False
    proof cases
      case 1
      from 1(2) have "unat (0x20000 :: u64) = unat (0x1000 + of_nat k :: u64)" by (rule arg_cong)
      then show False using 1(1) by (simp add: unat_word_ariths unat_of_nat)
    next
      case 2
      from 2(2) have "unat (0x20000 :: u64) = unat (0x2000 + of_nat k :: u64)" by (rule arg_cong)
      then show False using 2(1) by (simp add: unat_word_ariths unat_of_nat)
    next
      case 3
      from 3(2) have "unat (0x20000 :: u64) = unat (0x3000 + of_nat k :: u64)" by (rule arg_cong)
      then show False using 3(1) by (simp add: unat_word_ariths unat_of_nat)
    qed simp
  qed
  then show "agree (readable demo_vq demo_regions) demo_hm (demo_hm(0x20000 := CHR ''S''))"
    by (auto simp: agree_def)
qed

text \<open>C7: Whatever the guest wrote into its rings and tables, a kick that returns has completed
  as many chains as the avail index announced (modulo 2 ^ 16), advanced the used index by that
  number and changed no byte outside the used ring.\<close>

theorem virtq_any_guest:
  assumes "vlog_virtq_handle vq mem hm sk = Some (Inr s)"
  shows "run_chains s = unat (avail_idx hm (q_avail vq) - q_last_avail vq) \<and>
    run_vq s = vq\<lparr>q_last_avail := avail_idx hm (q_avail vq)\<rparr> \<and>
    used_idx (run_mem s) (q_used vq) = used_idx hm (q_used vq) + (avail_idx hm (q_avail vq) - q_last_avail vq) \<and>
    (\<forall>a. a \<notin> used_area vq \<longrightarrow> run_mem s a = hm a)"
  using handle_loop_counts [OF assms [unfolded vlog_virtq_handle_def] refl] by (simp add: left_def)

theorem virtq_any_guest_witness:
  "\<exists>s. vlog_virtq_handle demo_vq [] demo_hm \<lparr>sk_store = \<lparr>ls_buf = [], ls_disk = [], ls_lock = None\<rparr>, sk_seq = 0\<rparr> =
     Some (Inr s) \<and> run_chains s = 1"
proof -
  let ?sk = "\<lparr>sk_store = \<lparr>ls_buf = [], ls_disk = [], ls_lock = None\<rparr>, sk_seq = 0\<rparr> :: vlog_sink"
  have "walk 2 [] demo_hm 0x1000 2 0 0 [] = Some []"
    using demo_descs by (subst walk.simps) (simp add: Let_def has_flag_def add_data_def virtq_gpa_to_hva_def)
  then have "\<exists>s. handle_chain [] \<lparr>run_vq = demo_vq, run_mem = demo_hm, run_sink = ?sk, run_chains = 0\<rparr> = Some (Inr s) \<and>
      q_last_avail (run_vq s) = 1"
    using demo_rings by (simp add: handle_chain_def Let_def demo_vq_def)
  then obtain s where "vlog_virtq_handle demo_vq [] demo_hm ?sk = Some (Inr s)"
    using demo_rings by (fastforce simp: vlog_virtq_handle_def handle_loop.simps demo_vq_def)
  then show ?thesis using virtq_any_guest demo_rings by (fastforce simp: demo_vq_def)
qed

text \<open>C29: A guest can hang the device: an indirect descriptor whose table begins with an indirect
  descriptor that denotes the table itself is followed for ever, because the loop does not
  count that step.\<close>

theorem virtq_hang:
  assumes q: "q_num vq \<noteq> 0" "avail_idx hm (q_avail vq) \<noteq> q_last_avail vq"
    and head: "head = avail_ring hm (q_avail vq) (unat (q_last_avail vq mod q_num vq))" "head < q_num vq"
    and d: "d = desc_at hm (q_desc vq) (unat head)" "has_flag d VRING_DESC_F_INDIRECT" "16 \<le> unat (d_dlen d)"
    and t: "virtq_gpa_to_hva mem (d_addr d) (ucast (d_dlen d)) = Some t"
    and cyc: "desc_at hm t 0 = d"
  shows "vlog_virtq_handle vq mem hm sk = None"
proof -
  let ?s = "\<lparr>run_vq = vq, run_mem = hm, run_sink = sk, run_chains = 0\<rparr>"
  let ?n = "d_dlen d div of_nat sizeof_vring_desc"
  have pos: "0 < ?n"
    using d(3) by (simp add: word_less_nat_alt unat_div sizeof_vring_desc_def)
  have num: "0 < unat (q_num vq)" using q(1) by (simp add: unat_gt_0)
  have lt: "\<not> unat (q_num vq) \<le> unat head" using head(2) by (simp add: word_less_nat_alt)
  have "walk (unat (q_num vq)) mem hm t ?n 0 0 [] = None"
    by (rule walk_cycle) (use pos cyc d t num in simp_all)
  then have w: "walk (unat (q_num vq)) mem hm (q_desc vq) (ucast (q_num vq)) head 0 [] = None"
    using num lt d t by (subst walk.simps) (simp add: u16_u32_le Let_def)
  then have "handle_chain mem ?s = None"
    using q(1) head(1) by (simp add: handle_chain_def Let_def)
  then show ?thesis using q(2) by (simp add: vlog_virtq_handle_def handle_loop.simps)
qed

text \<open>The table at guest address 0x100000 is one indirect descriptor that points to itself.\<close>

definition hang_hm :: hmem where
  "hang_hm = st_bytes (st_bytes (st_bytes (\<lambda>_. NUL)
     0x1000 [NUL, NUL, CHR 0x10, NUL, NUL, NUL, NUL, NUL, CHR 0x10, NUL, NUL, NUL, CHR 0x04])
     0x2000 [NUL, NUL, CHR 0x01])
     0x9000 [NUL, NUL, CHR 0x10, NUL, NUL, NUL, NUL, NUL, CHR 0x10, NUL, NUL, NUL, CHR 0x04]"

theorem virtq_hang_witness: "vlog_virtq_handle demo_vq demo_regions hang_hm demo_sink = None"
proof -
  have r: "avail_idx hang_hm 0x2000 = 1" "avail_ring hang_hm 0x2000 0 = 0"
    by (simp_all add: avail_idx_def avail_ring_def ld16_def ld_bytes_def upt_rec hang_hm_def st_bytes_def)
  have d: "desc_at hang_hm 0x1000 0 = \<lparr>d_addr = 0x100000, d_dlen = 16, d_flags = 4, d_next = 0\<rparr>"
    "desc_at hang_hm 0x9000 0 = \<lparr>d_addr = 0x100000, d_dlen = 16, d_flags = 4, d_next = 0\<rparr>"
    by (simp_all add: desc_at_def Let_def ld16_def ld32_def ld64_def ld_bytes_def upt_rec hang_hm_def st_bytes_def
        sizeof_vring_desc_def)
  have x: "virtq_gpa_to_hva demo_regions 0x100000 16 = Some 0x9000"
    by (simp add: virtq_gpa_to_hva_def demo_regions_def)
  show ?thesis
    by (rule virtq_hang [where head = 0 and d = "desc_at hang_hm 0x1000 0" and t = "0x9000"])
      (use r d x in \<open>simp_all add: demo_vq_def has_flag_def VRING_DESC_F_INDIRECT_def\<close>)
qed

lemma handle_ub_iff:
  "(\<exists>e. vlog_virtq_handle vq mem hm sk = Some (Inl e)) \<longleftrightarrow>
    q_num vq = 0 \<and> avail_idx hm (q_avail vq) \<noteq> q_last_avail vq"
proof -
  have ub: "q_num (run_vq s) = 0" if "handle_loop mem ready s = Some (Inl e)" "left ready s = n" for n ready s e
    using that
  proof (induction n arbitrary: s)
    case 0
    then show ?case using left_0 [of ready s] by (subst (asm) handle_loop.simps) simp
  next
    case (Suc n)
    then have "q_last_avail (run_vq s) \<noteq> ready" using left_0 [of ready s] by simp
    with Suc.prems(1) consider e' where "handle_chain mem s = Some (Inl e')"
      | s1 where "handle_chain mem s = Some (Inr s1)" "handle_loop mem ready s1 = Some (Inl e)"
      by (subst (asm) handle_loop.simps) (auto split: option.splits sum.splits)
    then show ?case
    proof cases
      case 1
      then show ?thesis by (auto simp: handle_chain_def Let_def split: if_splits option.splits)
    next
      case 2
      then have "q_num (run_vq s1) = 0"
        using Suc.IH [OF 2(2)] left_step [OF Suc.prems(2), of s1] handle_chain_vq [OF 2(1)] by simp
      then show ?thesis using handle_chain_vq [OF 2(1)] by simp
    qed
  qed
  show ?thesis
  proof
    assume "\<exists>e. vlog_virtq_handle vq mem hm sk = Some (Inl e)"
    then obtain e where e: "vlog_virtq_handle vq mem hm sk = Some (Inl e)" by blast
    have "avail_idx hm (q_avail vq) \<noteq> q_last_avail vq"
      using e by (auto simp: vlog_virtq_handle_def handle_loop.simps)
    then show "q_num vq = 0 \<and> avail_idx hm (q_avail vq) \<noteq> q_last_avail vq"
      using ub [OF e [unfolded vlog_virtq_handle_def] refl] by simp
  next
    assume "q_num vq = 0 \<and> avail_idx hm (q_avail vq) \<noteq> q_last_avail vq"
    then show "\<exists>e. vlog_virtq_handle vq mem hm sk = Some (Inl e)"
      by (auto simp: vlog_virtq_handle_def handle_loop.simps handle_chain_def)
  qed
qed


text \<open>A kick on a queue of size 0 divides by zero, and only such a kick is undefined.\<close>

theorem virtq_ub_iff:
  "(\<exists>e. vlog_virtq_handle vq mem hm sk = Some (Inl e)) \<longleftrightarrow>
    q_num vq = 0 \<and> avail_idx hm (q_avail vq) \<noteq> q_last_avail vq"
  by (rule handle_ub_iff)

end
