(* ===== verification/Vu_Base.thy ===== *)
theory Vu_Base
  imports Vring CText Sink
begin

text \<open>
  \<^verbatim>\<open>project_1/vhost/libvhost-user.c\<close> and \<^verbatim>\<open>.h\<close>, first part: the device context \<^verbatim>\<open>VuDev\<close>, the
  messages of the vhost-user protocol, and the way the library meets the world.  A library
  function is a computation \<open>'a vu\<close> over one state (\<open>vst\<close>): it returns, or it stops with
  undefined behaviour, a failed assertion or the end of the process.  The results of system
  calls come from oracles in the state (\<open>w_mmap\<close>, \<open>w_ok\<close>, \<open>w_fd\<close>, \<open>w_recv\<close>, \<open>w_send\<close>); what the
  library does to descriptors, mappings and callbacks is recorded in \<open>w_trace\<close>.  The globals
  of \<^verbatim>\<open>backend.c\<close> that its callbacks use are part of the state (\<open>g_sink\<close>, \<open>g_features\<close>).
\<close>

section \<open>Data\<close>

definition VHOST_USER_F_PROTOCOL_FEATURES :: nat where "VHOST_USER_F_PROTOCOL_FEATURES = 30"
definition VHOST_LOG_PAGE :: nat where "VHOST_LOG_PAGE = 4096"
definition VIRTQUEUE_MAX_SIZE :: nat where "VIRTQUEUE_MAX_SIZE = 1024"
definition VHOST_MEMORY_BASELINE_NREGIONS :: nat where "VHOST_MEMORY_BASELINE_NREGIONS = 8"
definition VHOST_USER_MAX_RAM_SLOTS :: nat where "VHOST_USER_MAX_RAM_SLOTS = 32"
definition VIRTIO_F_NOTIFY_ON_EMPTY :: nat where "VIRTIO_F_NOTIFY_ON_EMPTY = 24"
definition VIRTIO_F_VERSION_1 :: nat where "VIRTIO_F_VERSION_1 = 32"
definition VHOST_F_LOG_ALL :: nat where "VHOST_F_LOG_ALL = 26"
definition MAP_FAILED :: u64 where "MAP_FAILED = - 1"

datatype VhostUserProtocolFeature =
    F_MQ | F_LOG_SHMFD | F_RARP | F_REPLY_ACK | F_NET_MTU | F_BACKEND_REQ | F_CROSS_ENDIAN
  | F_CRYPTO_SESSION | F_PAGEFAULT | F_CONFIG | F_BACKEND_SEND_FD | F_HOST_NOTIFIER | F_INFLIGHT_SHMFD
  | F_INBAND_NOTIFICATIONS | F_CONFIGURE_MEM_SLOTS | F_SHARED_OBJECT

fun protocol_bit :: "VhostUserProtocolFeature \<Rightarrow> nat" where
  "protocol_bit F_MQ = 0"
| "protocol_bit F_LOG_SHMFD = 1"
| "protocol_bit F_RARP = 2"
| "protocol_bit F_REPLY_ACK = 3"
| "protocol_bit F_NET_MTU = 4"
| "protocol_bit F_BACKEND_REQ = 5"
| "protocol_bit F_CROSS_ENDIAN = 6"
| "protocol_bit F_CRYPTO_SESSION = 7"
| "protocol_bit F_PAGEFAULT = 8"
| "protocol_bit F_CONFIG = 9"
| "protocol_bit F_BACKEND_SEND_FD = 10"
| "protocol_bit F_HOST_NOTIFIER = 11"
| "protocol_bit F_INFLIGHT_SHMFD = 12"
| "protocol_bit F_INBAND_NOTIFICATIONS = 14"
| "protocol_bit F_CONFIGURE_MEM_SLOTS = 15"
| "protocol_bit F_SHARED_OBJECT = 18"

record vu_region =
  g_gpa :: u64
  g_size :: u64
  g_qva :: u64
  g_moff :: u64
  g_maddr :: u64

text \<open>\<^verbatim>\<open>struct vhost_vring_addr\<close> of the kernel's \<^verbatim>\<open>linux/vhost.h\<close>.\<close>

record vring_addr =
  va_index :: u32
  va_flags :: u32
  va_desc :: u64
  va_used :: u64
  va_avail :: u64
  va_log :: u64

record vu_ring =
  vr_num :: u32
  vr_desc :: u64
  vr_avail :: u64
  vr_used :: u64
  vr_log :: u64
  vr_flags :: u32

text \<open>\<^verbatim>\<open>VuVirtqInflightDesc\<close>: a descriptor in flight and the order it was fetched in.  The type is
  ordered by falling counter, the order the library resubmits in.\<close>

datatype inflight_desc = Inflight_desc (id_index: u16) (id_counter: u64)

instantiation inflight_desc :: linorder
begin

definition less_eq_inflight_desc :: "inflight_desc \<Rightarrow> inflight_desc \<Rightarrow> bool" where
  "a \<le> b \<longleftrightarrow> id_counter b < id_counter a \<or> (id_counter a = id_counter b \<and> id_index a \<le> id_index b)"

definition less_inflight_desc :: "inflight_desc \<Rightarrow> inflight_desc \<Rightarrow> bool" where
  "a < b \<longleftrightarrow> id_counter b < id_counter a \<or> (id_counter a = id_counter b \<and> id_index a < id_index b)"

instance
  by standard (auto simp: less_eq_inflight_desc_def less_inflight_desc_def intro: inflight_desc.expand)

end

text \<open>A queue; \<open>vq_handler\<close> names the installed handler (the callback table runs it).\<close>

record vu_virtq =
  vq_ring :: vu_ring
  vq_inflight :: u64
  vq_resubmit :: "inflight_desc list option"
  vq_resubmit_num :: u16
  vq_counter :: u64
  vq_last_avail :: u16
  vq_shadow_avail :: u16
  vq_used_idx :: u16
  vq_signalled_used :: u16
  vq_signalled_valid :: bool
  vq_notification :: bool
  vq_inuse :: u32
  vq_handler :: "nat option"
  vq_call_fd :: int
  vq_kick_fd :: int
  vq_err_fd :: int
  vq_enable :: u32
  vq_started :: bool
  vq_vra :: vring_addr

text \<open>A protocol message.  The payload is a union: 272 bytes, read through typed accessors.\<close>

record vmsg =
  m_request :: u32
  m_flags :: u32
  m_size :: u32
  m_payload :: "byte list"
  m_fds :: "int list"
  m_fd_num :: int
  m_data :: "byte list option"

definition sizeof_payload :: nat where "sizeof_payload = 272"

definition pl_get :: "nat \<Rightarrow> nat \<Rightarrow> vmsg \<Rightarrow> nat" where
  "pl_get off n v = le_val (take n (drop off (m_payload v)))"

definition pl_put :: "nat \<Rightarrow> nat \<Rightarrow> nat \<Rightarrow> vmsg \<Rightarrow> vmsg" where
  "pl_put off n x v = v\<lparr>m_payload := take off (m_payload v) @ le_bytes n x @ drop (off + n) (m_payload v)\<rparr>"

lemma pl_get_put: "off \<le> length (m_payload v) \<Longrightarrow> pl_get off n (pl_put off n x v) = x mod 256 ^ n"
  by (simp add: pl_get_def pl_put_def cmem)

definition pl_u64 :: "vmsg \<Rightarrow> u64" where "pl_u64 v = of_nat (pl_get 0 8 v)"
definition pl_index :: "vmsg \<Rightarrow> u32" where "pl_index v = of_nat (pl_get 0 4 v)"
definition pl_num :: "vmsg \<Rightarrow> u32" where "pl_num v = of_nat (pl_get 4 4 v)"

definition pl_addr :: "vmsg \<Rightarrow> vring_addr" where
  "pl_addr v = \<lparr>va_index = of_nat (pl_get 0 4 v), va_flags = of_nat (pl_get 4 4 v), va_desc = of_nat (pl_get 8 8 v),
     va_used = of_nat (pl_get 16 8 v), va_avail = of_nat (pl_get 24 8 v), va_log = of_nat (pl_get 32 8 v)\<rparr>"

text \<open>\<^verbatim>\<open>VhostUserMemoryRegion\<close> at an offset: guest address, size, user address, mmap offset.\<close>

definition pl_region :: "nat \<Rightarrow> vmsg \<Rightarrow> vu_region" where
  "pl_region off v = \<lparr>g_gpa = of_nat (pl_get off 8 v), g_size = of_nat (pl_get (off + 8) 8 v),
     g_qva = of_nat (pl_get (off + 16) 8 v), g_moff = of_nat (pl_get (off + 24) 8 v), g_maddr = 0\<rparr>"

text \<open>What one \<^verbatim>\<open>recvmsg\<close> and the \<^verbatim>\<open>read\<close> after it deliver.\<close>

record in_msg =
  in_rc :: int
  in_hdr :: "byte list"
  in_fds :: "int list option"
  in_rc2 :: int
  in_body :: "byte list"

datatype vu_event =
    Close int
  | Mmap u64 u64
  | Munmap u64 u64
  | Ev_write int
  | Set_watch int nat
  | Remove_watch int
  | Sent int vmsg
  | Set_features u64
  | Set_protocol_features u64
  | Queue_started nat bool
  | Panic string

record vst =
  d_sock :: int
  d_nregions :: u32
  d_regions :: "vu_region list"
  d_vq :: "vu_virtq list"
  d_inflight_fd :: int
  d_inflight_addr :: u64
  d_inflight_size :: u64
  d_log_call_fd :: int
  d_mutex :: bool
  d_backend_fd :: int
  d_log_size :: u64
  d_log_table :: u64
  d_features :: u64
  d_protocol_features :: u64
  d_broken :: bool
  d_max_queues :: u16
  d_panic_exits :: bool
  d_postcopy_ufd :: int
  d_postcopy_listening :: bool
  w_mem :: hmem
  w_trace :: "vu_event list"
  w_mmap :: "u64 list"
  w_ok :: "bool list"
  w_fd :: "int list"
  w_recv :: "in_msg list"
  w_send :: "bool list"
  w_stack :: "byte list"
  g_sink :: vlog_sink
  g_features :: u64

section \<open>Computations\<close>

datatype stop = Undef ub | Exited int | Diverges

datatype 'a vres = Ret 'a vst | Stop stop vst

type_synonym 'a vu = "vst \<Rightarrow> 'a vres"

definition vret :: "'a \<Rightarrow> 'a vu" where "vret a s = Ret a s"
definition vstop :: "stop \<Rightarrow> 'a vu" where "vstop e s = Stop e s"

definition vbind :: "'a vu \<Rightarrow> ('a \<Rightarrow> 'b vu) \<Rightarrow> 'b vu" where
  "vbind f g s = (case f s of Ret a s' \<Rightarrow> g a s' | Stop e s' \<Rightarrow> Stop e s')"

definition vseq :: "unit vu \<Rightarrow> 'b vu \<Rightarrow> 'b vu" where "vseq f g = vbind f (\<lambda>_. g)"
definition vget :: "(vst \<Rightarrow> 'a) \<Rightarrow> 'a vu" where "vget f s = Ret (f s) s"
definition vmod :: "(vst \<Rightarrow> vst) \<Rightarrow> unit vu" where "vmod f s = Ret () (f s)"
definition vwhen :: "bool \<Rightarrow> unit vu \<Rightarrow> unit vu" where "vwhen b f = (if b then f else vret ())"
definition vassert :: "bool \<Rightarrow> unit vu" where "vassert b = (if b then vret () else vstop (Undef AssertFailed))"
definition trace :: "vu_event \<Rightarrow> unit vu" where "trace e = vmod (\<lambda>s. s\<lparr>w_trace := w_trace s @ [e]\<rparr>)"

lemmas vu_defs = vret_def vstop_def vbind_def vseq_def vget_def vmod_def vwhen_def vassert_def trace_def

lemma vbind_Ret [simp]: "vbind f g s = Ret b t \<longleftrightarrow> (\<exists>a s'. f s = Ret a s' \<and> g a s' = Ret b t)"
  by (auto simp: vbind_def split: vres.split)

lemma vbind_vret [simp]: "vbind (vret a) f = f a"
  by (rule ext) (simp add: vbind_def vret_def)

lemma vbind_assoc: "vbind (vbind f g) h = vbind f (\<lambda>a. vbind (g a) h)"
  by (rule ext) (simp add: vbind_def split: vres.split)

fun vfor :: "nat list \<Rightarrow> (nat \<Rightarrow> unit vu) \<Rightarrow> unit vu" where
  "vfor [] f = vret ()"
| "vfor (i # is) f = vseq (f i) (vfor is f)"

text \<open>Queues and memory regions are arrays: an index outside is undefined behaviour.\<close>

definition vq_get :: "nat \<Rightarrow> vu_virtq vu" where
  "vq_get i = (\<lambda>s. if i < length (d_vq s) then Ret (d_vq s ! i) s else Stop (Undef OutOfBounds) s)"

definition vq_upd :: "nat \<Rightarrow> (vu_virtq \<Rightarrow> vu_virtq) \<Rightarrow> unit vu" where
  "vq_upd i f = (\<lambda>s. if i < length (d_vq s) then Ret () (s\<lparr>d_vq := (d_vq s)[i := f (d_vq s ! i)]\<rparr>)
     else Stop (Undef OutOfBounds) s)"

definition region_get :: "nat \<Rightarrow> vu_region vu" where
  "region_get i = (\<lambda>s. if i < length (d_regions s) then Ret (d_regions s ! i) s else Stop (Undef OutOfBounds) s)"

definition region_put :: "nat \<Rightarrow> vu_region \<Rightarrow> unit vu" where
  "region_put i r = (\<lambda>s. if i < length (d_regions s) then Ret () (s\<lparr>d_regions := (d_regions s)[i := r]\<rparr>)
     else Stop (Undef OutOfBounds) s)"

text \<open>The system calls: the next result of the oracle (failure when it is used up).\<close>

definition sys_close :: "int \<Rightarrow> unit vu" where "sys_close fd = trace (Close fd)"

definition sys_mmap :: "u64 \<Rightarrow> u64 vu" where
  "sys_mmap sz = (\<lambda>s. case w_mmap s of
      [] \<Rightarrow> Ret MAP_FAILED s
    | a # as \<Rightarrow> Ret a (s\<lparr>w_mmap := as, w_trace := w_trace s @ (if a = MAP_FAILED then [] else [Mmap a sz])\<rparr>))"

definition sys_munmap :: "u64 \<Rightarrow> u64 \<Rightarrow> unit vu" where "sys_munmap a sz = trace (Munmap a sz)"

text \<open>A call of which only success matters, \<^verbatim>\<open>eventfd_write\<close>, and a call that makes a descriptor.\<close>

definition sys_ok :: "bool vu" where
  "sys_ok = (\<lambda>s. case w_ok s of [] \<Rightarrow> Ret False s | b # bs \<Rightarrow> Ret b (s\<lparr>w_ok := bs\<rparr>))"

definition sys_eventfd :: "int \<Rightarrow> bool vu" where
  "sys_eventfd fd = vbind sys_ok (\<lambda>b. vseq (vwhen b (trace (Ev_write fd))) (vret b))"

definition sys_newfd :: "int vu" where
  "sys_newfd = (\<lambda>s. case w_fd s of [] \<Rightarrow> Ret (- 1) s | fd # fds \<Rightarrow> Ret fd (s\<lparr>w_fd := fds\<rparr>))"

section \<open>Features\<close>

definition has_feature :: "u64 \<Rightarrow> nat \<Rightarrow> bool vu" where
  "has_feature features fbit = vseq (vassert (fbit < 64)) (vret (features AND push_bit fbit 1 \<noteq> 0))"

definition vu_has_feature :: "nat \<Rightarrow> bool vu" where
  "vu_has_feature fbit = vbind (vget d_features) (\<lambda>f. has_feature f fbit)"

definition vu_has_protocol_feature :: "VhostUserProtocolFeature \<Rightarrow> bool vu" where
  "vu_has_protocol_feature p = vbind (vget d_protocol_features) (\<lambda>f. has_feature f (protocol_bit p))"

section \<open>Errors\<close>

text \<open>\<^verbatim>\<open>vu_panic\<close> marks the device broken and calls the panic callback, which either returns or
  ends the process (as the callback of \<^verbatim>\<open>backend.c\<close> does, with status 1).\<close>

definition vu_panic :: "string \<Rightarrow> unit vu" where
  "vu_panic msg = (\<lambda>s. let s' = s\<lparr>d_broken := True, w_trace := w_trace s @ [Panic msg]\<rparr> in
     if d_panic_exits s' then Stop (Exited 1) s' else Ret () s')"

section \<open>Address translation\<close>

text \<open>\<^verbatim>\<open>vu_gpa_to_va\<close>: the host address (0 for \<^verbatim>\<open>NULL\<close>) and the length it is good for.\<close>

fun gpa_to_va_from :: "vu_region list \<Rightarrow> u64 \<Rightarrow> u64 \<Rightarrow> u64 \<times> u64" where
  "gpa_to_va_from [] plen ga = (0, plen)"
| "gpa_to_va_from (r # rs) plen ga =
     (if ga \<ge> g_gpa r \<and> ga < g_gpa r + g_size r then
        (ga - g_gpa r + g_maddr r + g_moff r,
         if ga + plen > g_gpa r + g_size r then g_gpa r + g_size r - ga else plen)
      else gpa_to_va_from rs plen ga)"

definition live_regions :: "vst \<Rightarrow> vu_region list" where
  "live_regions s = take (unat (d_nregions s)) (d_regions s)"

definition vu_gpa_to_va :: "u64 \<Rightarrow> u64 \<Rightarrow> (u64 \<times> u64) vu" where
  "vu_gpa_to_va plen ga =
     (if plen = 0 then vret (0, plen) else vget (\<lambda>s. gpa_to_va_from (live_regions s) plen ga))"

fun qva_to_va_from :: "vu_region list \<Rightarrow> u64 \<Rightarrow> u64" where
  "qva_to_va_from [] qa = 0"
| "qva_to_va_from (r # rs) qa =
     (if qa \<ge> g_qva r \<and> qa < g_qva r + g_size r then qa - g_qva r + g_maddr r + g_moff r
      else qva_to_va_from rs qa)"

definition qva_to_va :: "u64 \<Rightarrow> u64 vu" where
  "qva_to_va qa = vget (\<lambda>s. qva_to_va_from (live_regions s) qa)"

end
