(* ===== verification/Vu_Msg.thy ===== *)
theory Vu_Msg
  imports Vu_Base
begin

text \<open>
  \<^verbatim>\<open>libvhost-user.c\<close>, second part: reading and writing protocol messages, one definition per
  request handler in the order of the file, \<^verbatim>\<open>vu_process_message\<close>, \<^verbatim>\<open>vu_dispatch\<close>, \<^verbatim>\<open>vu_init\<close>
  and \<^verbatim>\<open>vu_deinit\<close>.  A handler takes the message and returns whether a reply is wanted and
  the message as it left it.  The device implementation's callbacks (\<^verbatim>\<open>VuDevIface\<close> and the
  queue handlers) are the record \<open>callbacks\<close>, an argument of the handlers that call them.
\<close>

section \<open>Callbacks\<close>

record callbacks =
  cb_get_features :: "u64 vu option"
  cb_set_features :: "(u64 \<Rightarrow> unit vu) option"
  cb_get_protocol_features :: "u64 vu option"
  cb_set_protocol_features :: "(u64 \<Rightarrow> unit vu) option"
  cb_process_msg :: "(vmsg \<Rightarrow> (int \<times> bool \<times> vmsg) vu) option"
  cb_queue_set_started :: "(nat \<Rightarrow> bool \<Rightarrow> unit vu) option"
  cb_in_order :: "(nat \<Rightarrow> bool vu) option"
  cb_get_config :: "(byte list \<Rightarrow> u32 \<Rightarrow> (int \<times> byte list) vu) option"
  cb_set_config :: "(byte list \<Rightarrow> u32 \<Rightarrow> u32 \<Rightarrow> u32 \<Rightarrow> int vu) option"
  cb_get_shared_object :: "(byte list \<Rightarrow> int vu) option"
  cb_handler :: "nat \<Rightarrow> nat \<Rightarrow> unit vu"

definition vcall :: "(nat \<Rightarrow> bool \<Rightarrow> unit vu) option \<Rightarrow> nat \<Rightarrow> bool \<Rightarrow> unit vu" where
  "vcall cb i b = (case cb of None \<Rightarrow> vret () | Some f \<Rightarrow> f i b)"

section \<open>Names of requests\<close>

definition VHOST_USER_MAX :: u32 where "VHOST_USER_MAX = 42"

definition request_names :: "(nat \<times> string) list" where
  "request_names =
     [(0, ''VHOST_USER_NONE''), (1, ''VHOST_USER_GET_FEATURES''), (2, ''VHOST_USER_SET_FEATURES''),
      (3, ''VHOST_USER_SET_OWNER''), (4, ''VHOST_USER_RESET_OWNER''), (5, ''VHOST_USER_SET_MEM_TABLE''),
      (6, ''VHOST_USER_SET_LOG_BASE''), (7, ''VHOST_USER_SET_LOG_FD''), (8, ''VHOST_USER_SET_VRING_NUM''),
      (9, ''VHOST_USER_SET_VRING_ADDR''), (10, ''VHOST_USER_SET_VRING_BASE''), (11, ''VHOST_USER_GET_VRING_BASE''),
      (12, ''VHOST_USER_SET_VRING_KICK''), (13, ''VHOST_USER_SET_VRING_CALL''), (14, ''VHOST_USER_SET_VRING_ERR''),
      (15, ''VHOST_USER_GET_PROTOCOL_FEATURES''), (16, ''VHOST_USER_SET_PROTOCOL_FEATURES''),
      (17, ''VHOST_USER_GET_QUEUE_NUM''), (18, ''VHOST_USER_SET_VRING_ENABLE''), (19, ''VHOST_USER_SEND_RARP''),
      (20, ''VHOST_USER_NET_SET_MTU''), (21, ''VHOST_USER_SET_BACKEND_REQ_FD''), (22, ''VHOST_USER_IOTLB_MSG''),
      (23, ''VHOST_USER_SET_VRING_ENDIAN''), (24, ''VHOST_USER_GET_CONFIG''), (25, ''VHOST_USER_SET_CONFIG''),
      (28, ''VHOST_USER_POSTCOPY_ADVISE''), (29, ''VHOST_USER_POSTCOPY_LISTEN''), (30, ''VHOST_USER_POSTCOPY_END''),
      (31, ''VHOST_USER_GET_INFLIGHT_FD''), (32, ''VHOST_USER_SET_INFLIGHT_FD''), (33, ''VHOST_USER_GPU_SET_SOCKET''),
      (35, ''VHOST_USER_VRING_KICK''), (36, ''VHOST_USER_GET_MAX_MEM_SLOTS''), (37, ''VHOST_USER_ADD_MEM_REG''),
      (38, ''VHOST_USER_REM_MEM_REG''), (41, ''VHOST_USER_GET_SHARED_OBJECT''), (42, ''VHOST_USER_MAX'')]"

text \<open>A request the table has no entry for is a null pointer.\<close>

definition vu_request_to_string :: "u32 \<Rightarrow> string option" where
  "vu_request_to_string req =
     (if req < VHOST_USER_MAX then map_of request_names (unat req) else Some ''unknown'')"

section \<open>Message input and output\<close>

definition vmsg_close_fds :: "vmsg \<Rightarrow> unit vu" where
  "vmsg_close_fds v = vfor [0..<nat (m_fd_num v)] (\<lambda>i. sys_close (m_fds v ! i))"

definition vmsg_set_reply_u64 :: "vmsg \<Rightarrow> u64 \<Rightarrow> vmsg" where
  "vmsg_set_reply_u64 v val = pl_put 0 8 (unat val) (v\<lparr>m_flags := 0, m_size := 8, m_fd_num := 0\<rparr>)"

definition have_userfault :: "bool vu" where
  "have_userfault =
     vbind sys_newfd (\<lambda>ufd.
       if ufd < 0 then vret False
       else vbind sys_ok (\<lambda>ok. vseq (sys_close ufd) (vret ok)))"

definition hdr_bytes :: "vmsg \<Rightarrow> byte list" where
  "hdr_bytes v = le_bytes 4 (unat (m_request v)) @ le_bytes 4 (unat (m_flags v)) @ le_bytes 4 (unat (m_size v))"

definition set_hdr :: "byte list \<Rightarrow> vmsg \<Rightarrow> vmsg" where
  "set_hdr h v = v\<lparr>m_request := of_nat (le_val (take 4 h)), m_flags := of_nat (le_val (take 4 (drop 4 h))),
     m_size := of_nat (le_val (take 4 (drop 8 h)))\<rparr>"

definition overlay :: "byte list \<Rightarrow> byte list \<Rightarrow> byte list" where
  "overlay new old = new @ drop (length new) old"

definition sys_recv :: "in_msg vu" where
  "sys_recv = (\<lambda>s. case w_recv s of
      [] \<Rightarrow> Ret \<lparr>in_rc = - 1, in_hdr = [], in_fds = None, in_rc2 = - 1, in_body = []\<rparr> s
    | m # ms \<Rightarrow> Ret m (s\<lparr>w_recv := ms\<rparr>))"

text \<open>The interrupted calls that the two loops repeat are not results of the oracle.\<close>

definition vu_message_read_default :: "vmsg \<Rightarrow> (bool \<times> vmsg) vu" where
  "vu_message_read_default v =
     vbind sys_recv (\<lambda>m.
       if in_rc m < 0 then vseq (vu_panic ''Error while recvmsg'') (vret (False, v))
       else
         let v1 = (set_hdr (overlay (in_hdr m) (hdr_bytes v)) v)\<lparr>m_fd_num := 0\<rparr> in
         vbind (case in_fds m of
             None \<Rightarrow> vret v1
           | Some fds \<Rightarrow>
               vseq (vassert (4 * length fds < VHOST_MEMORY_BASELINE_NREGIONS))
                 (vret (v1\<lparr>m_fd_num := int (length fds), m_fds := fds @ drop (length fds) (m_fds v1)\<rparr>)))
         (\<lambda>v2.
           if m_size v2 > of_nat sizeof_payload then
             vseq (vu_panic ''Error: too big message request'') (vseq (vmsg_close_fds v2) (vret (False, v2)))
           else if m_size v2 \<noteq> 0 then
             (if in_rc2 m \<le> 0 then
                vseq (vu_panic ''Error while reading'') (vseq (vmsg_close_fds v2) (vret (False, v2)))
              else
                vseq (vassert (word_of_int (in_rc2 m) = m_size v2))
                  (vret (True, v2\<lparr>m_payload := overlay (in_body m) (m_payload v2)\<rparr>)))
           else vret (True, v2)))"

definition vu_message_write :: "int \<Rightarrow> vmsg \<Rightarrow> bool vu" where
  "vu_message_write conn_fd v =
     vseq (vassert (m_fd_num v \<le> int VHOST_MEMORY_BASELINE_NREGIONS)) (\<lambda>s.
       case w_send s of
         True # bs \<Rightarrow> Ret True (s\<lparr>w_send := bs, w_trace := w_trace s @ [Sent conn_fd v]\<rparr>)
       | bs \<Rightarrow> vseq (vu_panic ''Error while writing'') (vret False) (s\<lparr>w_send := tl bs\<rparr>))"

definition VHOST_USER_VERSION_MASK :: u32 where "VHOST_USER_VERSION_MASK = 0x3"
definition VHOST_USER_REPLY_MASK :: u32 where "VHOST_USER_REPLY_MASK = push_bit 2 1"
definition VHOST_USER_NEED_REPLY_MASK :: u32 where "VHOST_USER_NEED_REPLY_MASK = push_bit 3 1"
definition VHOST_USER_VERSION :: u32 where "VHOST_USER_VERSION = 1"

definition vu_send_reply :: "int \<Rightarrow> vmsg \<Rightarrow> bool vu" where
  "vu_send_reply conn_fd v =
     vu_message_write conn_fd
       (v\<lparr>m_flags := (m_flags v AND NOT VHOST_USER_VERSION_MASK) OR VHOST_USER_VERSION OR VHOST_USER_REPLY_MASK\<rparr>)"

definition lock_backend :: "unit vu" where "lock_backend = vmod (\<lambda>s. s\<lparr>d_mutex := True\<rparr>)"
definition unlock_backend :: "unit vu" where "unlock_backend = vmod (\<lambda>s. s\<lparr>d_mutex := False\<rparr>)"

definition msg_zero :: vmsg where
  "msg_zero = \<lparr>m_request = 0, m_flags = 0, m_size = 0, m_payload = replicate sizeof_payload NUL,
     m_fds = replicate 8 0, m_fd_num = 0, m_data = None\<rparr>"

definition vu_process_message_reply :: "vmsg \<Rightarrow> bool vu" where
  "vu_process_message_reply v =
     vbind
       (if m_flags v AND VHOST_USER_NEED_REPLY_MASK = 0 then vret True
        else vbind (vu_message_read_default msg_zero) (\<lambda>(ok, reply).
          if \<not> ok then vret False
          else if m_request reply \<noteq> m_request v then vret False
          else vret (pl_u64 reply = 0)))
       (\<lambda>result. vseq unlock_backend (vret result))"

section \<open>The dirty log\<close>

definition vu_log_kick :: "unit vu" where
  "vu_log_kick =
     vbind (vget d_log_call_fd) (\<lambda>fd.
       if fd \<noteq> - 1 then
         vbind (sys_eventfd fd) (\<lambda>ok. vwhen (\<not> ok) (vu_panic ''Error writing eventfd''))
       else vret ())"

definition vu_log_page :: "u64 \<Rightarrow> u64 \<Rightarrow> unit vu" where
  "vu_log_page log_table page =
     vmod (\<lambda>s. s\<lparr>w_mem := (w_mem s)(log_table + page div 8 :=
       char_of (unat (of_nat (of_char (w_mem s (log_table + page div 8))) OR push_bit (unat (page mod 8)) (1 :: u8))))\<rparr>)"

text \<open>The loop over pages, with fuel; \<open>log_fuel\<close> covers every range that does not wrap.\<close>

fun log_pages :: "nat \<Rightarrow> u64 \<Rightarrow> u64 \<Rightarrow> u64 \<Rightarrow> unit vu" where
  "log_pages 0 table page end_addr = vstop Diverges"
| "log_pages (Suc n) table page end_addr =
     (if page * of_nat VHOST_LOG_PAGE < end_addr
      then vseq (vu_log_page table page) (log_pages n table (page + 1) end_addr)
      else vret ())"

definition log_fuel :: "u64 \<Rightarrow> nat" where
  "log_fuel len = unat len div VHOST_LOG_PAGE + 3"

definition vu_log_write :: "u64 \<Rightarrow> u64 \<Rightarrow> unit vu" where
  "vu_log_write address len =
     vbind (vget d_features) (\<lambda>f. vbind (vget d_log_table) (\<lambda>table. vbind (vget d_log_size) (\<lambda>size'.
       if f AND push_bit VHOST_F_LOG_ALL 1 = 0 \<or> table = 0 \<or> len = 0 then vret ()
       else
         vseq (vassert (size' > (address + len - 1) div of_nat VHOST_LOG_PAGE div 8))
         (vseq (log_pages (log_fuel len) table (address div of_nat VHOST_LOG_PAGE) (address + len))
           vu_log_kick))))"

section \<open>Kicks\<close>

text \<open>The callback the library registers for a queue's kick descriptor; \<open>ok\<close> is \<^verbatim>\<open>eventfd_read\<close>.\<close>

definition vu_kick_cb :: "callbacks \<Rightarrow> nat \<Rightarrow> unit vu" where
  "vu_kick_cb cb index =
     vbind (vq_get index) (\<lambda>vq. vbind sys_ok (\<lambda>ok.
       if \<not> ok then vseq (vu_panic ''kick eventfd_read()'') (trace (Remove_watch (vq_kick_fd vq)))
       else case vq_handler vq of None \<Rightarrow> vret () | Some h \<Rightarrow> cb_handler cb h index))"

end
