(* ===== verification/Vu_Handlers.thy ===== *)
theory Vu_Handlers
  imports Vu_Msg
begin

text \<open>
  The request handlers of \<^verbatim>\<open>libvhost-user.c\<close>, in the order of the file.  Requests that name a
  queue by a number the library does not check index the array \<^verbatim>\<open>dev->vq\<close>; an index outside
  is \<open>Undef OutOfBounds\<close>.
\<close>

type_synonym handler = "vmsg \<Rightarrow> (bool \<times> vmsg) vu"

definition bit64 :: "nat \<Rightarrow> u64" where "bit64 n = push_bit n 1"

text \<open>A step that only sends the message through unchanged.\<close>

definition done_msg :: "bool \<Rightarrow> vmsg \<Rightarrow> (bool \<times> vmsg) vu" where
  "done_msg reply v = vret (reply, v)"

section \<open>Features and ownership\<close>

definition vu_get_features_exec :: "callbacks \<Rightarrow> handler" where
  "vu_get_features_exec cb v =
     (let base = bit64 VIRTIO_F_NOTIFY_ON_EMPTY OR bit64 VIRTIO_RING_F_INDIRECT_DESC OR bit64 VIRTIO_RING_F_EVENT_IDX OR
                 bit64 VIRTIO_F_VERSION_1 OR bit64 VHOST_F_LOG_ALL OR bit64 VHOST_USER_F_PROTOCOL_FEATURES
      in vbind (case cb_get_features cb of None \<Rightarrow> vret 0 | Some f \<Rightarrow> f) (\<lambda>x.
        done_msg True ((pl_put 0 8 (unat (base OR x)) v)\<lparr>m_size := 8, m_fd_num := 0\<rparr>)))"

definition vu_set_enable_all_rings :: "bool \<Rightarrow> unit vu" where
  "vu_set_enable_all_rings enabled =
     vbind (vget (\<lambda>s. unat (d_max_queues s))) (\<lambda>n.
       vfor [0..<n] (\<lambda>i. vq_upd i (\<lambda>q. q\<lparr>vq_enable := (if enabled then 1 else 0)\<rparr>)))"

definition vu_set_features_exec :: "callbacks \<Rightarrow> handler" where
  "vu_set_features_exec cb v =
     vseq (vmod (\<lambda>s. s\<lparr>d_features := pl_u64 v\<rparr>))
     (vbind (vu_has_feature VIRTIO_F_VERSION_1) (\<lambda>modern.
       if \<not> modern then
         vseq (vu_panic ''virtio legacy devices aren't supported by libvhost-user'') (done_msg False v)
       else
         vseq (vwhen (pl_u64 v AND of_nat VHOST_USER_F_PROTOCOL_FEATURES = 0) (vu_set_enable_all_rings True))
         (vseq (case cb_set_features cb of None \<Rightarrow> vret () | Some f \<Rightarrow> f (pl_u64 v))
           (done_msg False v))))"

definition vu_set_owner_exec :: handler where
  "vu_set_owner_exec v = done_msg False v"

definition vu_close_log :: "unit vu" where
  "vu_close_log =
     vbind (vget d_log_table) (\<lambda>table. vbind (vget d_log_size) (\<lambda>sz.
     vseq (vwhen (table \<noteq> 0) (vseq (sys_munmap table sz) (vmod (\<lambda>s. s\<lparr>d_log_table := 0\<rparr>))))
     (vbind (vget d_log_call_fd) (\<lambda>fd.
       vwhen (fd \<noteq> - 1) (vseq (sys_close fd) (vmod (\<lambda>s. s\<lparr>d_log_call_fd := - 1\<rparr>)))))))"

definition vu_reset_device_exec :: handler where
  "vu_reset_device_exec v = vseq (vu_set_enable_all_rings False) (done_msg False v)"

section \<open>Memory regions\<close>

text \<open>\<^verbatim>\<open>map_ring\<close> looks the three ring addresses up again; the result is whether one is missing.\<close>

definition map_ring :: "nat \<Rightarrow> bool vu" where
  "map_ring i =
     vbind (vq_get i) (\<lambda>q.
     vbind (qva_to_va (va_desc (vq_vra q))) (\<lambda>desc.
     vbind (qva_to_va (va_used (vq_vra q))) (\<lambda>used.
     vbind (qva_to_va (va_avail (vq_vra q))) (\<lambda>avail.
     vseq (vq_upd i (\<lambda>q. q\<lparr>vq_ring := (vq_ring q)\<lparr>vr_desc := desc, vr_used := used, vr_avail := avail\<rparr>\<rparr>))
       (vret (desc = 0 \<or> used = 0 \<or> avail = 0))))))"

text \<open>Per region: \<^verbatim>\<open>UFFDIO_REGISTER\<close>, its copy capability, \<^verbatim>\<open>mprotect\<close>; the two \<^verbatim>\<open>madvise\<close>
  calls only print on failure.\<close>

fun generate_faults_from :: "nat list \<Rightarrow> bool vu" where
  "generate_faults_from [] = vret True"
| "generate_faults_from (i # is) =
     vbind (region_get i) (\<lambda>r. vbind sys_ok (\<lambda>reg.
       if \<not> reg then vseq (vu_panic ''generate_faults: Failed to userfault region'') (vret False)
       else vbind sys_ok (\<lambda>copy.
         if \<not> copy then vseq (vu_panic ''generate_faults Region doesn't support COPY'') (vret False)
         else vbind sys_ok (\<lambda>prot.
           if \<not> prot then vseq (vu_panic ''failed to mprotect region for postcopy'') (vret False)
           else generate_faults_from is))))"

definition generate_faults :: "bool vu" where
  "generate_faults = vbind (vget (\<lambda>s. unat (d_nregions s))) (\<lambda>n. generate_faults_from [0..<n])"

text \<open>Remap the rings of every queue that has been set up.\<close>

definition remap_rings :: "string \<Rightarrow> unit vu" where
  "remap_rings why =
     vbind (vget (\<lambda>s. unat (d_max_queues s))) (\<lambda>n.
       vfor [0..<n] (\<lambda>i. vbind (vq_get i) (\<lambda>q.
         if vr_desc (vq_ring q) \<noteq> 0
         then vbind (map_ring i) (\<lambda>bad. vwhen bad (vu_panic why))
         else vret ())))"

text \<open>Fill a region from the message, keep its old mapping, then map it.\<close>

definition map_region :: "nat \<Rightarrow> vu_region \<Rightarrow> u64 vu" where
  "map_region i m =
     vbind (region_get i) (\<lambda>old.
     vseq (region_put i (m\<lparr>g_maddr := g_maddr old\<rparr>))
     (vbind (sys_mmap (g_size m + g_moff m)) (\<lambda>a.
       if a = MAP_FAILED then vseq (vu_panic ''region mmap error'') (vret a)
       else vseq (region_put i (m\<lparr>g_maddr := a\<rparr>)) (vret a))))"

definition MEM_REG_SIZE :: u32 where "MEM_REG_SIZE = 32"

definition vu_add_mem_reg :: handler where
  "vu_add_mem_reg v =
     vbind (vget d_postcopy_listening) (\<lambda>track.
     vbind (vget (\<lambda>s. unat (d_nregions s))) (\<lambda>n.
       if m_fd_num v \<noteq> 1 then
         vseq (vmsg_close_fds v) (vseq (vu_panic ''VHOST_USER_ADD_MEM_REG received the wrong number of fds'') (done_msg False v))
       else if m_size v < MEM_REG_SIZE then
         vseq (sys_close (m_fds v ! 0)) (vseq (vu_panic ''VHOST_USER_ADD_MEM_REG message too small'') (done_msg False v))
       else if n = VHOST_USER_MAX_RAM_SLOTS then
         vseq (sys_close (m_fds v ! 0)) (vseq (vu_panic ''no free ram slots available'') (done_msg False v))
       else if track \<and> m_size v = 8 \<and> pl_u64 v = 0 then
         vbind generate_faults (\<lambda>_. done_msg False v)
       else
         vbind (map_region n (pl_region 8 v)) (\<lambda>_.
         vseq (sys_close (m_fds v ! 0))
         (if track then
            vseq (vmod (\<lambda>s. s\<lparr>d_nregions := d_nregions s + 1\<rparr>)) (done_msg True (v\<lparr>m_fd_num := 0\<rparr>))
          else
            vseq (remap_rings ''remapping queue for new memory region'')
            (vseq (vmod (\<lambda>s. s\<lparr>d_nregions := d_nregions s + 1\<rparr>)) (done_msg False v))))))"

definition reg_equal :: "vu_region \<Rightarrow> vu_region \<Rightarrow> bool" where
  "reg_equal r m = (g_gpa r = g_gpa m \<and> g_qva r = g_qva m \<and> g_size r = g_size m)"

definition region_zero :: vu_region where
  "region_zero = \<lparr>g_gpa = 0, g_size = 0, g_qva = 0, g_moff = 0, g_maddr = 0\<rparr>"

text \<open>The search loop: \<open>rs\<close> are the regions still to be looked at; a removed one leaves the table
  (the entries after it move down, a zero entry follows).  The result is the table, the number
  of live regions and whether one was found.\<close>

fun remove_regions :: "vu_region \<Rightarrow> vu_region list \<Rightarrow> (vu_region list \<times> bool) vu" where
  "remove_regions m [] = vret ([], False)"
| "remove_regions m (r # rs) =
     (if reg_equal r m then
        vseq (vwhen (g_maddr r \<noteq> 0) (sys_munmap (g_maddr r) (g_size r + g_moff r)))
          (vbind (remove_regions m rs) (\<lambda>(keep, _). vret (keep, True)))
      else vbind (remove_regions m rs) (\<lambda>(keep, found). vret (r # keep, found)))"

definition vu_rem_mem_reg :: handler where
  "vu_rem_mem_reg v =
     (if m_fd_num v > 1 then
        vseq (vmsg_close_fds v) (vseq (vu_panic ''VHOST_USER_REM_MEM_REG received too many fds'') (done_msg False v))
      else if m_size v < MEM_REG_SIZE then
        vseq (vmsg_close_fds v) (vseq (vu_panic ''VHOST_USER_REM_MEM_REG message too small'') (done_msg False v))
      else
        vbind (vget live_regions) (\<lambda>live.
        vbind (remove_regions (pl_region 8 v) live) (\<lambda>(keep, found).
        vseq (vmod (\<lambda>s. s\<lparr>d_regions := keep @ replicate (length live - length keep) region_zero @ drop (length live) (d_regions s),
                d_nregions := of_nat (length keep)\<rparr>))
        (vseq (vwhen (\<not> found) (vu_panic ''Specified region not found''))
        (vseq (vmsg_close_fds v) (done_msg False v))))))"

definition vu_get_shared_object :: "callbacks \<Rightarrow> handler" where
  "vu_get_shared_object cb v =
     vbind (case cb_get_shared_object cb of None \<Rightarrow> vret (- 1) | Some f \<Rightarrow> f (take 16 (m_payload v))) (\<lambda>fd.
       if fd \<noteq> - 1 then done_msg True (v\<lparr>m_fds := (m_fds v)[0 := fd], m_fd_num := 1\<rparr>)
       else done_msg True (v\<lparr>m_fd_num := 0\<rparr>))"

text \<open>The region table of a message has eight entries; reading a ninth is out of bounds.\<close>

fun map_table :: "vmsg \<Rightarrow> nat list \<Rightarrow> unit vu" where
  "map_table v [] = vret ()"
| "map_table v (i # is) =
     (if VHOST_MEMORY_BASELINE_NREGIONS \<le> i then vstop (Undef OutOfBounds)
      else vbind (map_region i (pl_region (8 + 32 * i) v)) (\<lambda>_.
        vseq (sys_close (m_fds v ! i)) (map_table v is)))"

definition vu_set_mem_table_exec_postcopy :: handler where
  "vu_set_mem_table_exec_postcopy v =
     vseq (vmod (\<lambda>s. s\<lparr>d_nregions := pl_index v\<rparr>))
     (vseq (map_table v [0..<unat (pl_index v)])
     (let v1 = v\<lparr>m_fd_num := 0\<rparr> in
      vbind (vget d_sock) (\<lambda>sock.
      vbind (vu_send_reply sock v1) (\<lambda>sent.
        if \<not> sent then vseq (vu_panic ''failed to respond to set-mem-table for postcopy'') (done_msg False v1)
        else vbind (vu_message_read_default v1) (\<lambda>(ok, v2).
          if \<not> ok \<or> m_size v2 \<noteq> 8 \<or> pl_u64 v2 \<noteq> 0 then
            vseq (vu_panic ''failed to receive valid ack for postcopy set-mem-table'') (done_msg False v2)
          else vbind generate_faults (\<lambda>_. done_msg False v2))))))"

definition unmap_regions :: "unit vu" where
  "unmap_regions =
     vbind (vget live_regions) (\<lambda>live.
       vfor [0..<length live] (\<lambda>i.
         vwhen (g_maddr (live ! i) \<noteq> 0) (sys_munmap (g_maddr (live ! i)) (g_size (live ! i) + g_moff (live ! i)))))"

definition vu_set_mem_table_exec :: handler where
  "vu_set_mem_table_exec v =
     vseq unmap_regions
     (vseq (vmod (\<lambda>s. s\<lparr>d_nregions := pl_index v\<rparr>))
     (vbind (vget d_postcopy_listening) (\<lambda>post.
       if post then vu_set_mem_table_exec_postcopy v
       else
         vseq (map_table v [0..<unat (pl_index v)])
         (vseq (remap_rings ''remapping queue during setmemtable'') (done_msg False v)))))"

section \<open>The dirty log\<close>

definition vu_set_log_base_exec :: handler where
  "vu_set_log_base_exec v =
     (if m_fd_num v \<noteq> 1 \<or> m_size v \<noteq> 16 then vseq (vu_panic ''Invalid log_base message'') (done_msg True v)
      else
        let sz = of_nat (pl_get 0 8 v) :: u64 in
        vbind (sys_mmap sz) (\<lambda>rc.
        vseq (sys_close (m_fds v ! 0))
        (vbind (vget d_log_table) (\<lambda>old. vbind (vget d_log_size) (\<lambda>oldsz.
        vseq (vwhen (old \<noteq> 0) (sys_munmap old oldsz))
        (vseq (vmod (\<lambda>s. s\<lparr>d_log_table := rc, d_log_size := sz\<rparr>))
          (done_msg True (v\<lparr>m_size := 8, m_fd_num := 0\<rparr>))))))))"

definition vu_set_log_fd_exec :: handler where
  "vu_set_log_fd_exec v =
     (if m_fd_num v \<noteq> 1 then vseq (vu_panic ''Invalid log_fd message'') (done_msg False v)
      else vbind (vget d_log_call_fd) (\<lambda>fd.
        vseq (vwhen (fd \<noteq> - 1) (sys_close fd))
        (vseq (vmod (\<lambda>s. s\<lparr>d_log_call_fd := m_fds v ! 0\<rparr>)) (done_msg False v))))"

section \<open>Rings\<close>

definition vu_set_vring_num_exec :: handler where
  "vu_set_vring_num_exec v =
     vseq (vq_upd (unat (pl_index v)) (\<lambda>q. q\<lparr>vq_ring := (vq_ring q)\<lparr>vr_num := pl_num v\<rparr>\<rparr>)) (done_msg False v)"

definition vu_set_vring_addr_exec :: "callbacks \<Rightarrow> handler" where
  "vu_set_vring_addr_exec cb v =
     (let vra = pl_addr v; i = unat (va_index vra) in
      vseq (vq_upd i (\<lambda>q. q\<lparr>vq_vra := vra, vq_ring := (vq_ring q)\<lparr>vr_flags := va_flags vra, vr_log := va_log vra\<rparr>\<rparr>))
      (vbind (map_ring i) (\<lambda>bad.
        if bad then vseq (vu_panic ''Invalid vring_addr message'') (done_msg False v)
        else
          vseq (\<lambda>s. vq_upd i (\<lambda>q. q\<lparr>vq_used_idx := used_idx (w_mem s) (vr_used (vq_ring q))\<rparr>) s)
          (vbind (vq_get i) (\<lambda>q.
            if vq_last_avail q \<noteq> vq_used_idx q then
              vbind (case cb_in_order cb of None \<Rightarrow> vret False | Some f \<Rightarrow> f i) (\<lambda>resume.
                vseq (vwhen resume (vq_upd i (\<lambda>q. q\<lparr>vq_last_avail := vq_used_idx q, vq_shadow_avail := vq_used_idx q\<rparr>)))
                  (done_msg False v))
            else done_msg False v)))))"

definition vu_set_vring_base_exec :: handler where
  "vu_set_vring_base_exec v =
     vseq (vq_upd (unat (pl_index v)) (\<lambda>q. q\<lparr>vq_last_avail := ucast (pl_num v), vq_shadow_avail := ucast (pl_num v)\<rparr>))
       (done_msg False v)"

text \<open>Close one of a queue's descriptors if it is open.\<close>

definition close_kick :: "nat \<Rightarrow> unit vu" where
  "close_kick i = vbind (vq_get i) (\<lambda>q.
     vwhen (vq_kick_fd q \<noteq> - 1)
       (vseq (trace (Remove_watch (vq_kick_fd q)))
       (vseq (sys_close (vq_kick_fd q)) (vq_upd i (\<lambda>q. q\<lparr>vq_kick_fd := - 1\<rparr>)))))"

definition close_call :: "nat \<Rightarrow> unit vu" where
  "close_call i = vbind (vq_get i) (\<lambda>q.
     vwhen (vq_call_fd q \<noteq> - 1) (vseq (sys_close (vq_call_fd q)) (vq_upd i (\<lambda>q. q\<lparr>vq_call_fd := - 1\<rparr>))))"

definition close_err :: "nat \<Rightarrow> unit vu" where
  "close_err i = vbind (vq_get i) (\<lambda>q.
     vwhen (vq_err_fd q \<noteq> - 1) (vseq (sys_close (vq_err_fd q)) (vq_upd i (\<lambda>q. q\<lparr>vq_err_fd := - 1\<rparr>))))"

definition vu_get_vring_base_exec :: "callbacks \<Rightarrow> handler" where
  "vu_get_vring_base_exec cb v =
     (let i = unat (pl_index v) in
      vbind (vq_get i) (\<lambda>q.
      vseq (vq_upd i (\<lambda>q. q\<lparr>vq_started := False\<rparr>))
      (vseq (vcall (cb_queue_set_started cb) i False)
      (vseq (close_call i)
      (vseq (close_kick i)
        (done_msg True ((pl_put 4 4 (unat (vq_last_avail q)) v)\<lparr>m_size := 8\<rparr>)))))))"

definition VHOST_USER_VRING_IDX_MASK :: u64 where "VHOST_USER_VRING_IDX_MASK = 0xff"
definition VHOST_USER_VRING_NOFD_MASK :: u64 where "VHOST_USER_VRING_NOFD_MASK = push_bit 8 1"

definition msg_queue :: "vmsg \<Rightarrow> nat" where
  "msg_queue v = unat (pl_u64 v AND VHOST_USER_VRING_IDX_MASK)"

definition msg_nofd :: "vmsg \<Rightarrow> bool" where
  "msg_nofd v = (pl_u64 v AND VHOST_USER_VRING_NOFD_MASK \<noteq> 0)"

definition vu_check_queue_msg_file :: "vmsg \<Rightarrow> bool vu" where
  "vu_check_queue_msg_file v =
     vbind (vget d_max_queues) (\<lambda>maxq.
       if msg_queue v \<ge> unat maxq then
         vseq (vmsg_close_fds v) (vseq (vu_panic ''Invalid queue index'') (vret False))
       else if msg_nofd v then vseq (vmsg_close_fds v) (vret True)
       else if m_fd_num v \<noteq> 1 then
         vseq (vmsg_close_fds v) (vseq (vu_panic ''Invalid fds in request'') (vret False))
       else vret True)"

section \<open>Descriptors in flight\<close>

text \<open>The shared buffer: a 16-byte header, then one 16-byte state per descriptor.\<close>

definition if_version :: "hmem \<Rightarrow> u64 \<Rightarrow> u16" where "if_version hm p = ld16 hm (p + 8)"
definition if_desc_num :: "hmem \<Rightarrow> u64 \<Rightarrow> u16" where "if_desc_num hm p = ld16 hm (p + 10)"
definition if_last_batch :: "hmem \<Rightarrow> u64 \<Rightarrow> u16" where "if_last_batch hm p = ld16 hm (p + 12)"
definition if_used_idx :: "hmem \<Rightarrow> u64 \<Rightarrow> u16" where "if_used_idx hm p = ld16 hm (p + 14)"
definition if_flag_addr :: "u64 \<Rightarrow> nat \<Rightarrow> u64" where "if_flag_addr p i = p + 16 + of_nat (16 * i)"
definition if_flag :: "hmem \<Rightarrow> u64 \<Rightarrow> nat \<Rightarrow> nat" where "if_flag hm p i = of_char (hm (if_flag_addr p i))"
definition if_counter :: "hmem \<Rightarrow> u64 \<Rightarrow> nat \<Rightarrow> u64" where "if_counter hm p i = ld64 hm (if_flag_addr p i + 8)"

definition set_mem :: "(hmem \<Rightarrow> hmem) \<Rightarrow> unit vu" where
  "set_mem f = vmod (\<lambda>s. s\<lparr>w_mem := f (w_mem s)\<rparr>)"

definition set_flag :: "u64 \<Rightarrow> nat \<Rightarrow> byte \<Rightarrow> unit vu" where
  "set_flag p i b = set_mem (\<lambda>hm. hm(if_flag_addr p i := b))"

definition inflight_desc_compare :: "inflight_desc \<Rightarrow> inflight_desc \<Rightarrow> int" where
  "inflight_desc_compare desc0 desc1 =
     (if id_counter desc1 > id_counter desc0 \<and>
         id_counter desc1 - id_counter desc0 < of_nat (VIRTQUEUE_MAX_SIZE * 2) then 1 else - 1)"

text \<open>\<^verbatim>\<open>qsort\<close>, as insertion by the comparison function it is given.\<close>

fun insert_by :: "('a \<Rightarrow> 'a \<Rightarrow> int) \<Rightarrow> 'a \<Rightarrow> 'a list \<Rightarrow> 'a list" where
  "insert_by cmp x [] = [x]"
| "insert_by cmp x (y # ys) = (if cmp x y \<le> 0 then x # y # ys else y # insert_by cmp x ys)"

fun qsort :: "('a \<Rightarrow> 'a \<Rightarrow> int) \<Rightarrow> 'a list \<Rightarrow> 'a list" where
  "qsort cmp [] = []"
| "qsort cmp (x # xs) = insert_by cmp x (qsort cmp xs)"

text \<open>The two scans of the state array: how many flags are 1, and the entries with a flag set.\<close>

definition count_inflight :: "hmem \<Rightarrow> u64 \<Rightarrow> nat \<Rightarrow> nat" where
  "count_inflight hm p n = length (filter (\<lambda>i. if_flag hm p i = 1) [0..<n])"

definition collect_inflight :: "hmem \<Rightarrow> u64 \<Rightarrow> nat \<Rightarrow> inflight_desc list" where
  "collect_inflight hm p n =
     map (\<lambda>i. Inflight_desc (of_nat i) (if_counter hm p i)) (filter (\<lambda>i. if_flag hm p i \<noteq> 0) [0..<n])"

text \<open>The part of \<^verbatim>\<open>vu_check_queue_inflights\<close> after the used index has been brought up to date.\<close>

definition resubmit_inflights :: "nat \<Rightarrow> u64 \<Rightarrow> bool vu" where
  "resubmit_inflights i p =
     vbind (vq_get i) (\<lambda>q. vbind (vget w_mem) (\<lambda>hm.
       let n = unat (if_desc_num hm p);
           inuse = vq_inuse q + of_nat (count_inflight hm p n);
           la = ucast inuse + vq_used_idx q;
           found = collect_inflight hm p n;
           resub = (if 1 < length found then qsort inflight_desc_compare found else found)
       in
       vseq (vq_upd i (\<lambda>q. q\<lparr>vq_inuse := inuse, vq_last_avail := la, vq_shadow_avail := la\<rparr>))
       (if inuse = 0 then sys_eventfd (vq_kick_fd q)
        else vbind sys_ok (\<lambda>calloc_ok.
          if \<not> calloc_ok then vret False
          else if unat inuse < length found then vstop (Undef OutOfBounds)
          else
            vseq (vq_upd i (\<lambda>q. q\<lparr>vq_resubmit := Some resub, vq_resubmit_num := of_nat (length found),
                vq_counter := (if found = [] then 0 else id_counter (hd resub)) + 1\<rparr>))
              (sys_eventfd (vq_kick_fd q))))))"

definition vu_check_queue_inflights :: "nat \<Rightarrow> bool vu" where
  "vu_check_queue_inflights i =
     vbind (vu_has_protocol_feature F_INFLIGHT_SHMFD) (\<lambda>on.
     if \<not> on then vret True
     else vbind (vq_get i) (\<lambda>q.
       let p = vq_inflight q in
       if p = 0 then vret False
       else vbind (vget w_mem) (\<lambda>hm.
         if if_version hm p = 0 then vseq (set_mem (\<lambda>hm. st16 hm (p + 8) 1)) (vret True)
         else
           let used = used_idx hm (vr_used (vq_ring q)) in
           vseq (vq_upd i (\<lambda>q. q\<lparr>vq_used_idx := used, vq_resubmit_num := 0, vq_resubmit := None, vq_counter := 0\<rparr>))
           (vseq (vwhen (if_used_idx hm p \<noteq> used)
              (vseq (set_flag p (unat (if_last_batch hm p)) NUL) (set_mem (\<lambda>hm. st16 hm (p + 14) used))))
             (resubmit_inflights i p)))))"

section \<open>Kick, call and error descriptors\<close>

definition vu_set_vring_kick_exec :: "callbacks \<Rightarrow> handler" where
  "vu_set_vring_kick_exec cb v =
     (let i = msg_queue v in
      vbind (vu_check_queue_msg_file v) (\<lambda>ok.
      if \<not> ok then done_msg False v
      else
        vseq (close_kick i)
        (vseq (vq_upd i (\<lambda>q. q\<lparr>vq_kick_fd := (if msg_nofd v then - 1 else m_fds v ! 0)\<rparr>))
        (vseq (vq_upd i (\<lambda>q. q\<lparr>vq_started := True\<rparr>))
        (vseq (vcall (cb_queue_set_started cb) i True)
        (vbind (vq_get i) (\<lambda>q.
        vseq (vwhen (vq_kick_fd q \<noteq> - 1 \<and> vq_handler q \<noteq> None) (trace (Set_watch (vq_kick_fd q) i)))
        (vbind (vu_check_queue_inflights i) (\<lambda>fine.
        vseq (vwhen (\<not> fine) (vu_panic ''Failed to check inflights for vq'')) (done_msg False v))))))))))"

definition vu_set_queue_handler :: "nat \<Rightarrow> nat option \<Rightarrow> unit vu" where
  "vu_set_queue_handler i h =
     vseq (vq_upd i (\<lambda>q. q\<lparr>vq_handler := h\<rparr>))
     (vbind (vq_get i) (\<lambda>q.
       if vq_kick_fd q \<ge> 0 then
         (if h \<noteq> None then trace (Set_watch (vq_kick_fd q) i) else trace (Remove_watch (vq_kick_fd q)))
       else vret ()))"

section \<open>Messages to the frontend\<close>

definition BACKEND_CONFIG_CHANGE_MSG :: u32 where "BACKEND_CONFIG_CHANGE_MSG = 2"
definition BACKEND_VRING_HOST_NOTIFIER_MSG :: u32 where "BACKEND_VRING_HOST_NOTIFIER_MSG = 3"
definition BACKEND_VRING_CALL :: u32 where "BACKEND_VRING_CALL = 4"
definition BACKEND_SHARED_OBJECT_ADD :: u32 where "BACKEND_SHARED_OBJECT_ADD = 6"
definition BACKEND_SHARED_OBJECT_REMOVE :: u32 where "BACKEND_SHARED_OBJECT_REMOVE = 7"
definition BACKEND_SHARED_OBJECT_LOOKUP :: u32 where "BACKEND_SHARED_OBJECT_LOOKUP = 8"

definition vu_set_queue_host_notifier :: "nat \<Rightarrow> int \<Rightarrow> u64 \<Rightarrow> u64 \<Rightarrow> bool vu" where
  "vu_set_queue_host_notifier qidx fd sz offset =
     (let area = (of_nat qidx AND VHOST_USER_VRING_IDX_MASK) OR (if fd = - 1 then VHOST_USER_VRING_NOFD_MASK else 0);
          v = pl_put 16 8 (unat offset) (pl_put 8 8 (unat sz) (pl_put 0 8 (unat area)
            (msg_zero\<lparr>m_request := BACKEND_VRING_HOST_NOTIFIER_MSG,
               m_flags := VHOST_USER_VERSION OR VHOST_USER_NEED_REPLY_MASK, m_size := 24\<rparr>)));
          v1 = (if fd = - 1 then v else v\<lparr>m_fds := (m_fds v)[0 := fd], m_fd_num := 1\<rparr>)
      in vbind (vu_has_protocol_feature F_BACKEND_SEND_FD) (\<lambda>on.
        if \<not> on then vret False
        else vseq lock_backend (vbind (vget d_backend_fd) (\<lambda>bfd.
          vbind (vu_message_write bfd v1) (\<lambda>ok.
            if \<not> ok then vseq unlock_backend (vret False) else vu_process_message_reply v1)))))"

definition object_msg :: "u32 \<Rightarrow> u32 \<Rightarrow> byte list \<Rightarrow> vmsg" where
  "object_msg req flags uuid =
     msg_zero\<lparr>m_request := req, m_size := 16, m_flags := flags, m_payload := overlay (take 16 uuid) (m_payload msg_zero)\<rparr>"

text \<open>The result and the descriptor stored through the pointer argument, if one was stored.\<close>

definition vu_lookup_shared_object :: "byte list \<Rightarrow> (bool \<times> int option) vu" where
  "vu_lookup_shared_object uuid =
     (let v = object_msg BACKEND_SHARED_OBJECT_LOOKUP (VHOST_USER_VERSION OR VHOST_USER_NEED_REPLY_MASK) uuid in
      vbind (vu_has_protocol_feature F_SHARED_OBJECT) (\<lambda>on.
        if \<not> on then vret (False, None)
        else vseq lock_backend (vbind (vget d_backend_fd) (\<lambda>bfd.
          vbind (vbind (vu_message_write bfd v) (\<lambda>ok.
            if \<not> ok then vret (False, None)
            else vbind (vu_message_read_default msg_zero) (\<lambda>(got, reply).
              if \<not> got then vret (False, None)
              else if m_request reply \<noteq> m_request v then vret (False, None)
              else if m_fd_num reply \<noteq> 1 then vret (False, None)
              else vret (m_fds reply ! 0 > 0 \<and> pl_u64 reply = 0, Some (m_fds reply ! 0)))))
          (\<lambda>r. vseq unlock_backend (vret r))))))"

definition vu_send_message :: "vmsg \<Rightarrow> bool vu" where
  "vu_send_message v =
     vseq lock_backend (vbind (vget d_backend_fd) (\<lambda>bfd.
       vbind (vu_message_write bfd v) (\<lambda>ok. vseq unlock_backend (vret ok))))"

definition vu_add_shared_object :: "byte list \<Rightarrow> bool vu" where
  "vu_add_shared_object uuid =
     vbind (vu_has_protocol_feature F_SHARED_OBJECT) (\<lambda>on.
       if \<not> on then vret False else vu_send_message (object_msg BACKEND_SHARED_OBJECT_ADD VHOST_USER_VERSION uuid))"

definition vu_rm_shared_object :: "byte list \<Rightarrow> bool vu" where
  "vu_rm_shared_object uuid =
     vbind (vu_has_protocol_feature F_SHARED_OBJECT) (\<lambda>on.
       if \<not> on then vret False else vu_send_message (object_msg BACKEND_SHARED_OBJECT_REMOVE VHOST_USER_VERSION uuid))"

section \<open>More requests\<close>

text \<open>\<^verbatim>\<open>return -1\<close> from a function of type \<^verbatim>\<open>bool\<close> is \<open>True\<close>.\<close>

definition vu_set_vring_call_exec :: handler where
  "vu_set_vring_call_exec v =
     (let i = msg_queue v; fd = (if msg_nofd v then - 1 else m_fds v ! 0) in
      vbind (vu_check_queue_msg_file v) (\<lambda>ok.
      if \<not> ok then done_msg False v
      else
        vseq (close_call i)
        (vseq (vq_upd i (\<lambda>q. q\<lparr>vq_call_fd := fd\<rparr>))
        (if fd \<noteq> - 1 then vbind (sys_eventfd (m_fds v ! 0)) (\<lambda>w. done_msg (\<not> w) v)
         else done_msg False v))))"

definition vu_set_vring_err_exec :: handler where
  "vu_set_vring_err_exec v =
     (let i = msg_queue v in
      vbind (vu_check_queue_msg_file v) (\<lambda>ok.
      if \<not> ok then done_msg False v
      else
        vseq (close_err i)
        (vseq (vq_upd i (\<lambda>q. q\<lparr>vq_err_fd := (if msg_nofd v then - 1 else m_fds v ! 0)\<rparr>)) (done_msg False v))))"

definition pbit :: "VhostUserProtocolFeature \<Rightarrow> u64" where "pbit p = bit64 (protocol_bit p)"

definition vu_get_protocol_features_exec :: "callbacks \<Rightarrow> handler" where
  "vu_get_protocol_features_exec cb v =
     (let base = pbit F_MQ OR pbit F_LOG_SHMFD OR pbit F_BACKEND_REQ OR pbit F_HOST_NOTIFIER OR
                 pbit F_BACKEND_SEND_FD OR pbit F_REPLY_ACK OR pbit F_CONFIGURE_MEM_SLOTS in
      vbind have_userfault (\<lambda>uf.
      let b1 = (if uf then base OR pbit F_PAGEFAULT else base);
          b2 = (if cb_get_config cb \<noteq> None \<and> cb_set_config cb \<noteq> None then b1 OR pbit F_CONFIG else b1) in
      vbind (case cb_get_protocol_features cb of None \<Rightarrow> vret 0 | Some f \<Rightarrow> f) (\<lambda>x.
        done_msg True (vmsg_set_reply_u64 v (b2 OR x)))))"

definition vu_set_protocol_features_exec :: "callbacks \<Rightarrow> handler" where
  "vu_set_protocol_features_exec cb v =
     vseq (vmod (\<lambda>s. s\<lparr>d_protocol_features := pl_u64 v\<rparr>))
     (vbind (vu_has_protocol_feature F_INBAND_NOTIFICATIONS) (\<lambda>inband.
      vbind (vu_has_protocol_feature F_BACKEND_REQ) (\<lambda>req.
      vbind (vu_has_protocol_feature F_REPLY_ACK) (\<lambda>ack.
        if inband \<and> (\<not> req \<or> \<not> ack) then
          vseq (vu_panic ''F_IN_BAND_NOTIFICATIONS requires F_BACKEND_REQ && F_REPLY_ACK'') (done_msg False v)
        else
          vseq (case cb_set_protocol_features cb of None \<Rightarrow> vret () | Some f \<Rightarrow> f (pl_u64 v)) (done_msg False v)))))"

definition vu_get_queue_num_exec :: handler where
  "vu_get_queue_num_exec v = vbind (vget d_max_queues) (\<lambda>n. done_msg True (vmsg_set_reply_u64 v (ucast n)))"

definition vu_set_vring_enable_exec :: handler where
  "vu_set_vring_enable_exec v =
     vbind (vget d_max_queues) (\<lambda>maxq.
       if unat (pl_index v) \<ge> unat maxq then vseq (vu_panic ''Invalid vring_enable index'') (done_msg False v)
       else vseq (vq_upd (unat (pl_index v)) (\<lambda>q. q\<lparr>vq_enable := pl_num v\<rparr>)) (done_msg False v))"

definition vu_set_backend_req_fd :: handler where
  "vu_set_backend_req_fd v =
     (if m_fd_num v \<noteq> 1 then vseq (vu_panic ''Invalid backend_req_fd message'') (done_msg False v)
      else vbind (vget d_backend_fd) (\<lambda>fd.
        vseq (vwhen (fd \<noteq> - 1) (sys_close fd))
        (vseq (vmod (\<lambda>s. s\<lparr>d_backend_fd := m_fds v ! 0\<rparr>)) (done_msg False v))))"

text \<open>\<^verbatim>\<open>VhostUserConfig\<close>: offset, size, flags, then the 256-byte region.\<close>

definition vu_get_config :: "callbacks \<Rightarrow> handler" where
  "vu_get_config cb v =
     (case cb_get_config cb of
        None \<Rightarrow> done_msg True (v\<lparr>m_size := 0\<rparr>)
      | Some f \<Rightarrow>
          vbind (f (take 256 (drop 12 (m_payload v))) (of_nat (pl_get 4 4 v))) (\<lambda>(ret, region).
            let v1 = v\<lparr>m_payload := take 12 (m_payload v) @ overlay region (drop 12 (m_payload v))\<rparr> in
            done_msg True (if ret \<noteq> 0 then v1\<lparr>m_size := 0\<rparr> else v1)))"

definition vu_set_config :: "callbacks \<Rightarrow> handler" where
  "vu_set_config cb v =
     (case cb_set_config cb of
        None \<Rightarrow> done_msg False v
      | Some f \<Rightarrow>
          vbind (f (take 256 (drop 12 (m_payload v))) (of_nat (pl_get 0 4 v)) (of_nat (pl_get 4 4 v)) (of_nat (pl_get 8 4 v)))
            (\<lambda>ret. vseq (vwhen (ret \<noteq> 0) (vu_panic ''Set virtio configuration space failed'')) (done_msg False v)))"

section \<open>Postcopy\<close>

definition vu_set_postcopy_advise :: handler where
  "vu_set_postcopy_advise v =
     vbind sys_newfd (\<lambda>ufd.
     vseq (vmod (\<lambda>s. s\<lparr>d_postcopy_ufd := ufd\<rparr>))
     (let v1 = v\<lparr>m_size := 0\<rparr> in
      vseq
        (if ufd = - 1 then vu_panic ''Userfaultfd not available''
         else vbind sys_ok (\<lambda>api.
           if api then vret ()
           else vseq (vu_panic ''Failed UFFDIO_API'') (vseq (sys_close ufd) (vmod (\<lambda>s. s\<lparr>d_postcopy_ufd := - 1\<rparr>)))))
        (vbind (vget d_postcopy_ufd) (\<lambda>fd. done_msg True (v1\<lparr>m_fd_num := 1, m_fds := (m_fds v1)[0 := fd]\<rparr>)))))"

definition vu_set_postcopy_listen :: handler where
  "vu_set_postcopy_listen v =
     vbind (vget d_nregions) (\<lambda>n.
       if n \<noteq> 0 then
         vseq (vu_panic ''Regions already registered at postcopy-listen'') (done_msg True (vmsg_set_reply_u64 v (- 1)))
       else
         vseq (vmod (\<lambda>s. s\<lparr>d_postcopy_listening := True\<rparr>)) (done_msg True (vmsg_set_reply_u64 v 0)))"

definition vu_set_postcopy_end :: handler where
  "vu_set_postcopy_end v =
     vseq (vmod (\<lambda>s. s\<lparr>d_postcopy_listening := False\<rparr>))
     (vbind (vget d_postcopy_ufd) (\<lambda>fd.
      vseq (vwhen (fd > 0) (vseq (sys_close fd) (vmod (\<lambda>s. s\<lparr>d_postcopy_ufd := - 1\<rparr>))))
        (done_msg True (vmsg_set_reply_u64 v 0))))"

section \<open>The inflight buffer\<close>

definition INFLIGHT_ALIGNMENT :: nat where "INFLIGHT_ALIGNMENT = 64"

definition ALIGN_DOWN :: "nat \<Rightarrow> nat \<Rightarrow> nat" where "ALIGN_DOWN n m = n div m * m"
definition ALIGN_UP :: "nat \<Rightarrow> nat \<Rightarrow> nat" where "ALIGN_UP n m = ALIGN_DOWN (n + m - 1) m"

definition sizeof_desc_state :: nat where "sizeof_desc_state = 16"

definition vu_inflight_queue_size :: "u16 \<Rightarrow> nat" where
  "vu_inflight_queue_size queue_size = ALIGN_UP (sizeof_desc_state * unat queue_size + 2) INFLIGHT_ALIGNMENT"

text \<open>The address (0 on failure) and the descriptor, which on failure may be a closed one.\<close>

definition memfd_alloc :: "u64 \<Rightarrow> (u64 \<times> int) vu" where
  "memfd_alloc sz =
     vbind sys_newfd (\<lambda>fd.
       if fd < 0 then vret (0, fd)
       else vbind sys_ok (\<lambda>trunc.
         if \<not> trunc then vseq (sys_close fd) (vret (0, fd))
         else vbind sys_ok (\<lambda>seal.
           if \<not> seal then vseq (sys_close fd) (vret (0, fd))
           else vbind (sys_mmap sz) (\<lambda>p.
             if p = MAP_FAILED then vseq (sys_close fd) (vret (0, fd)) else vret (p, fd)))))"

definition vu_get_inflight_fd :: handler where
  "vu_get_inflight_fd v =
     (if m_size v \<noteq> 24 then
        vseq (vu_panic ''Invalid get_inflight_fd message'') (done_msg True (pl_put 0 8 0 v))
      else
        let num_queues = pl_get 16 2 v; queue_size = of_nat (pl_get 18 2 v) :: u16;
            mmap_size = of_nat (vu_inflight_queue_size queue_size * num_queues) :: u64 in
        vbind (memfd_alloc mmap_size) (\<lambda>(addr, fd).
          if addr = 0 then
            vseq (vu_panic ''Failed to alloc vhost inflight area'') (done_msg True (pl_put 0 8 0 v))
          else
            vseq (set_mem (\<lambda>hm a. if unat (a - addr) < unat mmap_size then NUL else hm a))
            (vseq (vmod (\<lambda>s. s\<lparr>d_inflight_addr := addr, d_inflight_size := mmap_size, d_inflight_fd := fd\<rparr>))
              (done_msg True ((pl_put 8 8 0 (pl_put 0 8 (unat mmap_size) v))
                \<lparr>m_fds := (m_fds v)[0 := fd], m_fd_num := 1\<rparr>)))))"

fun place_inflight :: "u16 \<Rightarrow> nat list \<Rightarrow> u64 \<Rightarrow> unit vu" where
  "place_inflight queue_size [] rc = vret ()"
| "place_inflight queue_size (i # is) rc =
     vseq (vq_upd i (\<lambda>q. q\<lparr>vq_inflight := rc\<rparr>))
     (vseq (set_mem (\<lambda>hm. st16 hm (rc + 10) queue_size))
       (place_inflight queue_size is (rc + of_nat (vu_inflight_queue_size queue_size))))"

definition vu_set_inflight_fd :: handler where
  "vu_set_inflight_fd v =
     (if m_fd_num v \<noteq> 1 \<or> m_size v \<noteq> 24 then
        vseq (vu_panic ''Invalid set_inflight_fd message'') (done_msg False v)
      else
        let fd = m_fds v ! 0; mmap_size = of_nat (pl_get 0 8 v) :: u64;
            num_queues = pl_get 16 2 v; queue_size = of_nat (pl_get 18 2 v) :: u16 in
        vbind (sys_mmap mmap_size) (\<lambda>rc.
          if rc = MAP_FAILED then vseq (vu_panic ''set_inflight_fd mmap error'') (done_msg False v)
          else
            vbind (vget d_inflight_fd) (\<lambda>oldfd. vbind (vget d_inflight_addr) (\<lambda>old. vbind (vget d_inflight_size) (\<lambda>oldsz.
            vseq (vwhen (oldfd \<noteq> 0) (sys_close oldfd))
            (vseq (vwhen (old \<noteq> 0) (sys_munmap old oldsz))
            (vseq (vmod (\<lambda>s. s\<lparr>d_inflight_fd := fd, d_inflight_addr := rc, d_inflight_size := mmap_size\<rparr>))
            (vseq (place_inflight queue_size [0..<num_queues] rc) (done_msg False v)))))))))"

section \<open>Dispatch\<close>

definition vu_handle_vring_kick :: "callbacks \<Rightarrow> handler" where
  "vu_handle_vring_kick cb v =
     (let i = unat (pl_index v) in
      vbind (vget d_max_queues) (\<lambda>maxq.
        if i \<ge> unat maxq then vseq (vu_panic ''Invalid queue index'') (done_msg False v)
        else
          vbind (vq_get i) (\<lambda>q.
          vseq (vwhen (\<not> vq_started q)
            (vseq (vq_upd i (\<lambda>q. q\<lparr>vq_started := True\<rparr>)) (vcall (cb_queue_set_started cb) i True)))
          (vbind (vq_get i) (\<lambda>q1.
          vseq (case vq_handler q1 of None \<Rightarrow> vret () | Some h \<Rightarrow> cb_handler cb h i) (done_msg False v))))))"

definition vu_handle_get_max_memslots :: handler where
  "vu_handle_get_max_memslots v = done_msg True (vmsg_set_reply_u64 v (of_nat VHOST_USER_MAX_RAM_SLOTS))"

text \<open>The switch of \<^verbatim>\<open>vu_process_message\<close>, by request number.\<close>

definition request_table :: "callbacks \<Rightarrow> (nat \<times> handler) list" where
  "request_table cb =
     [(1, vu_get_features_exec cb), (2, vu_set_features_exec cb), (15, vu_get_protocol_features_exec cb),
      (16, vu_set_protocol_features_exec cb), (3, vu_set_owner_exec), (4, vu_reset_device_exec),
      (5, vu_set_mem_table_exec), (6, vu_set_log_base_exec), (7, vu_set_log_fd_exec), (8, vu_set_vring_num_exec),
      (9, vu_set_vring_addr_exec cb), (10, vu_set_vring_base_exec), (11, vu_get_vring_base_exec cb),
      (12, vu_set_vring_kick_exec cb), (13, vu_set_vring_call_exec), (14, vu_set_vring_err_exec),
      (17, vu_get_queue_num_exec), (18, vu_set_vring_enable_exec), (21, vu_set_backend_req_fd),
      (24, vu_get_config cb), (25, vu_set_config cb), (0, \<lambda>v. vstop (Exited 0)), (28, vu_set_postcopy_advise),
      (29, vu_set_postcopy_listen), (30, vu_set_postcopy_end), (31, vu_get_inflight_fd), (32, vu_set_inflight_fd),
      (35, vu_handle_vring_kick cb), (36, vu_handle_get_max_memslots), (37, vu_add_mem_reg), (38, vu_rem_mem_reg),
      (41, vu_get_shared_object cb)]"

definition request_handler :: "callbacks \<Rightarrow> nat \<Rightarrow> handler option" where
  "request_handler cb req = map_of (request_table cb) req"

definition vu_process_message :: "callbacks \<Rightarrow> handler" where
  "vu_process_message cb v =
     (let switch = (\<lambda>v. case request_handler cb (unat (m_request v)) of
          Some h \<Rightarrow> h v
        | None \<Rightarrow> vseq (vmsg_close_fds v) (vseq (vu_panic ''Unhandled request'') (done_msg False v))) in
      case cb_process_msg cb of
        None \<Rightarrow> switch v
      | Some f \<Rightarrow> vbind (f v) (\<lambda>(ret, do_reply, v1). if ret \<noteq> 0 then vret (do_reply, v1) else switch v1))"

definition vu_dispatch :: "callbacks \<Rightarrow> bool vu" where
  "vu_dispatch cb =
     vbind (vu_message_read_default msg_zero) (\<lambda>(ok, v).
       if \<not> ok then vret False
       else
         vbind (vu_process_message cb v) (\<lambda>(reply_requested, v1).
           let need_reply = (m_flags v AND VHOST_USER_NEED_REPLY_MASK \<noteq> 0);
               v2 = (if \<not> reply_requested \<and> need_reply then vmsg_set_reply_u64 v1 0 else v1) in
           if \<not> reply_requested \<and> \<not> need_reply then vret True
           else vbind (vget d_sock) (\<lambda>sock. vu_send_reply sock v2)))"

section \<open>Start and end\<close>

definition vq_init :: vu_virtq where
  "vq_init = \<lparr>vq_ring = \<lparr>vr_num = 0, vr_desc = 0, vr_avail = 0, vr_used = 0, vr_log = 0, vr_flags = 0\<rparr>,
     vq_inflight = 0, vq_resubmit = None, vq_resubmit_num = 0, vq_counter = 0, vq_last_avail = 0,
     vq_shadow_avail = 0, vq_used_idx = 0, vq_signalled_used = 0, vq_signalled_valid = False,
     vq_notification = True, vq_inuse = 0, vq_handler = None, vq_call_fd = - 1, vq_kick_fd = - 1, vq_err_fd = - 1,
     vq_enable = 0, vq_started = False,
     vq_vra = \<lparr>va_index = 0, va_flags = 0, va_desc = 0, va_used = 0, va_avail = 0, va_log = 0\<rparr>\<rparr>"

text \<open>\<open>vu_init max_queues socket exits malloc_ok\<close>: the device over a world, and whether it worked.\<close>

definition vu_init :: "u16 \<Rightarrow> int \<Rightarrow> bool \<Rightarrow> bool \<Rightarrow> bool vu" where
  "vu_init max_queues socket panic_exits malloc_ok =
     vseq (vassert (max_queues > 0)) (vseq (vassert (socket \<ge> 0))
     (vseq (vmod (\<lambda>s. s\<lparr>d_sock := socket, d_nregions := 0,
        d_regions := replicate VHOST_USER_MAX_RAM_SLOTS region_zero, d_vq := [], d_inflight_fd := 0,
        d_inflight_addr := 0, d_inflight_size := 0, d_log_call_fd := - 1, d_mutex := False, d_backend_fd := - 1,
        d_log_size := 0, d_log_table := 0, d_features := 0, d_protocol_features := 0, d_broken := False,
        d_max_queues := max_queues, d_panic_exits := panic_exits, d_postcopy_ufd := 0, d_postcopy_listening := False\<rparr>))
     (if \<not> malloc_ok then vret False
      else vseq (vmod (\<lambda>s. s\<lparr>d_vq := replicate (unat max_queues) vq_init\<rparr>)) (vret True))))"

definition deinit_queue :: "nat \<Rightarrow> unit vu" where
  "deinit_queue i =
     vseq (close_call i) (vseq (close_kick i) (vseq (close_err i)
       (vq_upd i (\<lambda>q. q\<lparr>vq_resubmit := None, vq_inflight := 0\<rparr>))))"

definition deinit_inflight :: "unit vu" where
  "deinit_inflight =
     vbind (vget d_inflight_addr) (\<lambda>addr. vbind (vget d_inflight_size) (\<lambda>sz. vbind (vget d_inflight_fd) (\<lambda>fd.
       vseq (vwhen (addr \<noteq> 0) (vseq (sys_munmap addr sz) (vmod (\<lambda>s. s\<lparr>d_inflight_addr := 0\<rparr>))))
         (vwhen (fd > 0) (vseq (sys_close fd) (vmod (\<lambda>s. s\<lparr>d_inflight_fd := - 1\<rparr>)))))))"

definition deinit_sockets :: "unit vu" where
  "deinit_sockets =
     vbind (vget d_backend_fd) (\<lambda>bfd. vbind (vget d_sock) (\<lambda>sock.
       vseq (vwhen (bfd \<noteq> - 1) (vseq (sys_close bfd) (vmod (\<lambda>s. s\<lparr>d_backend_fd := - 1\<rparr>))))
         (vwhen (sock \<noteq> - 1) (sys_close sock))))"

definition vu_deinit :: "unit vu" where
  "vu_deinit =
     vbind (vget live_regions) (\<lambda>live.
     vseq (vfor [0..<length live] (\<lambda>i.
         vwhen (g_maddr (live ! i) \<noteq> MAP_FAILED) (sys_munmap (g_maddr (live ! i)) (g_size (live ! i) + g_moff (live ! i)))))
     (vseq (vmod (\<lambda>s. s\<lparr>d_nregions := 0\<rparr>))
     (vbind (vget (\<lambda>s. unat (d_max_queues s))) (\<lambda>n.
     vseq (vfor [0..<n] deinit_queue)
     (vseq deinit_inflight
     (vseq vu_close_log
     (vseq deinit_sockets
       (vmod (\<lambda>s. s\<lparr>d_vq := []\<rparr>)))))))))"

definition vu_get_queue :: "nat \<Rightarrow> vu_virtq vu" where
  "vu_get_queue qidx =
     vbind (vget d_max_queues) (\<lambda>maxq. vseq (vassert (qidx < unat maxq)) (vq_get qidx))"

definition vu_queue_enabled :: "vu_virtq \<Rightarrow> bool" where "vu_queue_enabled vq = (vq_enable vq \<noteq> 0)"

definition vu_queue_started :: "vu_virtq \<Rightarrow> bool" where "vu_queue_started vq = vq_started vq"

end
