(* ===== verification/Vu_Safe.thy ===== *)
theory Vu_Safe
  imports Vu_Handlers
begin

text \<open>
  What the request handlers of libvhost-user keep.  \<open>triple P f Q\<close> says that from a state with
  \<open>P\<close> the computation \<open>f\<close> never runs into undefined behaviour, and ends in \<open>Q\<close> if it returns;
  the rules in the collection \<open>safe\<close> follow the shape of a handler.  \<open>dev_inv\<close> is the
  invariant of a device with \<open>N\<close> queues, \<open>request_ok\<close> says which messages keep it.
\<close>

section \<open>Triples\<close>

definition triple :: "(vst \<Rightarrow> bool) \<Rightarrow> 'a vu \<Rightarrow> ('a \<Rightarrow> vst \<Rightarrow> bool) \<Rightarrow> bool" where
  "triple P f Q = (\<forall>s. P s \<longrightarrow> (case f s of Ret a s' \<Rightarrow> Q a s' | Stop (Undef u) s' \<Rightarrow> False | Stop e s' \<Rightarrow> True))"

definition safe :: "(vst \<Rightarrow> bool) \<Rightarrow> 'a vu \<Rightarrow> bool" where
  "safe I f = triple I f (\<lambda>_. I)"

named_theorems safe "safety of computations, by their shape"

lemma tripleI: "(\<And>s. P s \<Longrightarrow> case f s of Ret a s' \<Rightarrow> Q a s' | Stop (Undef u) s' \<Rightarrow> False | Stop e s' \<Rightarrow> True) \<Longrightarrow> triple P f Q"
  by (simp add: triple_def)

lemma triple_bind: "triple P f R \<Longrightarrow> (\<And>a. triple (R a) (g a) Q) \<Longrightarrow> triple P (vbind f g) Q"
  by (fastforce simp: triple_def vbind_def split: vres.splits stop.splits)

lemma triple_pre: "triple P f Q \<Longrightarrow> (\<And>s. P' s \<Longrightarrow> P s) \<Longrightarrow> triple P' f Q"
  by (auto simp: triple_def)

lemma triple_post: "triple P f Q' \<Longrightarrow> (\<And>a s. Q' a s \<Longrightarrow> Q a s) \<Longrightarrow> triple P f Q"
  by (fastforce simp: triple_def split: vres.splits stop.splits)

lemma safe_bind [safe]: "safe I f \<Longrightarrow> (\<And>a. safe I (g a)) \<Longrightarrow> safe I (vbind f g)"
  unfolding safe_def by (rule triple_bind)

lemma safe_seq [safe]: "safe I f \<Longrightarrow> safe I g \<Longrightarrow> safe I (vseq f g)"
  unfolding vseq_def by (rule safe_bind)

lemma safe_ret [safe]: "safe I (vret a)"
  by (simp add: safe_def triple_def vret_def)

lemma safe_get [safe]: "(\<And>t. I t \<Longrightarrow> safe I (g (f t))) \<Longrightarrow> safe I (vbind (vget f) g)"
  by (simp add: safe_def triple_def vbind_def vget_def)

lemma safe_vget [safe]: "safe I (vget f)"
  by (simp add: safe_def triple_def vget_def)

lemma safe_mod [safe]: "(\<And>s. I s \<Longrightarrow> I (f s)) \<Longrightarrow> safe I (vmod f)"
  by (simp add: safe_def triple_def vmod_def)

lemma safe_when [safe]: "(b \<Longrightarrow> safe I f) \<Longrightarrow> safe I (vwhen b f)"
  by (simp add: vwhen_def safe_ret)

lemma safe_exit [safe]: "safe I (vstop (Exited n))"
  by (simp add: safe_def triple_def vstop_def)

lemma safe_if [safe]: "(b \<Longrightarrow> safe I f) \<Longrightarrow> (\<not> b \<Longrightarrow> safe I g) \<Longrightarrow> safe I (if b then f else g)"
  by simp

lemma safe_let [safe]: "(\<And>x. safe I (f x)) \<Longrightarrow> safe I (let x = a in f x)"
  by simp

lemma safe_option [safe]: "safe I f \<Longrightarrow> (\<And>x. safe I (g x)) \<Longrightarrow> safe I (case x of None \<Rightarrow> f | Some x \<Rightarrow> g x)"
  by (cases x) auto

lemma safe_prod [safe]: "(\<And>a b. safe I (f a b)) \<Longrightarrow> safe I (case x of (a, b) \<Rightarrow> f a b)"
  by (cases x) auto

lemma safe_for [safe]: "(\<And>i. i \<in> set is \<Longrightarrow> safe I (f i)) \<Longrightarrow> safe I (vfor is f)"
  by (induction "is") (auto intro: safe)

section \<open>The invariant of a device\<close>

definition dev_at :: "nat \<Rightarrow> u32 option \<Rightarrow> vst \<Rightarrow> bool" where
  "dev_at N M s = (length (d_vq s) = N \<and> unat (d_max_queues s) = N \<and>
     length (d_regions s) = VHOST_USER_MAX_RAM_SLOTS \<and> unat (d_nregions s) \<le> VHOST_USER_MAX_RAM_SLOTS \<and>
     d_protocol_features s AND pbit F_INFLIGHT_SHMFD = 0 \<and>
     (\<forall>q\<in>set (d_vq s). unat (vr_num (vq_ring q)) < 65536) \<and> (\<forall>k. M = Some k \<longrightarrow> d_nregions s = k))"

text \<open>With the number of live regions fixed to \<open>M\<close> above, not fixed here.  The library does not
  offer the inflight buffer; without a device that does, it is not negotiated.\<close>

definition dev_inv :: "nat \<Rightarrow> vst \<Rightarrow> bool" where
  "dev_inv N s = (length (d_vq s) = N \<and> unat (d_max_queues s) = N \<and>
     length (d_regions s) = VHOST_USER_MAX_RAM_SLOTS \<and> unat (d_nregions s) \<le> VHOST_USER_MAX_RAM_SLOTS \<and>
     d_protocol_features s AND pbit F_INFLIGHT_SHMFD = 0 \<and>
     (\<forall>q\<in>set (d_vq s). unat (vr_num (vq_ring q)) < 65536))"

lemma dev_at_None: "dev_at N None = dev_inv N"
  by (rule ext) (simp add: dev_at_def dev_inv_def)

lemma safe_vq_get [safe]: "i < N \<Longrightarrow> safe (dev_at N M) (vq_get i)"
  by (simp add: safe_def triple_def vq_get_def dev_at_def)

text \<open>Only \<^verbatim>\<open>SET_VRING_NUM\<close> changes the size of a ring.\<close>

definition keeps_num :: "(vu_virtq \<Rightarrow> vu_virtq) \<Rightarrow> bool" where
  "keeps_num f = (\<forall>q. vr_num (vq_ring (f q)) = vr_num (vq_ring q))"

lemma keeps_num [safe]:
  "keeps_num (\<lambda>q. q)"
  "keeps_num f \<Longrightarrow> keeps_num (\<lambda>q. vq_enable_update (g q) (f q))"
  "keeps_num f \<Longrightarrow> keeps_num (\<lambda>q. vq_started_update (g1 q) (f q))"
  "keeps_num f \<Longrightarrow> keeps_num (\<lambda>q. vq_last_avail_update (g2 q) (f q))"
  "keeps_num f \<Longrightarrow> keeps_num (\<lambda>q. vq_shadow_avail_update (g2 q) (f q))"
  "keeps_num f \<Longrightarrow> keeps_num (\<lambda>q. vq_used_idx_update (g2 q) (f q))"
  "keeps_num f \<Longrightarrow> keeps_num (\<lambda>q. vq_kick_fd_update (g3 q) (f q))"
  "keeps_num f \<Longrightarrow> keeps_num (\<lambda>q. vq_call_fd_update (g3 q) (f q))"
  "keeps_num f \<Longrightarrow> keeps_num (\<lambda>q. vq_err_fd_update (g3 q) (f q))"
  "keeps_num f \<Longrightarrow> keeps_num (\<lambda>q. vq_inflight_update (g4 q) (f q))"
  "keeps_num f \<Longrightarrow> keeps_num (\<lambda>q. vq_handler_update (g5 q) (f q))"
  "keeps_num (\<lambda>q. q\<lparr>vq_ring := (vq_ring q)\<lparr>vr_desc := d, vr_used := u, vr_avail := a\<rparr>\<rparr>)"
  "keeps_num (\<lambda>q. q\<lparr>vq_vra := vra, vq_ring := (vq_ring q)\<lparr>vr_flags := fl, vr_log := lg\<rparr>\<rparr>)"
  by (simp_all add: keeps_num_def)

lemma upd_num:
  "\<forall>q\<in>set qs. unat (vr_num (vq_ring q)) < 65536 \<Longrightarrow> i < length qs \<Longrightarrow> unat (vr_num (vq_ring (f (qs ! i)))) < 65536 \<Longrightarrow>
   \<forall>q\<in>set (qs[i := f (qs ! i)]). unat (vr_num (vq_ring q)) < 65536"
  using set_update_subset_insert [of qs i] by fastforce

lemma safe_upd:
  assumes "i < N" and "\<And>q. unat (vr_num (vq_ring q)) < 65536 \<Longrightarrow> unat (vr_num (vq_ring (f q))) < 65536"
  shows "safe (dev_at N M) (vq_upd i f)"
  unfolding safe_def
proof (rule tripleI)
  fix s assume s: "dev_at N M s"
  then have i: "i < length (d_vq s)" using assms(1) by (simp add: dev_at_def)
  moreover have "unat (vr_num (vq_ring (f (d_vq s ! i)))) < 65536"
    using s nth_mem [OF i] by (intro assms(2)) (simp add: dev_at_def)
  moreover have "\<forall>q\<in>set (d_vq s). unat (vr_num (vq_ring q)) < 65536" using s by (simp add: dev_at_def)
  ultimately have "\<forall>q\<in>set ((d_vq s)[i := f (d_vq s ! i)]). unat (vr_num (vq_ring q)) < 65536"
    by (intro upd_num)
  with i s show "case vq_upd i f s of Ret a s' \<Rightarrow> dev_at N M s' | Stop (Undef u) s' \<Rightarrow> False | Stop e s' \<Rightarrow> True"
    unfolding vq_upd_def by (simp add: dev_at_def)
qed

lemma safe_vq_upd [safe]: "i < N \<Longrightarrow> keeps_num f \<Longrightarrow> safe (dev_at N M) (vq_upd i f)"
  by (rule safe_upd) (simp_all add: keeps_num_def)

lemma safe_vq_num: "i < N \<Longrightarrow> unat n < 65536 \<Longrightarrow>
    safe (dev_at N M) (vq_upd i (\<lambda>q. q\<lparr>vq_ring := (vq_ring q)\<lparr>vr_num := n\<rparr>\<rparr>))"
  by (rule safe_upd) simp_all

lemma safe_region_get [safe]: "i < VHOST_USER_MAX_RAM_SLOTS \<Longrightarrow> safe (dev_at N M) (region_get i)"
  by (simp add: safe_def triple_def region_get_def dev_at_def)

lemma safe_region_put [safe]: "i < VHOST_USER_MAX_RAM_SLOTS \<Longrightarrow> safe (dev_at N M) (region_put i r)"
  by (simp add: safe_def triple_def region_put_def dev_at_def)

lemma safe_trace [safe]: "safe (dev_at N M) (trace e)"
  unfolding trace_def by (rule safe) (simp add: dev_at_def)

lemma safe_close [safe]: "safe (dev_at N M) (sys_close fd)"
  unfolding sys_close_def by (rule safe)

lemma safe_munmap [safe]: "safe (dev_at N M) (sys_munmap a sz)"
  unfolding sys_munmap_def by (rule safe)

lemma safe_mmap [safe]: "safe (dev_at N M) (sys_mmap sz)"
  by (auto simp: safe_def triple_def sys_mmap_def dev_at_def split: list.split)

lemma safe_ok [safe]: "safe (dev_at N M) sys_ok"
  by (auto simp: safe_def triple_def sys_ok_def dev_at_def split: list.split)

lemma safe_newfd [safe]: "safe (dev_at N M) sys_newfd"
  by (auto simp: safe_def triple_def sys_newfd_def dev_at_def split: list.split)

lemma safe_eventfd [safe]: "safe (dev_at N M) (sys_eventfd fd)"
  unfolding sys_eventfd_def by (intro safe)

lemma safe_panic [safe]: "safe (dev_at N M) (vu_panic msg)"
  by (auto simp: safe_def triple_def vu_panic_def dev_at_def Let_def)

lemma safe_set_mem [safe]: "safe (dev_at N M) (set_mem f)"
  unfolding set_mem_def by (rule safe) (simp add: dev_at_def)

lemma safe_set_flag [safe]: "safe (dev_at N M) (set_flag p i b)"
  unfolding set_flag_def by (rule safe)

lemma safe_has_feature [safe]: "fbit < 64 \<Longrightarrow> safe (dev_at N M) (has_feature f fbit)"
  unfolding has_feature_def vassert_def by (simp add: safe)

lemma safe_vu_has_feature [safe]: "fbit < 64 \<Longrightarrow> safe (dev_at N M) (vu_has_feature fbit)"
  unfolding vu_has_feature_def by (intro safe)

lemma protocol_bit_less: "protocol_bit p < 64"
  by (cases p) simp_all

lemma safe_protocol_feature [safe]: "safe (dev_at N M) (vu_has_protocol_feature p)"
  unfolding vu_has_protocol_feature_def by (intro safe protocol_bit_less)

lemma safe_done [safe]: "safe I (done_msg r v)"
  unfolding done_msg_def by (rule safe)

lemma safe_close_fds [safe]: "safe (dev_at N M) (vmsg_close_fds v)"
  unfolding vmsg_close_fds_def by (intro safe)

lemma dev_inv_max: "dev_at N M t \<Longrightarrow> unat (d_max_queues t) = N"
  by (simp add: dev_at_def)

lemma dev_inv_nregions: "dev_at N M t \<Longrightarrow> unat (d_nregions t) \<le> VHOST_USER_MAX_RAM_SLOTS"
  by (simp add: dev_at_def)

section \<open>The handlers\<close>

lemma safe_enable_all [safe]: "safe (dev_at N M) (vu_set_enable_all_rings b)"
  unfolding vu_set_enable_all_rings_def by (intro safe) (auto dest: dev_inv_max)

lemma safe_map_ring [safe]: "i < N \<Longrightarrow> safe (dev_at N M) (map_ring i)"
  unfolding map_ring_def qva_to_va_def by (intro safe)

lemma safe_remap [safe]: "safe (dev_at N M) (remap_rings why)"
  unfolding remap_rings_def by (intro safe) (auto dest: dev_inv_max)

lemma safe_faults_from: "\<forall>i\<in>set is. i < VHOST_USER_MAX_RAM_SLOTS \<Longrightarrow> safe (dev_at N M) (generate_faults_from is)"
  by (induction "is") (simp_all add: safe)

lemma safe_faults [safe]: "safe (dev_at N M) generate_faults"
  unfolding generate_faults_def by (intro safe safe_faults_from) (auto dest: dev_inv_nregions)

lemma safe_map_region [safe]: "i < VHOST_USER_MAX_RAM_SLOTS \<Longrightarrow> safe (dev_at N M) (map_region i m)"
  unfolding map_region_def by (intro safe)

lemma safe_close_kick [safe]: "i < N \<Longrightarrow> safe (dev_at N M) (close_kick i)"
  unfolding close_kick_def by (intro safe)

lemma safe_close_call [safe]: "i < N \<Longrightarrow> safe (dev_at N M) (close_call i)"
  unfolding close_call_def by (intro safe)

lemma safe_close_err [safe]: "i < N \<Longrightarrow> safe (dev_at N M) (close_err i)"
  unfolding close_err_def by (intro safe)


text \<open>The device implementation's callbacks keep the invariant too.\<close>

definition callbacks_ok :: "nat \<Rightarrow> callbacks \<Rightarrow> bool" where
  "callbacks_ok N cb = ((\<forall>f. cb_get_features cb = Some f \<longrightarrow> safe (dev_inv N) f) \<and>
     (\<forall>f x. cb_set_features cb = Some f \<longrightarrow> safe (dev_inv N) (f x)) \<and>
     (\<forall>f. cb_get_protocol_features cb = Some f \<longrightarrow> safe (dev_inv N) f) \<and>
     (\<forall>f x. cb_set_protocol_features cb = Some f \<longrightarrow> safe (dev_inv N) (f x)) \<and>
     cb_process_msg cb = None \<and>
     (\<forall>f i b. cb_queue_set_started cb = Some f \<longrightarrow> i < N \<longrightarrow> safe (dev_inv N) (f i b)) \<and>
     (\<forall>f i. cb_in_order cb = Some f \<longrightarrow> i < N \<longrightarrow> safe (dev_inv N) (f i)) \<and>
     (\<forall>f r n. cb_get_config cb = Some f \<longrightarrow> safe (dev_inv N) (f r n)) \<and>
     (\<forall>f r a b c. cb_set_config cb = Some f \<longrightarrow> safe (dev_inv N) (f r a b c)) \<and>
     (\<forall>f u. cb_get_shared_object cb = Some f \<longrightarrow> safe (dev_inv N) (f u)) \<and>
     (\<forall>h i. i < N \<longrightarrow> safe (dev_inv N) (cb_handler cb h i)))"

text \<open>The messages that a device with \<open>N\<close> queues can take: where a handler does not check an
  index or a count itself, the frontend has to.\<close>

definition request_fields :: "nat \<Rightarrow> vmsg \<Rightarrow> bool" where
  "request_fields N v =
     (let r = unat (m_request v) in
      (r = 8 \<longrightarrow> unat (pl_index v) < N \<and> unat (pl_num v) < 65536) \<and>
      (r = 10 \<or> r = 11 \<longrightarrow> unat (pl_index v) < N) \<and>
      (r = 9 \<longrightarrow> unat (va_index (pl_addr v)) < N) \<and>
      (r = 5 \<longrightarrow> unat (pl_index v) \<le> VHOST_MEMORY_BASELINE_NREGIONS) \<and>
      (r = 16 \<longrightarrow> pl_u64 v AND pbit F_INFLIGHT_SHMFD = 0) \<and>
      (r = 32 \<longrightarrow> pl_get 16 2 v \<le> N))"

definition request_ok :: "nat \<Rightarrow> vmsg \<Rightarrow> vst \<Rightarrow> bool" where
  "request_ok N v s = (request_fields N v \<and> (unat (m_request v) = 5 \<longrightarrow> \<not> d_postcopy_listening s))"

lemmas request_conds = request_ok_def request_fields_def Let_def


locale device_callbacks =
  fixes N :: nat and cb :: callbacks
  assumes ok: "callbacks_ok N cb"

text \<open>Handlers that need no condition.\<close>

lemma safe_reply_handlers:
  "safe (dev_at N M) (vu_set_owner_exec v)"
  "safe (dev_at N M) (vu_reset_device_exec v)"
  "safe (dev_at N M) (vu_get_queue_num_exec v)"
  "safe (dev_at N M) (vu_handle_get_max_memslots v)"
  unfolding vu_set_owner_exec_def vu_reset_device_exec_def vu_get_queue_num_exec_def vu_handle_get_max_memslots_def
  by (intro safe)+

lemma safe_log_handlers:
  "safe (dev_at N M) (vu_set_log_base_exec v)"
  "safe (dev_at N M) (vu_set_log_fd_exec v)"
  "safe (dev_at N M) (vu_set_backend_req_fd v)"
  unfolding vu_set_log_base_exec_def vu_set_log_fd_exec_def vu_set_backend_req_fd_def
  by (intro safe; simp add: dev_at_def)+

text \<open>Handlers that change the number of regions.\<close>

lemma safe_any_nregions: "(\<And>k. triple (dev_at N (Some k)) f (\<lambda>_. dev_inv N)) \<Longrightarrow> safe (dev_inv N) f"
  by (auto simp: safe_def triple_def dev_at_def dev_inv_def)

lemma triple_safe: "safe (dev_at N M) f \<Longrightarrow> triple (dev_at N M) f (\<lambda>_. dev_inv N)"
  unfolding safe_def by (erule triple_post) (simp add: dev_at_def dev_inv_def)

lemma triple_then: "safe (dev_at N M) f \<Longrightarrow> (\<And>a. triple (dev_at N M) (g a) Q) \<Longrightarrow> triple (dev_at N M) (vbind f g) Q"
  unfolding safe_def by (rule triple_bind)

lemma triple_seq: "safe (dev_at N M) f \<Longrightarrow> triple (dev_at N M) g Q \<Longrightarrow> triple (dev_at N M) (vseq f g) Q"
  unfolding vseq_def by (rule triple_then)

lemma triple_get: "(\<And>t. dev_at N M t \<Longrightarrow> triple (dev_at N M) (g (f t)) Q) \<Longrightarrow> triple (dev_at N M) (vbind (vget f) g) Q"
  by (simp add: triple_def vbind_def vget_def)

lemma triple_if: "triple P f Q \<Longrightarrow> triple P g Q \<Longrightarrow> triple P (if b then f else g) Q"
  by simp

lemma triple_set_nregions:
  "(\<And>s. dev_at N M s \<Longrightarrow> dev_inv N (f s)) \<Longrightarrow> triple (dev_at N M) (vseq (vmod f) (done_msg r v)) (\<lambda>_. dev_inv N)"
  by (simp add: triple_def vseq_def vbind_def vmod_def done_msg_def vret_def)

lemma dev_inv_next:
  assumes "dev_at N (Some k) s" and "unat k \<noteq> VHOST_USER_MAX_RAM_SLOTS"
  shows "dev_inv N (s\<lparr>d_nregions := d_nregions s + 1\<rparr>)"
proof -
  have "unat (d_nregions s) \<le> 32" "unat (d_nregions s) \<noteq> 32"
    using assms by (auto simp: dev_at_def VHOST_USER_MAX_RAM_SLOTS_def)
  then have k: "unat (d_nregions s) < 32" by linarith
  then have "unat (d_nregions s + 1) = unat (d_nregions s) + 1" by (simp add: unat_word_ariths)
  with k assms(1) show ?thesis by (simp add: dev_at_def dev_inv_def VHOST_USER_MAX_RAM_SLOTS_def)
qed

lemma safe_add_mem_reg: "safe (dev_inv N) (vu_add_mem_reg v)"
proof (rule safe_any_nregions)
  fix k
  let ?I = "dev_at N (Some k)"
  have map_in: "unat k < VHOST_USER_MAX_RAM_SLOTS" if "?I t" "unat k \<noteq> VHOST_USER_MAX_RAM_SLOTS" for t
    using that by (auto simp: dev_at_def)
  have tail: "triple ?I (if track
        then vseq (vmod (\<lambda>s. s\<lparr>d_nregions := d_nregions s + 1\<rparr>)) (done_msg True w)
        else vseq (remap_rings why) (vseq (vmod (\<lambda>s. s\<lparr>d_nregions := d_nregions s + 1\<rparr>)) (done_msg False v))) (\<lambda>_. dev_inv N)"
    if "unat k \<noteq> VHOST_USER_MAX_RAM_SLOTS" for track w why
    using that by (auto intro!: triple_seq triple_set_nregions safe dev_inv_next)
  have "triple ?I (vbind (map_region (unat k) m) (\<lambda>_. vseq (sys_close fd)
       (if track then vseq (vmod (\<lambda>s. s\<lparr>d_nregions := d_nregions s + 1\<rparr>)) (done_msg True w)
        else vseq (remap_rings why) (vseq (vmod (\<lambda>s. s\<lparr>d_nregions := d_nregions s + 1\<rparr>)) (done_msg False v)))))
       (\<lambda>_. dev_inv N)" if "unat k \<noteq> VHOST_USER_MAX_RAM_SLOTS" "?I t" for m fd track w why t
    using that by (intro triple_then triple_seq tail safe map_in)
  then show "triple ?I (vu_add_mem_reg v) (\<lambda>_. dev_inv N)"
    unfolding vu_add_mem_reg_def
    by (intro triple_get) (auto simp: dev_at_def [of N "Some k"] intro!: triple_safe safe)
qed

lemma remove_regions_length:
  "triple (dev_at N M) (remove_regions m rs) (\<lambda>r s. dev_at N M s \<and> length (fst r) \<le> length rs)"
proof (induction rs)
  case Nil
  then show ?case by (simp add: triple_def vret_def)
next
  case (Cons r rs)
  have ret: "triple (\<lambda>s. dev_at N M s \<and> length (fst r) \<le> n) (vret (f r)) (\<lambda>r s. dev_at N M s \<and> length (fst r) \<le> Suc n)"
    if "\<And>r. length (fst (f r)) \<le> Suc (length (fst r))" for f :: "vu_region list \<times> bool \<Rightarrow> vu_region list \<times> bool" and r n
    using that [of r] by (auto simp: triple_def vret_def)
  show ?case
  proof (cases "reg_equal r m")
    case True
    then show ?thesis unfolding remove_regions.simps case_prod_beta length_Cons
      by (simp only: if_True) (intro triple_seq safe triple_bind [OF Cons.IH], rule ret, simp)
  next
    case False
    then show ?thesis unfolding remove_regions.simps case_prod_beta length_Cons
      by (simp only: if_False) (intro triple_bind [OF Cons.IH], rule ret, simp)
  qed
qed

lemma live_length: "dev_at N M t \<Longrightarrow> length (live_regions t) \<le> VHOST_USER_MAX_RAM_SLOTS"
  by (auto simp: live_regions_def dev_at_def)

lemma safe_rem_mem_reg: "safe (dev_inv N) (vu_rem_mem_reg v)"
proof -
  have set: "triple (\<lambda>s. dev_inv N s \<and> length (fst r) \<le> length live)
      (vmod (\<lambda>s. s\<lparr>d_regions := fst r @ replicate (length live - length (fst r)) region_zero @ drop (length live) (d_regions s),
                d_nregions := of_nat (length (fst r))\<rparr>)) (\<lambda>_. dev_inv N)"
    if "length live \<le> VHOST_USER_MAX_RAM_SLOTS" for live :: "vu_region list" and r :: "vu_region list \<times> bool"
  proof (rule tripleI)
    fix s assume "dev_inv N s \<and> length (fst r) \<le> length live"
    moreover from this that have "unat (of_nat (length (fst r)) :: u32) = length (fst r)"
      by (intro unat32) (simp add: VHOST_USER_MAX_RAM_SLOTS_def)
    ultimately show "case vmod (\<lambda>s. s\<lparr>d_regions := fst r @ replicate (length live - length (fst r)) region_zero @ drop (length live) (d_regions s),
                d_nregions := of_nat (length (fst r))\<rparr>) s of Ret a s' \<Rightarrow> dev_inv N s' | Stop (Undef u) s' \<Rightarrow> False | Stop e s' \<Rightarrow> True"
      using that by (simp add: vmod_def dev_inv_def VHOST_USER_MAX_RAM_SLOTS_def)
  qed
  have rest: "safe (dev_inv N) (vseq (vwhen b (vu_panic p)) (vseq (vmsg_close_fds v) (done_msg False v)))" for b p
    unfolding dev_at_None [symmetric] by (intro safe)
  have body: "triple (dev_inv N) (vbind (remove_regions m live) (\<lambda>(keep, found).
        vseq (vmod (\<lambda>s. s\<lparr>d_regions := keep @ replicate (length live - length keep) region_zero @ drop (length live) (d_regions s),
                d_nregions := of_nat (length keep)\<rparr>))
        (vseq (vwhen (\<not> found) (vu_panic p)) (vseq (vmsg_close_fds v) (done_msg False v))))) (\<lambda>_. dev_inv N)"
    if "length live \<le> VHOST_USER_MAX_RAM_SLOTS" for m live p
    unfolding case_prod_beta vseq_def [of "vmod _"]
    by (rule triple_bind [OF remove_regions_length [of N None, unfolded dev_at_None]],
        rule triple_bind [OF set [OF that]], rule rest [unfolded safe_def])
  have early: "triple (dev_at N None) (vseq (vmsg_close_fds v) (vseq (vu_panic p) (done_msg False v))) (\<lambda>_. dev_inv N)" for p
    by (intro triple_safe safe)
  show ?thesis
    unfolding safe_def vu_rem_mem_reg_def dev_at_None [symmetric]
    by (rule triple_if, rule early [unfolded dev_at_None [symmetric]], rule triple_if,
        rule early [unfolded dev_at_None [symmetric]], rule triple_get,
        rule body [unfolded dev_at_None [symmetric]], erule live_length)
qed

lemma safe_remove_regions [safe]: "safe (dev_at N M) (remove_regions m rs)"
  by (induction rs) (simp_all add: safe)

lemma safe_check_file [safe]: "safe (dev_at N M) (vu_check_queue_msg_file v)"
  unfolding vu_check_queue_msg_file_def by (intro safe)

lemma safe_enable: "safe (dev_at N M) (vu_set_vring_enable_exec v)"
  unfolding vu_set_vring_enable_exec_def by (intro safe) (auto dest: dev_inv_max)

lemma safe_postcopy:
  "safe (dev_at N M) (vu_set_postcopy_advise v)"
  "safe (dev_at N M) (vu_set_postcopy_listen v)"
  "safe (dev_at N M) (vu_set_postcopy_end v)"
  unfolding vu_set_postcopy_advise_def vu_set_postcopy_listen_def vu_set_postcopy_end_def
  by (intro safe; simp add: dev_at_def)+

lemma safe_memfd [safe]: "safe (dev_at N M) (memfd_alloc sz)"
  unfolding memfd_alloc_def by (intro safe)

lemma safe_get_inflight: "safe (dev_at N M) (vu_get_inflight_fd v)"
  unfolding vu_get_inflight_fd_def by (intro safe; simp add: dev_at_def)

lemma safe_place: "\<forall>i\<in>set is. i < N \<Longrightarrow> safe (dev_at N M) (place_inflight qs is rc)"
  by (induction "is" arbitrary: rc) (simp_all add: safe)

lemma safe_set_inflight: "pl_get 16 2 v \<le> N \<Longrightarrow> safe (dev_at N M) (vu_set_inflight_fd v)"
  unfolding vu_set_inflight_fd_def Let_def by (intro safe safe_place; simp add: dev_at_def)

lemma safe_vring:
  "unat (pl_index v) < N \<Longrightarrow> unat (pl_num v) < 65536 \<Longrightarrow> safe (dev_at N M) (vu_set_vring_num_exec v)"
  "unat (pl_index v) < N \<Longrightarrow> safe (dev_at N M) (vu_set_vring_base_exec v)"
  unfolding vu_set_vring_num_exec_def vu_set_vring_base_exec_def by (intro safe safe_vq_num; assumption)+

lemma safe_map_table:
  "\<forall>i\<in>set is. i < VHOST_MEMORY_BASELINE_NREGIONS \<Longrightarrow> safe (dev_at N M) (map_table v is)"
  by (induction "is") (auto intro!: safe simp: VHOST_MEMORY_BASELINE_NREGIONS_def VHOST_USER_MAX_RAM_SLOTS_def)

lemma safe_unmap [safe]: "safe (dev_at N M) unmap_regions"
  unfolding unmap_regions_def by (intro safe)


lemma safe_set_mem_table:
  assumes "unat (pl_index v) \<le> VHOST_MEMORY_BASELINE_NREGIONS"
  shows "triple (\<lambda>s. dev_inv N s \<and> \<not> d_postcopy_listening s) (vu_set_mem_table_exec v) (\<lambda>_. dev_inv N)"
proof -
  have frame: "\<not> d_postcopy_listening s \<Longrightarrow> vfor is (\<lambda>i. vwhen (b i) (sys_munmap (x i) (y i))) s = Ret a s' \<Longrightarrow> \<not> d_postcopy_listening s'"
    for "is" :: "nat list" and b x y a s s'
  proof (induction "is" arbitrary: s)
    case (Cons i "is")
    from Cons.prems obtain s1 where s1: "vwhen (b i) (sys_munmap (x i) (y i)) s = Ret () s1"
      "vfor is (\<lambda>i. vwhen (b i) (sys_munmap (x i) (y i))) s1 = Ret a s'" by (auto simp: vseq_def)
    then have "\<not> d_postcopy_listening s1"
      using Cons.prems(1) by (auto simp: vwhen_def sys_munmap_def trace_def vmod_def vret_def split: if_splits)
    with s1(2) show ?case by (rule Cons.IH [rotated])
  qed (simp add: vret_def)
  have unmap: "triple (\<lambda>s. dev_inv N s \<and> \<not> d_postcopy_listening s) unmap_regions (\<lambda>_ s. dev_inv N s \<and> \<not> d_postcopy_listening s)"
  proof (rule tripleI)
    fix s assume s: "dev_inv N s \<and> \<not> d_postcopy_listening s"
    have "triple (dev_inv N) unmap_regions (\<lambda>_. dev_inv N)"
      using safe_unmap [of N None] by (simp add: dev_at_None safe_def)
    with s have r: "case unmap_regions s of Ret a s' \<Rightarrow> dev_inv N s' | Stop (Undef u) s' \<Rightarrow> False | Stop e s' \<Rightarrow> True"
      by (simp add: triple_def)
    moreover have "\<not> d_postcopy_listening s'" if "unmap_regions s = Ret a s'" for a s'
      using that s by (auto simp: unmap_regions_def vget_def dest: frame [rotated])
    ultimately show "case unmap_regions s of Ret a s' \<Rightarrow> dev_inv N s' \<and> \<not> d_postcopy_listening s' | Stop (Undef u) s' \<Rightarrow> False | Stop e s' \<Rightarrow> True"
      by (auto split: vres.splits stop.splits)
  qed
  have set: "triple (\<lambda>s. dev_inv N s \<and> \<not> d_postcopy_listening s) (vmod (\<lambda>s. s\<lparr>d_nregions := pl_index v\<rparr>))
      (\<lambda>_ s. dev_inv N s \<and> \<not> d_postcopy_listening s)"
    using assms by (simp add: triple_def vmod_def dev_inv_def VHOST_MEMORY_BASELINE_NREGIONS_def VHOST_USER_MAX_RAM_SLOTS_def)
  have "safe (dev_at N None) (vseq (map_table v [0..<unat (pl_index v)]) (vseq (remap_rings p) (done_msg False v)))" for p
    using assms by (intro safe safe_map_table) auto
  then have rest: "triple (\<lambda>s. dev_inv N s \<and> \<not> d_postcopy_listening s)
      (vbind (vget d_postcopy_listening) (\<lambda>post. if post then vu_set_mem_table_exec_postcopy v
         else vseq (map_table v [0..<unat (pl_index v)]) (vseq (remap_rings p) (done_msg False v)))) (\<lambda>_. dev_inv N)" for p
    by (simp add: safe_def dev_at_None triple_def vbind_def vget_def)
  show ?thesis unfolding vu_set_mem_table_exec_def vseq_def [of unmap_regions] vseq_def [of "vmod _"]
    by (rule triple_bind [OF unmap], rule triple_bind [OF set], rule rest)
qed

lemma no_inflight [safe]: "safe (dev_at N M) (vu_check_queue_inflights i)"
proof -
  have off: "has_feature (d_protocol_features t) (protocol_bit F_INFLIGHT_SHMFD) = vret False" if "dev_at N M t" for t
    using that by (simp add: has_feature_def dev_at_def pbit_def bit64_def vassert_def vseq_def)
  show ?thesis
    unfolding vu_check_queue_inflights_def vu_has_protocol_feature_def vbind_assoc
    by (rule safe_get) (simp add: off safe del: protocol_bit.simps)
qed

context device_callbacks
begin

lemma vcall: "i < N \<Longrightarrow> safe (dev_at N None) (vcall (cb_queue_set_started cb) i b)"
  using ok by (cases "cb_queue_set_started cb") (auto simp: vcall_def callbacks_ok_def dev_at_None [symmetric] safe)

lemma callbacks_safe:
  "safe (dev_at N None) (case cb_get_features cb of None \<Rightarrow> vret 0 | Some f \<Rightarrow> f)"
  "safe (dev_at N None) (case cb_set_features cb of None \<Rightarrow> vret () | Some f \<Rightarrow> f x)"
  "safe (dev_at N None) (case cb_get_protocol_features cb of None \<Rightarrow> vret 0 | Some f \<Rightarrow> f)"
  "safe (dev_at N None) (case cb_set_protocol_features cb of None \<Rightarrow> vret () | Some f \<Rightarrow> f x)"
  "safe (dev_at N None) (case cb_get_shared_object cb of None \<Rightarrow> vret (- 1) | Some f \<Rightarrow> f u)"
  using ok by (auto simp: callbacks_ok_def dev_at_None [symmetric] safe_ret split: option.split)

lemma in_order_safe: "i < N \<Longrightarrow> safe (dev_at N None) (case cb_in_order cb of None \<Rightarrow> vret False | Some f \<Rightarrow> f i)"
  using ok by (auto simp: callbacks_ok_def dev_at_None [symmetric] safe_ret split: option.split)

lemma handler_safe: "i < N \<Longrightarrow> safe (dev_at N None) (case h of None \<Rightarrow> vret () | Some h \<Rightarrow> cb_handler cb h i)"
  using ok by (auto simp: callbacks_ok_def dev_at_None [symmetric] safe_ret split: option.split)

lemma features_safe:
  "safe (dev_at N None) (vu_get_features_exec cb v)"
  "safe (dev_at N None) (vu_get_protocol_features_exec cb v)"
  unfolding vu_get_features_exec_def vu_get_protocol_features_exec_def have_userfault_def
  by (rule callbacks_safe | rule safe)+

lemma set_features_safe: "safe (dev_at N None) (vu_set_features_exec cb v)"
  unfolding vu_set_features_exec_def VIRTIO_F_VERSION_1_def
  by (rule callbacks_safe | rule safe | simp add: dev_at_def; fail)+

lemma set_protocol_features_safe:
  "pl_u64 v AND pbit F_INFLIGHT_SHMFD = 0 \<Longrightarrow> safe (dev_at N None) (vu_set_protocol_features_exec cb v)"
  unfolding vu_set_protocol_features_exec_def
  by (rule callbacks_safe | rule safe | simp add: dev_at_def; fail)+

lemma config_safe:
  "safe (dev_at N None) (vu_get_config cb v)"
  "safe (dev_at N None) (vu_set_config cb v)"
  "safe (dev_at N None) (vu_get_shared_object cb v)"
proof -
  show "safe (dev_at N None) (vu_get_config cb v)"
    using ok unfolding vu_get_config_def
    by (cases "cb_get_config cb") (auto simp: callbacks_ok_def dev_at_None [symmetric] intro!: safe)
  show "safe (dev_at N None) (vu_set_config cb v)"
    using ok unfolding vu_set_config_def
    by (cases "cb_set_config cb") (auto simp: callbacks_ok_def dev_at_None [symmetric] intro!: safe)
  show "safe (dev_at N None) (vu_get_shared_object cb v)"
    unfolding vu_get_shared_object_def by (rule callbacks_safe | rule safe)+
qed

lemma vring_addr_safe: "unat (va_index (pl_addr v)) < N \<Longrightarrow> safe (dev_at N None) (vu_set_vring_addr_exec cb v)"
proof -
  assume i: "unat (va_index (pl_addr v)) < N"
  have load: "safe (dev_at N None) (\<lambda>s. vq_upd (unat (va_index (pl_addr v))) (\<lambda>q. q\<lparr>vq_used_idx := f s q\<rparr>) s)" for f
    using safe_vq_upd [OF i keeps_num(6) [OF keeps_num(1)], of None "\<lambda>q _. f s q" for s] by (simp add: safe_def triple_def)
  show ?thesis unfolding vu_set_vring_addr_exec_def Let_def
    by (insert i, (rule load in_order_safe safe_get | assumption | rule safe)+)
qed

lemma vring_base_safe: "unat (pl_index v) < N \<Longrightarrow> safe (dev_at N None) (vu_get_vring_base_exec cb v)"
  unfolding vu_get_vring_base_exec_def Let_def by (intro safe vcall)

lemma check_file_then:
  assumes "msg_queue v < N \<Longrightarrow> safe (dev_at N None) g"
  shows "safe (dev_at N None) (vbind (vu_check_queue_msg_file v) (\<lambda>ok. if \<not> ok then done_msg False v else g))"
proof (cases "msg_queue v < N")
  case True
  with assms show ?thesis by (intro safe) auto
next
  case False
  have "safe (dev_at N None) (vbind (vseq (vmsg_close_fds v) (vseq (vu_panic p) (vret False)))
      (\<lambda>ok. if \<not> ok then done_msg False v else g))" for p
    unfolding vseq_def vbind_assoc vbind_vret by (intro safe) simp
  with False show ?thesis unfolding vu_check_queue_msg_file_def vbind_assoc
    by (intro safe_get) (simp add: dev_inv_max)
qed

lemma set_kick_safe: "safe (dev_at N None) (vu_set_vring_kick_exec cb v)"
  unfolding vu_set_vring_kick_exec_def Let_def
  by (rule check_file_then, (rule vcall safe_get | assumption | rule safe)+)

lemma set_call_safe: "safe (dev_at N None) (vu_set_vring_call_exec v)"
  unfolding vu_set_vring_call_exec_def Let_def by (rule check_file_then, (assumption | rule safe)+)

lemma set_err_safe: "safe (dev_at N None) (vu_set_vring_err_exec v)"
  unfolding vu_set_vring_err_exec_def Let_def by (rule check_file_then, (assumption | rule safe)+)

lemma vring_kick_safe: "safe (dev_at N None) (vu_handle_vring_kick cb v)"
  unfolding vu_handle_vring_kick_def Let_def
  by (rule handler_safe vcall safe_get | rule safe | force dest: dev_inv_max)+

lemma handlers_safe:
  assumes "request_handler cb r = Some h" and ok': "request_ok N v s" and r: "unat (m_request v) = r" and s: "dev_at N None s"
  shows "case h v s of Ret a s' \<Rightarrow> dev_at N None s' | Stop (Undef u) s' \<Rightarrow> False | Stop e s' \<Rightarrow> True"
proof -
  have use: "case h v s of Ret a s' \<Rightarrow> dev_at N None s' | Stop (Undef u) s' \<Rightarrow> False | Stop e s' \<Rightarrow> True"
    if "safe (dev_at N None) (h v)"
    using that s by (simp add: safe_def triple_def)
  have mt: "case h v s of Ret a s' \<Rightarrow> dev_at N None s' | Stop (Undef u) s' \<Rightarrow> False | Stop e s' \<Rightarrow> True"
    if "r = 5" "h = vu_set_mem_table_exec"
    using safe_set_mem_table [of v N] that ok' r s unfolding dev_at_None [symmetric]
    by (simp add: triple_def request_conds)
  have all: "\<forall>p\<in>set (request_table cb). fst p = r \<longrightarrow> fst p = 5 \<and> snd p = vu_set_mem_table_exec \<or> safe (dev_at N None) (snd p v)"
    unfolding request_table_def list.set ball_simps fst_conv snd_conv
    using ok' r
    by (intro conjI TrueI; (simp add: features_safe set_features_safe config_safe safe_reply_handlers safe_log_handlers
        safe_add_mem_reg [folded dev_at_None] safe_rem_mem_reg [folded dev_at_None] safe_enable safe_postcopy
        safe_get_inflight set_kick_safe set_call_safe set_err_safe vring_kick_safe safe_exit; fail)?)
      (simp_all add: request_conds set_protocol_features_safe safe_set_inflight safe_vring vring_addr_safe vring_base_safe)
  have "(r, h) \<in> set (request_table cb)"
    using assms(1) unfolding request_handler_def by (rule map_of_SomeD)
  from bspec [OF all this] have "(r = 5 \<and> h = vu_set_mem_table_exec) \<or> safe (dev_at N None) (h v)" by simp
  with use mt show ?thesis by blast
qed

lemma process_safe:
  assumes "dev_inv N s" and "request_ok N v s"
  shows "case vu_process_message cb v s of Ret a s' \<Rightarrow> dev_inv N s' | Stop (Undef u) s' \<Rightarrow> False | Stop e s' \<Rightarrow> True"
proof (cases "request_handler cb (unat (m_request v))")
  case None
  have "safe (dev_at N None) (vseq (vmsg_close_fds v) (vseq (vu_panic p) (done_msg False v)))" for p
    by (intro safe)
  with None assms ok show ?thesis
    by (simp add: vu_process_message_def callbacks_ok_def Let_def safe_def triple_def dev_at_None)
next
  case (Some h)
  then show ?thesis using handlers_safe [OF Some assms(2) refl, unfolded dev_at_None, OF assms(1)] ok
    by (simp add: vu_process_message_def callbacks_ok_def Let_def)
qed

end

section \<open>What the library leaves unchecked\<close>

text \<open>The requests that name a ring by a bare index use it unchecked: \<^verbatim>\<open>SET_VRING_NUM\<close>,
  \<^verbatim>\<open>SET_VRING_ADDR\<close>, \<^verbatim>\<open>SET_VRING_BASE\<close> and \<^verbatim>\<open>GET_VRING_BASE\<close> with an index that is not below the
  number of queues access the queue array out of bounds.\<close>

theorem vring_index_unchecked:
  assumes "cb_process_msg cb = None" and "length (d_vq s) \<le> i"
    and "m_request v \<in> {8, 10, 11} \<and> i = unat (pl_index v) \<or> m_request v = 9 \<and> i = unat (va_index (pl_addr v))"
  shows "vu_process_message cb v s = Stop (Undef OutOfBounds) s"
proof -
  have "vq_upd i f s = Stop (Undef OutOfBounds) s" "vq_get i s = Stop (Undef OutOfBounds) s" for f
    using assms(2) by (simp_all add: vq_upd_def vq_get_def)
  then show ?thesis using assms(1,3)
    by (auto simp: vu_process_message_def request_handler_def request_table_def vu_set_vring_num_exec_def
        vu_set_vring_addr_exec_def vu_set_vring_base_exec_def vu_get_vring_base_exec_def vseq_def vbind_def Let_def)
qed

text \<open>A device over an empty world, for examples.\<close>

definition demo_dev :: "vu_virtq list \<Rightarrow> in_msg list \<Rightarrow> vst" where
  "demo_dev qs ms = \<lparr>d_sock = 4, d_nregions = 0, d_regions = replicate VHOST_USER_MAX_RAM_SLOTS region_zero, d_vq = qs,
     d_inflight_fd = 0, d_inflight_addr = 0, d_inflight_size = 0, d_log_call_fd = - 1, d_mutex = False,
     d_backend_fd = - 1, d_log_size = 0, d_log_table = 0, d_features = 0, d_protocol_features = 0, d_broken = False,
     d_max_queues = of_nat (length qs), d_panic_exits = True, d_postcopy_ufd = 0, d_postcopy_listening = False,
     w_mem = (\<lambda>_. NUL), w_trace = [], w_mmap = [], w_ok = [], w_fd = [], w_recv = ms, w_send = [], w_stack = [],
     g_sink = \<lparr>sk_store = \<lparr>ls_buf = [], ls_disk = [], ls_lock = None\<rparr>, sk_seq = 0\<rparr>, g_features = 0\<rparr>"

definition no_callbacks :: callbacks where
  "no_callbacks = \<lparr>cb_get_features = None, cb_set_features = None, cb_get_protocol_features = None,
     cb_set_protocol_features = None, cb_process_msg = None, cb_queue_set_started = None, cb_in_order = None,
     cb_get_config = None, cb_set_config = None, cb_get_shared_object = None, cb_handler = (\<lambda>_ _. vret ())\<rparr>"

theorem vring_index_unchecked_witness:
  "vu_process_message no_callbacks (pl_put 0 4 2 (msg_zero\<lparr>m_request := 8\<rparr>)) (demo_dev [vq_init, vq_init] []) =
     Stop (Undef OutOfBounds) (demo_dev [vq_init, vq_init] [])"
proof (rule vring_index_unchecked)
  show "cb_process_msg no_callbacks = None" by (simp add: no_callbacks_def)
  show "length (d_vq (demo_dev [vq_init, vq_init] [])) \<le> 2" by (simp add: demo_dev_def)
  show "m_request (pl_put 0 4 2 (msg_zero\<lparr>m_request := 8\<rparr>)) \<in> {8, 10, 11} \<and>
      2 = unat (pl_index (pl_put 0 4 2 (msg_zero\<lparr>m_request := 8\<rparr>))) \<or>
    m_request (pl_put 0 4 2 (msg_zero\<lparr>m_request := 8\<rparr>)) = 9 \<and>
      2 = unat (va_index (pl_addr (pl_put 0 4 2 (msg_zero\<lparr>m_request := 8\<rparr>))))"
    by (simp add: pl_index_def pl_get_put msg_zero_def) (simp add: pl_put_def)
qed

text \<open>Receiving a message that carries two or more descriptors aborts the process: the number of
  bytes of the descriptors is compared with the number of descriptors allowed.\<close>

theorem two_fds_abort:
  assumes "w_recv s = m # ms" and "0 \<le> in_rc m" and "in_fds m = Some fds" and "2 \<le> length fds"
  shows "vu_dispatch cb s = Stop (Undef AssertFailed) (s\<lparr>w_recv := ms\<rparr>)"
  using assms
  by (simp add: vu_dispatch_def vu_message_read_default_def sys_recv_def Let_def vu_defs VHOST_MEMORY_BASELINE_NREGIONS_def)

theorem two_fds_abort_witness:
  "vu_dispatch no_callbacks (demo_dev [vq_init] [\<lparr>in_rc = 12, in_hdr = [], in_fds = Some [7, 8], in_rc2 = 0, in_body = []\<rparr>]) =
     Stop (Undef AssertFailed) (demo_dev [vq_init] [])"
  by (subst two_fds_abort [of _ "\<lparr>in_rc = 12, in_hdr = [], in_fds = Some [7, 8], in_rc2 = 0, in_body = []\<rparr>" "[]" "[7, 8]"])
    (simp_all add: demo_dev_def)

end
