(* ===== verification/Backend.thy ===== *)
theory Backend
  imports Virtq Vu_Safe
begin

text \<open>
  \<^verbatim>\<open>project_1/vhost/backend.c\<close>: the vhost-user backend around the student's virtqueue device.
  Its descriptor table \<^verbatim>\<open>W\<close> is a function of the calls of \<^verbatim>\<open>set_watch\<close> and \<^verbatim>\<open>remove_watch\<close>
  that the library has made, which the trace records (\<open>watches\<close>).  The guest runs beside the
  device: it stores to the shared memory while the backend waits and before each kick
  (\<open>rd_wait\<close>, \<open>rd_step\<close>), and inside a kick between each round of \<^verbatim>\<open>tx_kick\<close> and the look at the avail
  index that follows it (\<open>gs\<close>).  Text on the standard error
  stream is not modelled.
\<close>

section \<open>Watched descriptors\<close>

definition MAXW :: nat where "MAXW = 32"
definition VQ_TX :: nat where "VQ_TX = 1"

type_synonym watch = "int \<times> nat"

fun update_watch :: "int \<Rightarrow> nat \<Rightarrow> watch list \<Rightarrow> watch list option" where
  "update_watch fd data [] = None"
| "update_watch fd data ((f, x) # W) =
     (if f = fd then Some ((f, data) # W) else map_option ((#) (f, x)) (update_watch fd data W))"

definition set_watch :: "int \<Rightarrow> nat \<Rightarrow> watch list \<Rightarrow> watch list" where
  "set_watch fd data W =
     (case update_watch fd data W of
        Some W' \<Rightarrow> W'
      | None \<Rightarrow> if length W < MAXW then W @ [(fd, data)] else W)"

fun watch_index :: "int \<Rightarrow> watch list \<Rightarrow> nat option" where
  "watch_index fd [] = None"
| "watch_index fd ((f, x) # W) = (if f = fd then Some 0 else map_option Suc (watch_index fd W))"

definition remove_watch :: "int \<Rightarrow> watch list \<Rightarrow> watch list" where
  "remove_watch fd W =
     (case watch_index fd W of None \<Rightarrow> W | Some i \<Rightarrow> butlast (W[i := W ! (length W - 1)]))"

fun apply_watch :: "watch list \<Rightarrow> vu_event \<Rightarrow> watch list" where
  "apply_watch W (Set_watch fd data) = set_watch fd data W"
| "apply_watch W (Remove_watch fd) = remove_watch fd W"
| "apply_watch W _ = W"

definition watches :: "vst \<Rightarrow> watch list" where
  "watches s = foldl apply_watch [] (w_trace s)"

section \<open>Kicks\<close>

definition build_mem :: "vst \<Rightarrow> virtq_mem" where
  "build_mem s = map (\<lambda>r. \<lparr>r_gpa = g_gpa r, r_size = g_size r, r_hva = g_maddr r + g_moff r\<rparr>)
     (take VHOST_USER_MAX_RAM_SLOTS (live_regions s))"

definition avail_event_at :: "virtq \<Rightarrow> u64" where
  "avail_event_at vq = q_used vq + 4 + of_nat (8 * unat (q_num vq))"

text \<open>The loop of \<^verbatim>\<open>tx_kick\<close>; the result is the queue, the memory, the sink and \<^verbatim>\<open>total\<close>.  The
  student's handler may not return, and then neither does the loop (\<open>None\<close>).\<close>

partial_function (option) kick_loop ::
  "virtq_mem \<Rightarrow> bool \<Rightarrow> (hmem \<Rightarrow> hmem) list \<Rightarrow> virtq \<Rightarrow> hmem \<Rightarrow> vlog_sink \<Rightarrow> nat \<Rightarrow>
    (ub + virtq \<times> hmem \<times> vlog_sink \<times> nat) option" where
  "kick_loop mem event_idx gs vq hm sk tot =
     (case vlog_virtq_handle vq mem hm sk of
        None \<Rightarrow> None
      | Some r \<Rightarrow>
          (case r of
             Inl e \<Rightarrow> Some (Inl e)
           | Inr s \<Rightarrow>
               let vq1 = run_vq s; n = run_chains s in
               if \<not> event_idx then Some (Inr (vq1, run_mem s, run_sink s, tot + n))
               else
                 let hm1 = st16 (run_mem s) (avail_event_at vq1) (q_last_avail vq1);
                     hm2 = (case gs of [] \<Rightarrow> hm1 | g # _ \<Rightarrow> g hm1) in
                 if avail_idx hm2 (q_avail vq1) = q_last_avail vq1 then Some (Inr (vq1, hm2, run_sink s, tot + n))
                 else if n = 0 then Some (Inr (vq1, hm2, run_sink s, tot + n))
                 else kick_loop mem event_idx (tl gs) vq1 hm2 (run_sink s) (tot + n)))"

text \<open>The ring size of the library has 32 bits, the one of \<^verbatim>\<open>struct virtq\<close> 16.\<close>

definition queue_view :: "vu_virtq \<Rightarrow> virtq" where
  "queue_view q = (let r = vq_ring q in
     \<lparr>q_desc = vr_desc r, q_avail = vr_avail r, q_used = vr_used r, q_num = ucast (vr_num r), q_last_avail = vq_last_avail q\<rparr>)"

definition tx_kick :: "(hmem \<Rightarrow> hmem) list \<Rightarrow> nat \<Rightarrow> unit vu" where
  "tx_kick gs qidx =
     vbind (vu_get_queue qidx) (\<lambda>q.
       let r = vq_ring q in
       if vr_desc r = 0 \<or> vr_avail r = 0 \<or> vr_used r = 0 \<or> vr_num r = 0 then vret ()
       else (\<lambda>s.
         case kick_loop (build_mem s) (g_features s AND bit64 VIRTIO_RING_F_EVENT_IDX \<noteq> 0) gs (queue_view q) (w_mem s) (g_sink s) 0 of
           None \<Rightarrow> Stop Diverges s
         | Some (Inl e) \<Rightarrow> Stop (Undef e) s
         | Some (Inr (vq, hm, sk, tot)) \<Rightarrow>
             vseq (vq_upd qidx (\<lambda>q. q\<lparr>vq_last_avail := q_last_avail vq\<rparr>))
               (if tot > 0 \<and> vq_call_fd q \<ge> 0 then vbind (sys_eventfd (vq_call_fd q)) (\<lambda>_. vret ()) else vret ())
               (s\<lparr>w_mem := hm, g_sink := sk\<rparr>)))"

section \<open>The device's callbacks\<close>

definition queue_set_started :: "nat \<Rightarrow> bool \<Rightarrow> unit vu" where
  "queue_set_started qidx started =
     vbind (vu_get_queue qidx) (\<lambda>_.
       if qidx = VQ_TX then vu_set_queue_handler qidx (if started then Some 0 else None) else vret ())"

definition get_features :: "u64 vu" where "get_features = vret (bit64 VIRTIO_F_VERSION_1)"

definition set_features :: "u64 \<Rightarrow> unit vu" where "set_features f = vmod (\<lambda>s. s\<lparr>g_features := f\<rparr>)"

text \<open>Handler 0 is \<^verbatim>\<open>tx_kick\<close>, the only one the backend installs.\<close>

definition iface :: "(hmem \<Rightarrow> hmem) list \<Rightarrow> callbacks" where
  "iface gs = \<lparr>cb_get_features = Some get_features, cb_set_features = Some set_features,
     cb_get_protocol_features = None, cb_set_protocol_features = None, cb_process_msg = None,
     cb_queue_set_started = Some queue_set_started, cb_in_order = None, cb_get_config = None,
     cb_set_config = None, cb_get_shared_object = None, cb_handler = (\<lambda>_. tx_kick gs)\<rparr>"

section \<open>The program\<close>

text \<open>What \<^verbatim>\<open>poll\<close> reports in one turn, and the guest's stores in it: while the backend waits, before
  the kick of each descriptor is served, and during a kick.\<close>

record round =
  rd_poll :: bool
  rd_cfd :: bool
  rd_ready :: "int \<Rightarrow> bool"
  rd_wait :: "hmem \<Rightarrow> hmem"
  rd_step :: "int \<Rightarrow> hmem \<Rightarrow> hmem"
  rd_guest :: "(hmem \<Rightarrow> hmem) list"

fun serve_watches :: "(int \<Rightarrow> hmem \<Rightarrow> hmem) \<Rightarrow> (hmem \<Rightarrow> hmem) list \<Rightarrow> int list \<Rightarrow> unit vu" where
  "serve_watches step gs [] = vret ()"
| "serve_watches step gs (fd # fds) =
     vseq (set_mem (step fd))
     (vseq (vbind (vget watches) (\<lambda>W. case map_of W fd of None \<Rightarrow> vret () | Some i \<Rightarrow> vu_kick_cb (iface gs) i))
       (serve_watches step gs fds))"

fun backend_loop :: "round list \<Rightarrow> unit vu" where
  "backend_loop [] = vret ()"
| "backend_loop (r # rs) =
     vbind (vget watches) (\<lambda>W.
       if \<not> rd_poll r then vret ()
       else vseq (set_mem (rd_wait r)) (vbind (if rd_cfd r then vu_dispatch (iface (rd_guest r)) else vret True) (\<lambda>ok.
         if \<not> ok then vret ()
         else vseq (serve_watches (rd_step r) (rd_guest r) (filter (rd_ready r) (map fst W))) (backend_loop rs))))"

record backend_env =
  be_sink :: "bool \<times> bool \<times> bool"
  be_bind :: bool
  be_listen :: bool
  be_accept :: int
  be_calloc :: bool
  be_rounds :: "round list"

text \<open>The exit status, and the content of the log file once it is closed.\<close>

definition backend_main :: "backend_env \<Rightarrow> string list \<Rightarrow> (int \<times> byte list option) vu" where
  "backend_main e argv =
     (if length argv < 3 then vret (2, None)
      else case be_sink e of (calloc_ok, store_ok, fopen_ok) \<Rightarrow>
        (case vlog_sink_open calloc_ok store_ok fopen_ok of
           None \<Rightarrow> vret (1, None)
         | Some sk \<Rightarrow>
             vseq (vmod (\<lambda>s. s\<lparr>g_sink := sk, g_features := 0, w_trace := []\<rparr>))
             (if \<not> be_bind e \<or> \<not> be_listen e then vret (1, None)
              else if be_accept e < 0 then vret (1, None)
              else vbind (vu_init 2 (be_accept e) True (be_calloc e)) (\<lambda>ok.
                if \<not> ok then vret (1, None)
                else vseq (backend_loop (be_rounds e)) (vseq vu_deinit
                  (vget (\<lambda>s. (0, vlog_sink_close (Some (g_sink s))))))))))"

section \<open>Watches\<close>

lemma watch_lengths: "update_watch fd data W = Some W' \<Longrightarrow> length W' = length W"
  by (induction W arbitrary: W') (auto split: if_splits)

lemma watches_bound: "length (watches s) \<le> MAXW"
proof -
  have "length (foldl apply_watch W es) \<le> MAXW" if "length W \<le> MAXW" for W es
    using that
  proof (induction es arbitrary: W)
    case (Cons e es)
    have "length (apply_watch W e) \<le> MAXW"
      using Cons.prems by (cases e) (auto simp: set_watch_def remove_watch_def MAXW_def dest: watch_lengths split: option.split)
    then show ?case using Cons.IH by simp
  qed simp
  then show ?thesis by (simp add: watches_def)
qed

section \<open>The contract of the callbacks\<close>

lemma handle_no_ub: "q_num vq \<noteq> 0 \<Longrightarrow> vlog_virtq_handle vq mem hm sk \<noteq> Some (Inl e)"
  using handle_ub_iff [of vq mem hm sk] by auto


lemma handle_view:
  assumes "vlog_virtq_handle vq mem hm sk = Some (Inr s)"
  shows "run_vq s = vq\<lparr>q_last_avail := avail_idx hm (q_avail vq)\<rparr>"
    and "run_chains s = unat (avail_idx hm (q_avail vq) - q_last_avail vq)"
  using handle_loop_counts [OF assms [unfolded vlog_virtq_handle_def] refl] by (simp_all add: left_def)


lemmas kick_induct = kick_loop.raw_induct [rotated, consumes 1, case_names step]

lemma kick_no_ub: "kick_loop mem ev gs vq hm sk tot = Some r \<Longrightarrow> q_num vq \<noteq> 0 \<Longrightarrow> \<exists>x. r = Inr x"
proof (induction rule: kick_induct)
  case (step f mem ev gs vq hm sk tot r)
  then show ?case
    using handle_no_ub [OF step(3)] by (auto simp: Let_def handle_view(1) split: option.splits sum.splits if_splits)
qed

text \<open>The end of a kick with event suppression: \<^verbatim>\<open>avail_event\<close> is published and nothing is left.\<close>

lemma kick_published:
  assumes "kick_loop mem ev gs vq hm sk tot = Some r" and "r = Inr (vq', hm', sk', n)" and "ev"
    and "\<forall>g\<in>set gs. \<forall>h. ld16 (g h) (avail_event_at vq) = ld16 h (avail_event_at vq)"
  shows "avail_event_at vq' = avail_event_at vq \<and> q_avail vq' = q_avail vq \<and>
    ld16 hm' (avail_event_at vq) = q_last_avail vq' \<and>
    (avail_idx hm' (q_avail vq) = q_last_avail vq' \<or> avail_idx hm (q_avail vq) = q_last_avail vq)"
  using assms
proof (induction arbitrary: vq' hm' sk' n rule: kick_induct)
  case (step f mem ev gs vq hm sk tot r)
  show ?case
  proof (cases "vlog_virtq_handle vq mem hm sk")
    case None
    with step show ?thesis by simp
  next
    case (Some x)
    with step obtain s where s: "vlog_virtq_handle vq mem hm sk = Some (Inr s)" by (cases x) auto
    note v = handle_view [OF s]
    let ?hm1 = "st16 (run_mem s) (avail_event_at (run_vq s)) (q_last_avail (run_vq s))"
    define hm2 where "hm2 = (case gs of [] \<Rightarrow> ?hm1 | g # _ \<Rightarrow> g ?hm1)"
    have ev: "avail_event_at (run_vq s) = avail_event_at vq" by (simp add: v avail_event_at_def)
    have ld: "ld16 hm2 (avail_event_at vq) = q_last_avail (run_vq s)"
      using step(5) by (cases gs) (simp_all add: ev cmem hm2_def)
    have eq: "(if avail_idx hm2 (q_avail (run_vq s)) = q_last_avail (run_vq s)
        then Some (Inr (run_vq s, hm2, run_sink s, tot + run_chains s))
        else if run_chains s = 0 then Some (Inr (run_vq s, hm2, run_sink s, tot + run_chains s))
        else f mem ev (tl gs) (run_vq s) hm2 (run_sink s) (tot + run_chains s)) = Some r"
      using step(2,4) s unfolding hm2_def by (simp only: Let_def option.case sum.case not_True_eq_False if_False)
    show ?thesis
    proof (cases "avail_idx hm2 (q_avail (run_vq s)) = q_last_avail (run_vq s) \<or> run_chains s = 0")
      case True
      with eq have r: "r = Inr (run_vq s, hm2, run_sink s, tot + run_chains s)" by (auto split: if_splits)
      from True have "avail_idx hm2 (q_avail vq) = q_last_avail (run_vq s) \<or> avail_idx hm (q_avail vq) = q_last_avail vq"
        by (auto simp: v unat_eq_0)
      with r step(3) ev ld show ?thesis by (auto simp: v)
    next
      case False
      with eq have f: "f mem ev (tl gs) (run_vq s) hm2 (run_sink s) (tot + run_chains s) = Some r" by simp
      have "\<forall>g\<in>set (tl gs). \<forall>h. ld16 (g h) (avail_event_at (run_vq s)) = ld16 h (avail_event_at (run_vq s))"
        using step(5) ev by (cases gs) simp_all
      from step(1) [OF f step(3) step(4) this] False ev show ?thesis by (simp add: v)
    qed
  qed
qed

lemma tx_kick_safe: "i < 2 \<Longrightarrow> safe (dev_inv 2) (tx_kick gs i)"
proof -
  assume i: "i < 2"
  show ?thesis unfolding safe_def
  proof (rule tripleI)
    fix s assume s: "dev_inv 2 s"
    then have len: "length (d_vq s) = 2" "unat (d_max_queues s) = 2"
      "\<forall>q\<in>set (d_vq s). unat (vr_num (vq_ring q)) < 65536" by (simp_all add: dev_inv_def)
    let ?q = "d_vq s ! i" and ?ev = "g_features s AND bit64 VIRTIO_RING_F_EVENT_IDX \<noteq> 0"
    have num: "ucast (vr_num (vq_ring ?q)) \<noteq> (0 :: u16)" if "vr_num (vq_ring ?q) \<noteq> 0"
    proof -
      have "unat (vr_num (vq_ring ?q)) < 65536" using len i by (simp add: nth_mem)
      then have "unat (ucast (vr_num (vq_ring ?q)) :: u16) = unat (vr_num (vq_ring ?q))"
        by (simp add: unsigned_ucast_eq take_bit_nat_eq_self)
      with that show ?thesis by (metis unat_0 unat_eq_0)
    qed
    have rest: "safe (dev_inv 2) (vseq (vq_upd i (\<lambda>q. q\<lparr>vq_last_avail := x\<rparr>))
        (if b then vbind (sys_eventfd fd) (\<lambda>_. vret ()) else vret ()))" for x b fd
      unfolding dev_at_None [symmetric] using i by (intro safe)
    have upd: "dev_inv 2 (s\<lparr>w_mem := hm, g_sink := sk\<rparr>)" for hm sk using s by (simp add: dev_inv_def)
    have q: "vu_get_queue i s = Ret ?q s"
      using i len by (simp add: vu_get_queue_def vbind_def vget_def vseq_def vassert_def vret_def vq_get_def)
    show "case tx_kick gs i s of Ret a s' \<Rightarrow> dev_inv 2 s' | Stop (Undef u) s' \<Rightarrow> False | Stop e s' \<Rightarrow> True"
    proof (cases "vr_desc (vq_ring ?q) = 0 \<or> vr_avail (vq_ring ?q) = 0 \<or> vr_used (vq_ring ?q) = 0 \<or> vr_num (vq_ring ?q) = 0")
      case True
      then show ?thesis using s q by (auto simp: tx_kick_def vbind_def vret_def Let_def)
    next
      case False
      then have nz: "q_num (queue_view ?q) \<noteq> 0" using num by (simp add: queue_view_def Let_def)
      show ?thesis
      proof (cases "kick_loop (build_mem s) ?ev gs (queue_view ?q) (w_mem s) (g_sink s) 0")
        case None
        with False q show ?thesis by (simp add: tx_kick_def vbind_def Let_def)
      next
        case (Some r)
        from kick_no_ub [OF Some nz] obtain vq hm sk n where r: "r = Inr (vq, hm, sk, n)" by auto
        show ?thesis
          using rest [of "q_last_avail vq" "n > 0 \<and> vq_call_fd ?q \<ge> 0" "vq_call_fd ?q"] upd [where hm = hm and sk = sk] False q Some r
          by (simp add: tx_kick_def vbind_def [of "vu_get_queue i"] Let_def safe_def triple_def)
      qed
    qed
  qed
qed

lemma queue_set_started_safe: "i < 2 \<Longrightarrow> safe (dev_inv 2) (queue_set_started i b)"
proof -
  assume i: "i < 2"
  have get: "safe (dev_at 2 None) (vbind (vu_get_queue i) (\<lambda>_. f))" if "safe (dev_at 2 None) f" for f :: "unit vu"
    using that i unfolding vu_get_queue_def vassert_def vbind_assoc
    by (intro safe_get) (auto simp: dev_inv_max intro!: safe)
  show ?thesis
    unfolding dev_at_None [symmetric] queue_set_started_def vu_set_queue_handler_def
    by (insert i, rule get, (assumption | rule safe)+)
qed

interpretation backend: device_callbacks 2 "iface gs" for gs
proof (unfold_locales, unfold callbacks_ok_def, intro conjI allI impI)
qed (auto simp: iface_def get_features_def set_features_def tx_kick_safe queue_set_started_safe dev_inv_def
    intro!: safe)

section \<open>Properties of the backend\<close>

text \<open>C15: Every message of the frontend that satisfies \<open>request_ok\<close> is processed by the backend
  without undefined behaviour, and leaves a device with two queues, at most 32 memory regions and
  ring sizes below 65536.\<close>

theorem backend_message_safe:
  assumes "dev_inv 2 s" and "request_ok 2 v s"
  shows "case vu_process_message (iface gs) v s of
     Ret a s' \<Rightarrow> dev_inv 2 s' | Stop (Undef u) s' \<Rightarrow> False | Stop e s' \<Rightarrow> True"
  by (rule backend.process_safe [OF assms])

lemma demo_dev_inv: "dev_inv 2 (demo_dev [vq_init, vq_init] ms)"
  by (simp add: dev_inv_def demo_dev_def vq_init_def VHOST_USER_MAX_RAM_SLOTS_def)

lemma iface_process: "cb_process_msg (iface gs) = None"
  by (simp add: iface_def)

theorem backend_message_safe_witness:
  "\<exists>a s'. vu_process_message (iface []) (pl_put 0 4 1 (msg_zero\<lparr>m_request := 18\<rparr>)) (demo_dev [vq_init, vq_init] []) = Ret a s' \<and>
     dev_inv 2 s'"
proof -
  define v where "v = pl_put 0 4 1 (msg_zero\<lparr>m_request := 18\<rparr>)"
  let ?s = "demo_dev [vq_init, vq_init] []"
  have v: "m_request v = 18" "pl_index v = 1" by (simp add: v_def pl_put_def, simp add: v_def pl_index_def pl_get_put msg_zero_def)
  have ok: "request_ok 2 v ?s" unfolding request_conds v by simp
  have "request_handler (iface []) 18 = Some vu_set_vring_enable_exec"
    by (simp add: request_handler_def request_table_def)
  then have "\<exists>a s'. vu_process_message (iface []) v ?s = Ret a s'"
    by (simp add: vu_process_message_def v Let_def iface_process
        vu_set_vring_enable_exec_def vu_defs done_msg_def vq_upd_def demo_dev_def) blast
  then show ?thesis using backend_message_safe [OF demo_dev_inv ok, of "[]"] by (fastforce simp: v_def)
qed

text \<open>C21: With event suppression negotiated, a kick that returns has published the index it
  stopped at, and either everything the guest announced is processed or there was nothing to do at
  all; any later announcement then passes the published index, so the driver kicks again and the
  queue cannot stall.\<close>

theorem kick_no_stall:
  assumes "kick_loop mem True gs vq hm sk 0 = Some (Inr (vq', hm', sk', n))"
    and "\<forall>g\<in>set gs. \<forall>h. ld16 (g h) (avail_event_at vq) = ld16 h (avail_event_at vq)"
  shows "(avail_idx hm' (q_avail vq) = q_last_avail vq' \<or> avail_idx hm (q_avail vq) = q_last_avail vq) \<and>
    (\<forall>new. new \<noteq> q_last_avail vq' \<longrightarrow> vring_need_event (ld16 hm' (avail_event_at vq)) new (q_last_avail vq'))"
proof -
  note k = kick_published [OF assms(1) refl TrueI assms(2)]
  have "vring_need_event e new e" if "new \<noteq> e" for new e :: u16
  proof -
    have "0 < unat (new - e)" using that by (simp add: unat_gt_0)
    then show ?thesis unfolding need_event_passed passed_def by (intro exI [of _ 0]) simp
  qed
  with k show ?thesis by simp
qed

text \<open>C30: Without event suppression a kick on a well-formed queue appends exactly the records of the
  chains the guest announced, moves the queue's index to the announced one, and raises the
  interrupt exactly when there was a chain.\<close>

theorem tx_kick_spec:
  assumes q: "i < length (d_vq s)" "i < unat (d_max_queues s)" "q = d_vq s ! i"
    and ring: "vr_desc (vq_ring q) \<noteq> 0" "vr_avail (vq_ring q) \<noteq> 0" "vr_used (vq_ring q) \<noteq> 0"
    and ev: "g_features s AND bit64 VIRTIO_RING_F_EVENT_IDX = 0"
    and vq: "vq = queue_view q" "undisturbed vq (build_mem s) (w_mem s)" "q_num vq \<noteq> 0" "unat (q_num vq) dvd 65536"
    and n: "n = unat (avail_idx (w_mem s) (q_avail vq) - q_last_avail vq)" "n \<le> unat (q_num vq)"
    and call: "0 \<le> vq_call_fd q" "w_ok s = True # oks"
  shows "\<exists>s'. tx_kick gs i s = Ret () s' \<and>
    g_sink s' = fold (emit_chain vq (build_mem s) (w_mem s)) (heads vq (w_mem s) (q_last_avail vq) n) (g_sink s) \<and>
    vq_last_avail (d_vq s' ! i) = avail_idx (w_mem s) (q_avail vq) \<and>
    w_trace s' = w_trace s @ (if n = 0 then [] else [Ev_write (vq_call_fd q)])"
proof -
  obtain r where r: "vlog_virtq_handle vq (build_mem s) (w_mem s) (g_sink s) = Some (Inr r)" "run_chains r = n"
    "run_vq r = vq\<lparr>q_last_avail := avail_idx (w_mem s) (q_avail vq)\<rparr>"
    "run_sink r = fold (emit_chain vq (build_mem s) (w_mem s)) (heads vq (w_mem s) (q_last_avail vq) n) (g_sink s)"
    using handle_run [OF vq(2-4) n, of "g_sink s"] by blast
  have "kick_loop (build_mem s) False gs vq (w_mem s) (g_sink s) 0 = Some (Inr (run_vq r, run_mem r, run_sink r, n))"
    by (subst kick_loop.simps) (simp add: r)
  moreover have "vu_get_queue i s = Ret q s"
    using q by (simp add: vu_get_queue_def vbind_def vget_def vseq_def vassert_def vret_def vq_get_def)
  moreover have "vr_num (vq_ring q) \<noteq> 0" using vq(1,3) by (auto simp: queue_view_def Let_def)
  ultimately show ?thesis
    using ring ev call q(1) vq(1) r
    by (simp add: tx_kick_def vbind_def vseq_def vq_upd_def sys_eventfd_def sys_ok_def vwhen_def vret_def trace_def vmod_def)
qed

text \<open>A ring whose size is a multiple of 65536 reaches the student's handler as a ring of size 0,
  and the first announced chain divides by zero.\<close>

theorem ring_size_truncated:
  assumes q: "i < length (d_vq s)" "i < unat (d_max_queues s)" "q = d_vq s ! i"
    and ring: "vr_desc (vq_ring q) \<noteq> 0" "vr_avail (vq_ring q) \<noteq> 0" "vr_used (vq_ring q) \<noteq> 0"
    and num: "0 < unat (vr_num (vq_ring q))" "65536 dvd unat (vr_num (vq_ring q))"
    and new: "avail_idx (w_mem s) (vr_avail (vq_ring q)) \<noteq> vq_last_avail q"
  shows "tx_kick gs i s = Stop (Undef DivByZero) s"
proof -
  have "unat (ucast (vr_num (vq_ring q)) :: u16) = 0"
    using num(2) by (simp add: unsigned_ucast_eq take_bit_eq_mod)
  then have "ucast (vr_num (vq_ring q)) = (0 :: u16)" by (simp only: unat_eq_0)
  then have "vlog_virtq_handle (queue_view q) (build_mem s) (w_mem s) (g_sink s) = Some (Inl DivByZero)"
    using new by (simp add: vlog_virtq_handle_def handle_loop.simps handle_chain_def queue_view_def Let_def)
  then have "kick_loop (build_mem s) ev gs (queue_view q) (w_mem s) (g_sink s) 0 = Some (Inl DivByZero)" for ev
    by (subst kick_loop.simps) simp
  moreover have "vu_get_queue i s = Ret q s"
    using q by (simp add: vu_get_queue_def vbind_def vget_def vseq_def vassert_def vret_def vq_get_def)
  moreover have "vr_num (vq_ring q) \<noteq> 0" using num(1) by auto
  ultimately show ?thesis using ring by (simp add: tx_kick_def vbind_def)
qed

section \<open>Examples\<close>

definition demo_queue :: "u32 \<Rightarrow> vu_virtq" where
  "demo_queue n = vq_init\<lparr>vq_ring := (vq_ring vq_init)\<lparr>vr_num := n, vr_desc := 0x1000, vr_avail := 0x2000, vr_used := 0x3000\<rparr>,
     vq_call_fd := 9\<rparr>"

definition demo_kick :: "u32 \<Rightarrow> vst" where
  "demo_kick n = (demo_dev [vq_init, demo_queue n] [])\<lparr>w_mem := demo_hm, w_ok := [True], d_nregions := 1,
     d_regions := [\<lparr>g_gpa = 0x100000, g_size = 0x1000, g_qva = 0, g_moff = 0, g_maddr = 0x9000\<rparr>]\<rparr>"

lemma demo_kick_facts:
  "1 < length (d_vq (demo_kick n))" "1 < unat (d_max_queues (demo_kick n))" "d_vq (demo_kick n) ! 1 = demo_queue n"
  "build_mem (demo_kick n) = demo_regions" "w_mem (demo_kick n) = demo_hm" "queue_view (demo_queue 2) = demo_vq"
  "g_features (demo_kick n) = 0" "w_ok (demo_kick n) = [True]"
  by (simp_all add: demo_kick_def demo_dev_def demo_queue_def build_mem_def live_regions_def demo_regions_def
      queue_view_def demo_vq_def vq_init_def VHOST_USER_MAX_RAM_SLOTS_def)

lemma demo_queue_facts:
  "vr_desc (vq_ring (demo_queue n)) = 0x1000" "vr_avail (vq_ring (demo_queue n)) = 0x2000"
  "vr_used (vq_ring (demo_queue n)) = 0x3000" "vr_num (vq_ring (demo_queue n)) = n" "vq_call_fd (demo_queue n) = 9"
  "vq_last_avail (demo_queue n) = 0"
  by (simp_all add: demo_queue_def vq_init_def)

theorem tx_kick_spec_witness:
  "\<exists>s'. tx_kick [] 1 (demo_kick 2) = Ret () s' \<and> w_trace s' = w_trace (demo_kick 2) @ [Ev_write 9]"
proof -
  have ready: "1 = unat (avail_idx (w_mem (demo_kick 2)) (q_avail demo_vq) - q_last_avail demo_vq)"
    using demo_rings by (simp add: demo_kick_facts demo_vq_def)
  have und: "undisturbed demo_vq (build_mem (demo_kick 2)) (w_mem (demo_kick 2))"
    by (simp only: demo_kick_facts(4,5) demo_undisturbed)
  have num: "q_num demo_vq \<noteq> 0" "unat (q_num demo_vq) dvd 65536" "1 \<le> unat (q_num demo_vq)"
    by (simp_all add: demo_vq_def)
  show ?thesis
    using tx_kick_spec [OF demo_kick_facts(1,2) demo_kick_facts(3) [symmetric] _ _ _ _ demo_kick_facts(6) [symmetric] und num(1,2)
        ready num(3) _ demo_kick_facts(8), of "[]"]
    by (simp add: demo_kick_facts(7) demo_queue_facts) blast
qed

theorem ring_size_truncated_witness: "tx_kick [] 1 (demo_kick 65536) = Stop (Undef DivByZero) (demo_kick 65536)"
  by (rule ring_size_truncated [OF demo_kick_facts(1,2) demo_kick_facts(3) [symmetric]])
    (simp_all add: demo_kick_facts(5) demo_queue_facts demo_rings)

theorem kick_no_stall_witness:
  "\<exists>hm'. kick_loop [] True [] demo_vq (\<lambda>_. NUL) demo_sink 0 = Some (Inr (demo_vq, hm', demo_sink, 0)) \<and>
    vring_need_event (ld16 hm' (avail_event_at demo_vq)) 1 0"
proof -
  let ?hm = "st16 (\<lambda>_. NUL) (avail_event_at demo_vq) 0"
  have "avail_idx (\<lambda>_. NUL) 0x2000 = 0"
    by (simp add: avail_idx_def ld16_def ld_bytes_def upt_rec)
  then have "vlog_virtq_handle demo_vq [] (\<lambda>_. NUL) demo_sink = Some (Inr \<lparr>run_vq = demo_vq, run_mem = (\<lambda>_. NUL), run_sink = demo_sink, run_chains = 0\<rparr>)"
    by (simp add: vlog_virtq_handle_def handle_loop.simps demo_vq_def)
  then have k: "kick_loop [] True [] demo_vq (\<lambda>_. NUL) demo_sink 0 = Some (Inr (demo_vq, ?hm, demo_sink, 0))"
    by (subst kick_loop.simps) (simp add: Let_def demo_vq_def)
  show ?thesis
    using kick_no_stall [OF k] k by (auto simp: demo_vq_def)
qed

end
