(* ===== verification/Backend_Session.thy ===== *)
theory Backend_Session
  imports Backend
begin

text \<open>
  A whole run of \<^verbatim>\<open>project_1/vhost/backend.c\<close>: \<open>backend_main\<close> from its start to its end, over any
  guest and any frontend whose messages are well formed (\<open>polite\<close>).  \<open>keeps J f\<close> is partial
  correctness: if \<open>f\<close> returns, it returns in \<open>J\<close>; with \<open>safe\<close> of the device invariant it gives the
  invariant of the session, \<open>session\<close>.  \<open>returns f Q\<close> says the same of the value.
\<close>

section \<open>Partial correctness\<close>

definition keeps :: "(vst \<Rightarrow> bool) \<Rightarrow> 'a vu \<Rightarrow> bool" where
  "keeps J f = (\<forall>s a s'. J s \<longrightarrow> f s = Ret a s' \<longrightarrow> J s')"

definition returns :: "'a vu \<Rightarrow> ('a \<Rightarrow> bool) \<Rightarrow> bool" where
  "returns f Q = (\<forall>s a s'. f s = Ret a s' \<longrightarrow> Q a)"

named_theorems keeps "what a computation keeps, by its shape"
named_theorems returns "what a computation returns, by its shape"

lemma keeps_bind [keeps]: "keeps J f \<Longrightarrow> (\<And>a. keeps J (g a)) \<Longrightarrow> keeps J (vbind f g)"
  unfolding keeps_def vbind_Ret by metis

lemma keeps_seq [keeps]: "keeps J f \<Longrightarrow> keeps J g \<Longrightarrow> keeps J (vseq f g)"
  unfolding vseq_def by (rule keeps_bind)

lemma keeps_get [keeps]: "(\<And>t. J t \<Longrightarrow> keeps J (g (f t))) \<Longrightarrow> keeps J (vbind (vget f) g)"
  unfolding keeps_def vbind_Ret vget_def vres.inject by metis

lemma keeps_simple [keeps]: "keeps J (vret a)" "keeps J (vget x)" "keeps J (vstop e)" "keeps J (vassert b)"
  by (auto simp: keeps_def vu_defs)

lemma keeps_mod [keeps]: "(\<And>s. J s \<Longrightarrow> J (f s)) \<Longrightarrow> keeps J (vmod f)"
  by (simp add: keeps_def vmod_def)

lemma keeps_when [keeps]: "(b \<Longrightarrow> keeps J f) \<Longrightarrow> keeps J (vwhen b f)"
  by (simp add: vwhen_def keeps)

lemma keeps_if [keeps]: "(b \<Longrightarrow> keeps J f) \<Longrightarrow> (\<not> b \<Longrightarrow> keeps J g) \<Longrightarrow> keeps J (if b then f else g)"
  by simp

lemma keeps_let [keeps]: "(\<And>x. keeps J (f x)) \<Longrightarrow> keeps J (let x = a in f x)"
  by simp

lemma keeps_option [keeps]: "keeps J f \<Longrightarrow> (\<And>x. keeps J (g x)) \<Longrightarrow> keeps J (case x of None \<Rightarrow> f | Some x \<Rightarrow> g x)"
  by (cases x) auto

lemma keeps_prod [keeps]: "(\<And>a b. keeps J (f a b)) \<Longrightarrow> keeps J (case x of (a, b) \<Rightarrow> f a b)"
  by (cases x) auto

lemma keeps_for [keeps]: "(\<And>i. keeps J (f i)) \<Longrightarrow> keeps J (vfor is f)"
  by (induction "is") (auto intro: keeps)

lemma returns_bind: "returns f P \<Longrightarrow> (\<And>a. P a \<Longrightarrow> returns (g a) Q) \<Longrightarrow> returns (vbind f g) Q"
  unfolding returns_def vbind_Ret by metis

lemma returns_last [returns]: "(\<And>a. returns (g a) Q) \<Longrightarrow> returns (vbind f g) Q"
  unfolding returns_def vbind_Ret by metis

lemma returns_seq [returns]: "returns g Q \<Longrightarrow> returns (vseq f g) Q"
  unfolding vseq_def by (rule returns_last)

lemma returns_stop [returns]: "returns (vstop e) Q"
  by (simp add: returns_def vstop_def)

lemma returns_ret: "Q a \<Longrightarrow> returns (vret a) Q"
  by (simp add: returns_def vret_def)

lemma returns_if [returns]: "(b \<Longrightarrow> returns f Q) \<Longrightarrow> (\<not> b \<Longrightarrow> returns g Q) \<Longrightarrow> returns (if b then f else g) Q"
  by simp

lemma returns_let [returns]: "(\<And>x. x = a \<Longrightarrow> returns (f x) Q) \<Longrightarrow> returns (let x = a in f x) Q"
  by simp

lemma returns_option [returns]: "returns f Q \<Longrightarrow> (\<And>x. returns (g x) Q) \<Longrightarrow> returns (case x of None \<Rightarrow> f | Some x \<Rightarrow> g x) Q"
  by (cases x) auto

lemma returns_prod [returns]: "(\<And>a b. returns (f a b) Q) \<Longrightarrow> returns (case x of (a, b) \<Rightarrow> f a b) Q"
  by (cases x) auto

section \<open>Frontends\<close>

text \<open>The message that the backend has after it read \<open>m\<close>, if the two calls succeed.\<close>

definition received :: "in_msg \<Rightarrow> vmsg" where
  "received m =
     (let v1 = set_hdr (overlay (in_hdr m) (hdr_bytes msg_zero)) msg_zero;
          v2 = (case in_fds m of None \<Rightarrow> v1
            | Some fds \<Rightarrow> v1\<lparr>m_fd_num := int (length fds), m_fds := fds @ drop (length fds) (m_fds v1)\<rparr>)
      in if m_size v2 \<noteq> 0 then v2\<lparr>m_payload := overlay (in_body m) (m_payload v2)\<rparr> else v2)"

text \<open>A well-formed message: at most one descriptor, a payload that arrives in one piece, the
  conditions the library leaves to the frontend, and no switch to postcopy.\<close>

definition polite :: "nat \<Rightarrow> in_msg \<Rightarrow> bool" where
  "polite N m =
     ((case in_fds m of None \<Rightarrow> True | Some fds \<Rightarrow> length fds \<le> 1) \<and>
      (0 < in_rc2 m \<longrightarrow> word_of_int (in_rc2 m) = m_size (received m)) \<and>
      unat (m_request (received m)) \<noteq> 29 \<and> request_fields N (received m))"

text \<open>What a session keeps beside the invariant of the device: the frontend stays polite, postcopy
  is off, and every watch is that of a queue.\<close>

definition calm :: "nat \<Rightarrow> vst \<Rightarrow> bool" where
  "calm N s = (unat (d_max_queues s) = N \<and> \<not> d_postcopy_listening s \<and> (\<forall>m\<in>set (w_recv s). polite N m) \<and>
     (\<forall>fd i. Set_watch fd i \<in> set (w_trace s) \<longrightarrow> i < N))"

definition session :: "nat \<Rightarrow> vst \<Rightarrow> bool" where
  "session N s = (dev_inv N s \<and> calm N s)"

section \<open>The library keeps the session calm\<close>

lemma calm_trace [keeps]: "(\<And>fd i. e = Set_watch fd i \<Longrightarrow> i < N) \<Longrightarrow> keeps (calm N) (trace e)"
  unfolding trace_def by (rule keeps) (auto simp: calm_def)

lemma calm_prims [keeps]:
  "keeps (calm N) (vq_get i)" "keeps (calm N) (vq_upd i f)" "keeps (calm N) (region_get i)" "keeps (calm N) (region_put i r)"
  "keeps (calm N) (sys_mmap sz)" "keeps (calm N) sys_ok" "keeps (calm N) sys_newfd" "keeps (calm N) (vu_panic msg)"
  "keeps (calm N) (set_mem g)" "keeps (calm N) sys_recv"
  by (auto simp: keeps_def calm_def vq_get_def vq_upd_def region_get_def region_put_def sys_mmap_def sys_ok_def sys_newfd_def
      vu_panic_def set_mem_def vmod_def sys_recv_def Let_def split: if_splits list.splits)

lemma calm_calls [keeps]:
  "keeps (calm N) (sys_close fd)" "keeps (calm N) (sys_munmap a sz)" "keeps (calm N) (sys_eventfd fd)"
  "keeps (calm N) (set_flag p i b)" "keeps (calm N) (has_feature f b')" "keeps (calm N) (vu_has_feature b')"
  "keeps (calm N) (vu_has_protocol_feature p')" "keeps (calm N) (done_msg r v)" "keeps (calm N) (qva_to_va qa)"
  unfolding sys_close_def sys_munmap_def sys_eventfd_def set_flag_def has_feature_def vu_has_feature_def
    vu_has_protocol_feature_def done_msg_def qva_to_va_def
  by ((intro keeps; simp)+)

lemma calm_max: "calm N t \<Longrightarrow> unat (d_max_queues t) = N"
  by (simp add: calm_def)


lemma calm_close_fds [keeps]: "keeps (calm N) (vmsg_close_fds v)"
  unfolding vmsg_close_fds_def by (intro keeps)

lemma calm_userfault [keeps]: "keeps (calm N) have_userfault"
  unfolding have_userfault_def by (intro keeps)

lemma calm_memory [keeps]:
  "keeps (calm N) (vu_set_enable_all_rings b)" "keeps (calm N) (map_ring i)" "keeps (calm N) (map_region i m)"
  "keeps (calm N) (memfd_alloc sz)" "keeps (calm N) unmap_regions"
  unfolding vu_set_enable_all_rings_def map_ring_def map_region_def memfd_alloc_def unmap_regions_def
  by (intro keeps)+

lemma calm_remap [keeps]: "keeps (calm N) (remap_rings why)"
  unfolding remap_rings_def by (intro keeps)

lemma calm_loops [keeps]:
  "keeps (calm N) (generate_faults_from is)" "keeps (calm N) (remove_regions m rs)" "keeps (calm N) (map_table v is)"
  "keeps (calm N) (place_inflight qs is rc)"
proof -
  show "keeps (calm N) (generate_faults_from is)" by (induction "is") (simp_all add: keeps)
  show "keeps (calm N) (remove_regions m rs)" by (induction rs) (simp_all add: keeps)
  show "keeps (calm N) (map_table v is)" by (induction "is") (auto intro!: keeps)
  show "keeps (calm N) (place_inflight qs is rc)" by (induction "is" arbitrary: rc) (simp_all add: keeps)
qed

lemma calm_faults [keeps]: "keeps (calm N) generate_faults"
  unfolding generate_faults_def by (intro keeps)

lemma calm_close [keeps]:
  "keeps (calm N) (close_kick i)" "keeps (calm N) (close_call i)" "keeps (calm N) (close_err i)"
  unfolding close_kick_def close_call_def close_err_def by (intro keeps; simp)+

lemma calm_inflights [keeps]: "keeps (calm N) (vu_check_queue_inflights i)"
  unfolding vu_check_queue_inflights_def resubmit_inflights_def by (intro keeps)

lemma calm_check_file [keeps]: "keeps (calm N) (vu_check_queue_msg_file v)"
  unfolding vu_check_queue_msg_file_def by (intro keeps)

lemma calm_io [keeps]:
  "keeps (calm N) (vu_message_read_default v)" "keeps (calm N) (vu_send_reply fd v)"
proof -
  show "keeps (calm N) (vu_message_read_default v)" unfolding vu_message_read_default_def by (intro keeps)
  have "keeps (calm N) (\<lambda>s. case w_send s of True # bs \<Rightarrow> Ret True (s\<lparr>w_send := bs, w_trace := w_trace s @ [Sent fd v]\<rparr>)
       | bs \<Rightarrow> vseq (vu_panic msg) (vret False) (s\<lparr>w_send := tl bs\<rparr>))" for v msg
    by (auto simp: keeps_def calm_def vu_panic_def vu_defs Let_def split: list.splits bool.splits if_splits)
  then show "keeps (calm N) (vu_send_reply fd v)"
    unfolding vu_send_reply_def vu_message_write_def by (intro keeps)
qed

text \<open>Handlers that call no callback.\<close>

lemma calm_handlers:
  "keeps (calm N) (vu_set_owner_exec v)" "keeps (calm N) (vu_reset_device_exec v)" "keeps (calm N) (vu_get_queue_num_exec v)"
  "keeps (calm N) (vu_handle_get_max_memslots v)" "keeps (calm N) (vu_set_log_base_exec v)"
  "keeps (calm N) (vu_set_log_fd_exec v)" "keeps (calm N) (vu_set_backend_req_fd v)" "keeps (calm N) (vu_set_vring_num_exec v)"
  "keeps (calm N) (vu_set_vring_base_exec v)" "keeps (calm N) (vu_set_vring_call_exec v)"
  "keeps (calm N) (vu_set_vring_err_exec v)" "keeps (calm N) (vu_set_vring_enable_exec v)"
  "keeps (calm N) (vu_set_postcopy_advise v)" "keeps (calm N) (vu_set_postcopy_end v)"
  "keeps (calm N) (vu_get_inflight_fd v)" "keeps (calm N) (vu_set_inflight_fd v)"
  "keeps (calm N) (vu_add_mem_reg v)" "keeps (calm N) (vu_rem_mem_reg v)" "keeps (calm N) (vu_set_mem_table_exec v)"
  unfolding vu_set_owner_exec_def vu_reset_device_exec_def vu_get_queue_num_exec_def vu_handle_get_max_memslots_def
    vu_set_log_base_exec_def vu_set_log_fd_exec_def vu_set_backend_req_fd_def vu_set_vring_num_exec_def
    vu_set_vring_base_exec_def vu_set_vring_call_exec_def vu_set_vring_err_exec_def vu_set_vring_enable_exec_def
    vu_set_postcopy_advise_def vu_set_postcopy_end_def vu_get_inflight_fd_def vu_set_inflight_fd_def
    vu_add_mem_reg_def vu_rem_mem_reg_def vu_set_mem_table_exec_def vu_set_mem_table_exec_postcopy_def
  by (intro keeps; simp add: calm_def)+


section \<open>Replies\<close>

text \<open>A handler leaves a message that can be sent: at most eight descriptors.\<close>

abbreviation sendable :: "bool \<times> vmsg \<Rightarrow> bool" where
  "sendable p \<equiv> m_fd_num (snd p) \<le> int VHOST_MEMORY_BASELINE_NREGIONS"

lemma returns_done [returns]: "m_fd_num v \<le> int VHOST_MEMORY_BASELINE_NREGIONS \<Longrightarrow> returns (done_msg r v) sendable"
  unfolding done_msg_def by (rule returns_ret) simp

lemma pl_put_fds: "m_fd_num (pl_put off n x v) = m_fd_num v"
  by (simp add: pl_put_def)

lemma reply_fds: "m_fd_num (vmsg_set_reply_u64 v x) = 0"
  by (simp add: vmsg_set_reply_u64_def pl_put_fds)

lemma read_sendable: "m_fd_num v \<le> int VHOST_MEMORY_BASELINE_NREGIONS \<Longrightarrow> returns (vu_message_read_default v) sendable"
  by (auto simp: returns_def vu_message_read_default_def vu_defs sys_recv_def vu_panic_def Let_def
      VHOST_MEMORY_BASELINE_NREGIONS_def set_hdr_def split: if_splits list.splits option.splits vres.splits)

lemma returns_read:
  assumes "m_fd_num v \<le> int VHOST_MEMORY_BASELINE_NREGIONS"
    and "\<And>ok w. m_fd_num w \<le> int VHOST_MEMORY_BASELINE_NREGIONS \<Longrightarrow> returns (g ok w) Q"
  shows "returns (vbind (vu_message_read_default v) (\<lambda>(ok, w). g ok w)) Q"
  by (rule returns_bind [OF read_sendable [OF assms(1)]]) (auto intro: assms(2))

lemmas handler_defs =
  vu_get_features_exec_def vu_set_features_exec_def vu_get_protocol_features_exec_def vu_set_protocol_features_exec_def
  vu_set_owner_exec_def vu_reset_device_exec_def vu_set_mem_table_exec_def vu_set_mem_table_exec_postcopy_def
  vu_set_log_base_exec_def vu_set_log_fd_exec_def vu_set_vring_num_exec_def vu_set_vring_addr_exec_def
  vu_set_vring_base_exec_def vu_get_vring_base_exec_def vu_set_vring_kick_exec_def vu_set_vring_call_exec_def
  vu_set_vring_err_exec_def vu_get_queue_num_exec_def vu_set_vring_enable_exec_def vu_set_backend_req_fd_def
  vu_get_config_def vu_set_config_def vu_set_postcopy_advise_def vu_set_postcopy_listen_def vu_set_postcopy_end_def
  vu_get_inflight_fd_def vu_set_inflight_fd_def vu_handle_vring_kick_def vu_handle_get_max_memslots_def
  vu_add_mem_reg_def vu_rem_mem_reg_def vu_get_shared_object_def

lemma sendable_handlers:
  assumes "m_fd_num v \<le> int VHOST_MEMORY_BASELINE_NREGIONS"
  shows "\<forall>p\<in>set (request_table cb). returns (snd p v) sendable"
  unfolding request_table_def list.set ball_simps snd_conv handler_defs
  by (intro conjI TrueI; (rule returns_read | rule returns | insert assms; simp add: pl_put_fds reply_fds VHOST_MEMORY_BASELINE_NREGIONS_def; fail)+)


section \<open>Callbacks\<close>

definition callbacks_calm :: "nat \<Rightarrow> callbacks \<Rightarrow> bool" where
  "callbacks_calm N cb =
     ((\<forall>f. cb_get_features cb = Some f \<longrightarrow> keeps (calm N) f) \<and>
      (\<forall>f x. cb_set_features cb = Some f \<longrightarrow> keeps (calm N) (f x)) \<and>
      (\<forall>f. cb_get_protocol_features cb = Some f \<longrightarrow> keeps (calm N) f) \<and>
      (\<forall>f x. cb_set_protocol_features cb = Some f \<longrightarrow> keeps (calm N) (f x)) \<and>
      (\<forall>f i b. cb_queue_set_started cb = Some f \<longrightarrow> i < N \<longrightarrow> keeps (calm N) (f i b)) \<and>
      (\<forall>f i. cb_in_order cb = Some f \<longrightarrow> keeps (calm N) (f i)) \<and>
      (\<forall>f r n. cb_get_config cb = Some f \<longrightarrow> keeps (calm N) (f r n)) \<and>
      (\<forall>f r a b c. cb_set_config cb = Some f \<longrightarrow> keeps (calm N) (f r a b c)) \<and>
      (\<forall>f u. cb_get_shared_object cb = Some f \<longrightarrow> keeps (calm N) (f u)) \<and>
      (\<forall>h i. keeps (calm N) (cb_handler cb h i)))"

lemma safe_session: "safe (dev_inv N) f \<Longrightarrow> keeps (calm N) f \<Longrightarrow> safe (session N) f"
  by (fastforce simp: safe_def triple_def keeps_def session_def split: vres.splits stop.splits)

text \<open>What is known of a message that was read.\<close>

definition fits :: "nat \<Rightarrow> vmsg \<Rightarrow> bool" where
  "fits N v = (m_fd_num v \<le> int VHOST_MEMORY_BASELINE_NREGIONS \<and> unat (m_request v) \<noteq> 29 \<and> request_fields N v)"

lemma safe_primitives [safe]:
  "safe (session N) (vu_panic msg)" "safe (session N) (vmsg_close_fds v)"
proof -
  show "safe (session N) (vu_panic msg)"
    using safe_panic [of N None] by (intro safe_session) (simp_all add: dev_at_None keeps)
  show "safe (session N) (vmsg_close_fds v)"
    using safe_close_fds [of N None] by (intro safe_session) (simp_all add: dev_at_None keeps)
qed

lemma triple_False: "triple (\<lambda>_. False) f Q"
  by (simp add: triple_def)

lemma safe_fails: "safe I f \<Longrightarrow> triple I (vseq f (vret (False, v))) (\<lambda>p s. I s \<and> (fst p \<longrightarrow> fits N (snd p)))"
  by (fastforce simp: safe_def triple_def vseq_def vbind_def vret_def split: vres.splits stop.splits)

lemma read_session: "triple (session N) (vu_message_read_default msg_zero) (\<lambda>p s. session N s \<and> (fst p \<longrightarrow> fits N (snd p)))"
proof -
  let ?Q = "\<lambda>p s. session N s \<and> (fst p \<longrightarrow> fits N (snd p))"
  have recv: "triple (session N) sys_recv (\<lambda>m s. session N s \<and> (in_rc m < 0 \<or> polite N m))"
    by (auto simp: triple_def sys_recv_def session_def dev_inv_def calm_def split: list.splits)
  have body: "triple (session N)
      (if m_size w > of_nat sizeof_payload then
         vseq (vu_panic p1) (vseq (vmsg_close_fds w) (vret (False, w)))
       else if m_size w \<noteq> 0 then
         (if in_rc2 m \<le> 0 then vseq (vu_panic p2) (vseq (vmsg_close_fds w) (vret (False, w)))
          else vseq (vassert (word_of_int (in_rc2 m) = m_size w))
            (vret (True, w\<lparr>m_payload := overlay (in_body m) (m_payload w)\<rparr>)))
       else vret (True, w)) ?Q"
    if "polite N m" and r: "received m = (if m_size w \<noteq> 0 then w\<lparr>m_payload := overlay (in_body m) (m_payload w)\<rparr> else w)"
      and "m_fd_num w \<le> int VHOST_MEMORY_BASELINE_NREGIONS" for m w p1 p2
  proof -
    have err: "triple (session N) (vseq (vu_panic p) (vseq (vmsg_close_fds w) (vret (False, w)))) ?Q" for p
      using safe_fails [OF safe_seq [OF safe_primitives(1) safe_primitives(2)], of N p w w N]
      by (simp add: vseq_def vbind_assoc)
    have "m_size (received m) = m_size w" "m_fd_num (received m) = m_fd_num w" by (simp_all add: r)
    with that have "fits N (received m)" "0 < in_rc2 m \<longrightarrow> word_of_int (in_rc2 m) = m_size w"
      by (simp_all add: fits_def polite_def)
    with r have "m_size w \<noteq> 0 \<Longrightarrow> 0 < in_rc2 m \<Longrightarrow> triple (session N) (vseq (vassert (word_of_int (in_rc2 m) = m_size w))
        (vret (True, w\<lparr>m_payload := overlay (in_body m) (m_payload w)\<rparr>))) ?Q"
      and "m_size w = 0 \<Longrightarrow> triple (session N) (vret (True, w)) ?Q"
      by (simp_all add: triple_def vu_defs)
    with err show ?thesis by (simp add: not_le)
  qed
  have read: "triple (session N) (vbind (case in_fds m of None \<Rightarrow> vret v1
      | Some fds \<Rightarrow> vseq (vassert (4 * length fds < VHOST_MEMORY_BASELINE_NREGIONS))
           (vret (v1\<lparr>m_fd_num := int (length fds), m_fds := fds @ drop (length fds) (m_fds v1)\<rparr>))) g) ?Q"
    if m: "polite N m" and v1: "v1 = (set_hdr (overlay (in_hdr m) (hdr_bytes msg_zero)) msg_zero)\<lparr>m_fd_num := 0\<rparr>"
      and g: "\<And>w. received m = (if m_size w \<noteq> 0 then w\<lparr>m_payload := overlay (in_body m) (m_payload w)\<rparr> else w) \<Longrightarrow>
        m_fd_num w \<le> int VHOST_MEMORY_BASELINE_NREGIONS \<Longrightarrow> triple (session N) (g w) ?Q" for m v1 g
  proof (cases "in_fds m")
    case None
    with v1 have "v1 = set_hdr (overlay (in_hdr m) (hdr_bytes msg_zero)) msg_zero"
      by (simp add: set_hdr_def msg_zero_def)
    with None have "triple (session N) (g v1) ?Q"
      by (intro g) (simp_all add: received_def set_hdr_def msg_zero_def)
    with None show ?thesis by simp
  next
    case (Some fds)
    with m have len: "length fds \<le> 1" by (simp add: polite_def)
    let ?w = "v1\<lparr>m_fd_num := int (length fds), m_fds := fds @ drop (length fds) (m_fds v1)\<rparr>"
    have "triple (session N) (g ?w) ?Q"
      using Some len v1 by (intro g) (simp_all add: received_def set_hdr_def VHOST_MEMORY_BASELINE_NREGIONS_def Let_def)
    with Some len show ?thesis
      by (simp add: vassert_def vseq_def VHOST_MEMORY_BASELINE_NREGIONS_def)
  qed
  have "triple (\<lambda>s. session N s \<and> (in_rc m < 0 \<or> polite N m))
      (if in_rc m < 0 then vseq (vu_panic p0) (vret (False, msg_zero)) else f) ?Q"
    if "polite N m \<Longrightarrow> triple (session N) f ?Q" for m f p0
    using that safe_fails [OF safe_primitives(1)]
    by (cases "polite N m") (auto intro: triple_pre triple_False split: if_splits)
  note first = this
  show ?thesis
    unfolding vu_message_read_default_def Let_def
    by (rule triple_bind [OF recv], rule first, rule read, assumption, rule refl, rule body)
qed

lemma send_session: "m_fd_num v \<le> int VHOST_MEMORY_BASELINE_NREGIONS \<Longrightarrow> safe (session N) (vu_send_reply fd v)"
  by (auto simp: safe_def triple_def vu_send_reply_def vu_message_write_def vu_panic_def vu_defs session_def calm_def dev_inv_def
      Let_def split: list.splits bool.splits if_splits)

locale calm_device = device_callbacks +
  assumes calm: "callbacks_calm N cb"
begin

lemma vcall_calm: "i < N \<Longrightarrow> keeps (calm N) (vcall (cb_queue_set_started cb) i b)"
  using calm by (cases "cb_queue_set_started cb") (auto simp: vcall_def callbacks_calm_def keeps)

lemma callbacks_keep:
  "keeps (calm N) (case cb_get_features cb of None \<Rightarrow> vret 0 | Some f \<Rightarrow> f)"
  "keeps (calm N) (case cb_set_features cb of None \<Rightarrow> vret () | Some f \<Rightarrow> f x)"
  "keeps (calm N) (case cb_get_protocol_features cb of None \<Rightarrow> vret 0 | Some f \<Rightarrow> f)"
  "keeps (calm N) (case cb_set_protocol_features cb of None \<Rightarrow> vret () | Some f \<Rightarrow> f x)"
  "keeps (calm N) (case cb_get_shared_object cb of None \<Rightarrow> vret (- 1) | Some f \<Rightarrow> f u)"
  "keeps (calm N) (case cb_in_order cb of None \<Rightarrow> vret False | Some f \<Rightarrow> f i)"
  "keeps (calm N) (case h of None \<Rightarrow> vret () | Some h \<Rightarrow> cb_handler cb h i)"
  using calm by (auto simp: callbacks_calm_def keeps split: option.split)

lemma features_calm:
  "keeps (calm N) (vu_get_features_exec cb v)" "keeps (calm N) (vu_set_features_exec cb v)"
  "keeps (calm N) (vu_get_protocol_features_exec cb v)" "keeps (calm N) (vu_set_protocol_features_exec cb v)"
  "keeps (calm N) (vu_get_shared_object cb v)"
  unfolding handler_defs by (rule callbacks_keep | rule keeps | simp add: calm_def; fail)+

lemma config_calm: "keeps (calm N) (vu_get_config cb v)" "keeps (calm N) (vu_set_config cb v)"
  using calm unfolding vu_get_config_def vu_set_config_def
  by (cases "cb_get_config cb"; cases "cb_set_config cb"; auto simp: callbacks_calm_def intro!: keeps)+

lemma vring_addr_calm: "keeps (calm N) (vu_set_vring_addr_exec cb v)"
proof -
  have load: "keeps (calm N) (\<lambda>s. vq_upd i (\<lambda>q. q\<lparr>vq_used_idx := f s q\<rparr>) s)" for f i
    using calm_prims(2) by (simp add: keeps_def)
  show ?thesis unfolding vu_set_vring_addr_exec_def Let_def by (rule load callbacks_keep | rule keeps)+
qed

lemma vring_base_calm: "unat (pl_index v) < N \<Longrightarrow> keeps (calm N) (vu_get_vring_base_exec cb v)"
  unfolding vu_get_vring_base_exec_def Let_def by (rule vcall_calm | assumption | rule keeps)+

lemma vring_kick_calm: "keeps (calm N) (vu_handle_vring_kick cb v)"
  unfolding vu_handle_vring_kick_def Let_def
  by (rule callbacks_keep vcall_calm | rule keeps | force dest: calm_max)+

lemma set_kick_calm: "keeps (calm N) (vu_set_vring_kick_exec cb v)"
proof (cases "msg_queue v < N")
  case True
  show ?thesis unfolding vu_set_vring_kick_exec_def Let_def
    by (insert True, (rule vcall_calm | assumption | rule keeps | simp)+)
next
  case False
  have "keeps (calm N) (vbind (vseq (vmsg_close_fds v) (vseq (vu_panic p) (vret False)))
      (\<lambda>ok. if \<not> ok then done_msg False v else g))" for p g
    unfolding vseq_def vbind_assoc vbind_vret by (intro keeps) simp
  with False show ?thesis unfolding vu_set_vring_kick_exec_def vu_check_queue_msg_file_def vbind_assoc Let_def
    by (intro keeps_get) (simp add: calm_max)
qed

lemma handlers_calm:
  assumes "request_handler cb r = Some h" and "unat (m_request v) = r" and "r \<noteq> 29" and "request_fields N v"
  shows "keeps (calm N) (h v)"
proof -
  have "\<forall>p\<in>set (request_table cb). fst p = r \<longrightarrow> keeps (calm N) (snd p v)"
    using assms(2-4)
    by (auto simp: request_table_def request_fields_def Let_def features_calm config_calm vring_addr_calm vring_base_calm
        vring_kick_calm set_kick_calm calm_handlers keeps)
  moreover have "(r, h) \<in> set (request_table cb)"
    using assms(1) unfolding request_handler_def by (rule map_of_SomeD)
  ultimately show ?thesis by fastforce
qed


lemma kick_session: "i < N \<Longrightarrow> safe (session N) (vu_kick_cb cb i)"
proof (rule safe_session)
  assume i: "i < N"
  show "safe (dev_inv N) (vu_kick_cb cb i)"
    unfolding vu_kick_cb_def dev_at_None [symmetric] by (insert i, (rule handler_safe | assumption | rule safe)+)
  show "keeps (calm N) (vu_kick_cb cb i)"
    unfolding vu_kick_cb_def by (rule callbacks_keep | rule keeps | simp; fail)+
qed

lemma process_session: "fits N v \<Longrightarrow> triple (session N) (vu_process_message cb v) (\<lambda>p s. session N s \<and> sendable p)"
proof -
  assume v: "fits N v"
  have none: "cb_process_msg cb = None" using ok by (simp add: callbacks_ok_def)
  have inv: "triple (session N) (vu_process_message cb v) (\<lambda>_. dev_inv N)"
    using process_safe v unfolding triple_def session_def calm_def fits_def request_ok_def by blast
  have unhandled: "keeps (calm N) (vseq (vmsg_close_fds v) (vseq (vu_panic p) (done_msg False v)))" for p
    by (intro keeps)
  have calm: "keeps (calm N) (vu_process_message cb v)"
    using v unhandled handlers_calm [where v = v]
    by (auto simp: vu_process_message_def none Let_def fits_def split: option.split)
  have "returns (vu_process_message cb v) sendable"
  proof (cases "request_handler cb (unat (m_request v))")
    case None
    have "returns (vseq (vmsg_close_fds v) (vseq (vu_panic p) (done_msg False v))) sendable" for p
      using v by (intro returns) (simp add: fits_def)
    with None show ?thesis by (simp add: vu_process_message_def none Let_def)
  next
    case (Some h)
    then have "(unat (m_request v), h) \<in> set (request_table cb)"
      unfolding request_handler_def by (rule map_of_SomeD)
    from bspec [OF sendable_handlers this] Some v show ?thesis
      by (simp add: vu_process_message_def none Let_def fits_def)
  qed
  with inv calm show ?thesis
    by (fastforce simp: triple_def session_def keeps_def returns_def split: vres.splits stop.splits)
qed

lemma dispatch_session: "safe (session N) (vu_dispatch cb)"
proof -
  have reply: "triple (\<lambda>s. session N s \<and> sendable p)
      (let v2 = if b then vmsg_set_reply_u64 (snd p) 0 else snd p in
       if c then vret True else vbind (vget d_sock) (\<lambda>sock. vu_send_reply sock v2)) (\<lambda>_. session N)" for p b c
  proof (cases "sendable p")
    case True
    have "safe (session N) (let v2 = if b then vmsg_set_reply_u64 (snd p) 0 else snd p in
       if c then vret True else vbind (vget d_sock) (\<lambda>sock. vu_send_reply sock v2))"
      using True by (auto simp: Let_def reply_fds intro!: safe send_session)
    then show ?thesis unfolding safe_def by (rule triple_pre) simp
  qed (simp add: triple_def)
  have "triple (\<lambda>s. session N s \<and> (fst r \<longrightarrow> fits N (snd r)))
      (if \<not> fst r then vret False
       else vbind (vu_process_message cb (snd r)) (\<lambda>p.
         let v2 = if b p then vmsg_set_reply_u64 (snd p) 0 else snd p in
         if c p then vret True else vbind (vget d_sock) (\<lambda>sock. vu_send_reply sock v2))) (\<lambda>_. session N)" for r b c
  proof (cases "fst r \<and> fits N (snd r)")
    case True
    have "triple (session N) (vbind (vu_process_message cb (snd r)) (\<lambda>p.
         let v2 = if b p then vmsg_set_reply_u64 (snd p) 0 else snd p in
         if c p then vret True else vbind (vget d_sock) (\<lambda>sock. vu_send_reply sock v2))) (\<lambda>_. session N)"
      using True by (intro triple_bind [OF process_session] reply) simp
    with True show ?thesis by (auto intro: triple_pre)
  qed (auto simp: triple_def vret_def)
  note body = this
  show ?thesis
    unfolding safe_def vu_dispatch_def case_prod_beta Let_def [of "_ AND _ \<noteq> 0"]
    by (rule triple_bind [OF read_session], rule body)
qed

end

section \<open>The backend's callbacks\<close>

lemma get_queue_calm [keeps]: "keeps (calm N) (vu_get_queue i)"
  unfolding vu_get_queue_def by (intro keeps)

lemma set_started_calm: "i < N \<Longrightarrow> keeps (calm N) (queue_set_started i b)"
  unfolding queue_set_started_def vu_set_queue_handler_def by (intro keeps) simp_all

lemma tx_kick_calm: "keeps (calm N) (tx_kick gs i)"
proof -
  have "keeps (calm N) (\<lambda>s. case K s of None \<Rightarrow> Stop Diverges s | Some (Inl e) \<Rightarrow> Stop (Undef e) s
      | Some (Inr (vq, hm, sk, tot)) \<Rightarrow> F vq tot (s\<lparr>w_mem := hm, g_sink := sk\<rparr>))"
    if F: "\<And>vq tot. keeps (calm N) (F vq tot)" for K :: "vst \<Rightarrow> (ub + virtq \<times> hmem \<times> vlog_sink \<times> nat) option" and F :: "virtq \<Rightarrow> nat \<Rightarrow> unit vu"
    unfolding keeps_def
  proof (intro allI impI)
    fix s a s'
    assume s: "calm N s" and r: "(case K s of None \<Rightarrow> Stop Diverges s | Some (Inl e) \<Rightarrow> Stop (Undef e) s
      | Some (Inr (vq, hm, sk, tot)) \<Rightarrow> F vq tot (s\<lparr>w_mem := hm, g_sink := sk\<rparr>)) = Ret a s'"
    from r obtain vq hm sk tot where f: "F vq tot (s\<lparr>w_mem := hm, g_sink := sk\<rparr>) = Ret a s'"
      by (cases "K s") (auto split: sum.splits prod.splits)
    have "calm N (s\<lparr>w_mem := hm, g_sink := sk\<rparr>)" using s by (simp add: calm_def)
    with F [of vq tot] f show "calm N s'" unfolding keeps_def by metis
  qed
  note step = this
  show ?thesis unfolding tx_kick_def Let_def by (rule step | rule keeps)+
qed

lemma set_features_calm: "keeps (calm N) get_features" "keeps (calm N) (set_features x)"
  unfolding get_features_def set_features_def by (rule keeps; simp add: calm_def)+

interpretation calm_backend: calm_device 2 "iface gs" for gs
proof (unfold_locales, unfold callbacks_calm_def, intro conjI allI impI)
qed (simp_all add: iface_def set_features_calm tx_kick_calm, (auto simp: set_features_calm set_started_calm)[])

section \<open>Watches\<close>

lemma watch_elements: "update_watch fd i W = Some W' \<Longrightarrow> snd ` set W' \<subseteq> insert i (snd ` set W)"
proof (induction W arbitrary: W')
  case (Cons p W)
  obtain f x where p: "p = (f, x)" by (cases p)
  show ?case
  proof (cases "f = fd")
    case True
    with Cons.prems p show ?thesis by auto
  next
    case False
    with Cons.prems p obtain V where "update_watch fd i W = Some V" "W' = (f, x) # V" by auto
    with Cons.IH [of V] p show ?thesis by auto
  qed
qed simp

lemma apply_watch_elements: "snd ` set (apply_watch W e) \<subseteq> snd ` set W \<union> {i. \<exists>fd. e = Set_watch fd i}"
proof (cases e)
  case (Set_watch fd i)
  then show ?thesis by (auto simp: set_watch_def dest: watch_elements split: option.split)
next
  case (Remove_watch fd)
  have "set (butlast (W[j := W ! (length W - 1)])) \<subseteq> set W" for j
  proof (cases "W = []")
    case False
    then have "set (W[j := W ! (length W - 1)]) \<subseteq> set W"
      using set_update_subset_insert [of W j "W ! (length W - 1)"] by (auto simp: nth_mem)
    then show ?thesis by (meson in_set_butlastD subset_iff)
  qed simp
  with Remove_watch show ?thesis by (auto simp: remove_watch_def split: option.split)
qed auto

lemma watches_elements: "snd ` set (foldl apply_watch W es) \<subseteq> snd ` set W \<union> {i. \<exists>fd. Set_watch fd i \<in> set es}"
proof (induction es arbitrary: W)
  case (Cons e es)
  have "snd ` set (foldl apply_watch W (e # es)) \<subseteq> snd ` set (apply_watch W e) \<union> {i. \<exists>fd. Set_watch fd i \<in> set es}"
    using Cons.IH by simp
  also have "\<dots> \<subseteq> snd ` set W \<union> {i. \<exists>fd. Set_watch fd i \<in> set (e # es)}"
    using apply_watch_elements [of W e] by auto
  finally show ?case .
qed simp

lemma watched_queue: "calm N s \<Longrightarrow> map_of (watches s) fd = Some i \<Longrightarrow> i < N"
  using watches_elements [of "[]" "w_trace s"] map_of_SomeD [of "watches s" fd i]
  by (force simp: calm_def watches_def)

section \<open>The program\<close>

lemma guest_session: "safe (session N) (set_mem f)"
  using safe_set_mem [of N None] by (intro safe_session) (simp_all add: dev_at_None keeps)

lemma serve_session: "safe (session 2) (serve_watches step gs fds)"
proof (induction fds)
  case (Cons fd fds)
  have "safe (session 2) (case map_of (watches t) fd of None \<Rightarrow> vret () | Some i \<Rightarrow> vu_kick_cb (iface gs) i)"
    if "session 2 t" for t
    using that watched_queue [of 2 t fd] by (auto simp: session_def safe_ret calm_backend.kick_session split: option.split)
  then show ?case unfolding serve_watches.simps by (intro safe_seq safe_get guest_session Cons.IH)
qed (simp add: safe_ret)

lemma loop_session: "safe (session 2) (backend_loop rs)"
proof (induction rs)
  case (Cons r rs)
  have "safe (session 2) (if rd_cfd r then vu_dispatch (iface (rd_guest r)) else vret True)"
    by (simp add: safe_ret calm_backend.dispatch_session)
  note step = this
  show ?case unfolding backend_loop.simps
    by (intro safe_get safe_if [where b = "\<not> rd_poll r"] safe_seq [OF guest_session] safe_bind [OF step] safe_ret)
      (auto intro: safe_seq safe_ret serve_session Cons)
qed (simp add: safe_ret)

lemma deinit_queue_safe: "i < N \<Longrightarrow> safe (dev_at N None) (deinit_queue i)"
  unfolding deinit_queue_def
  by (intro safe safe_upd; simp)

lemma deinit_session: "triple (session N) vu_deinit (\<lambda>_ _. True)"
proof -
  have log: "safe (dev_at N None) vu_close_log" "safe (dev_at N None) deinit_inflight" "safe (dev_at N None) deinit_sockets"
    unfolding vu_close_log_def deinit_inflight_def deinit_sockets_def by (intro safe; simp add: dev_at_def)+
  have "triple (dev_at N None) vu_deinit (\<lambda>_ _. True)"
    unfolding vu_deinit_def
    by (intro triple_get triple_seq log)
      (auto intro!: safe deinit_queue_safe simp: dev_at_def triple_def vmod_def)
  then show ?thesis by (rule triple_pre) (simp add: session_def dev_at_None)
qed

lemma init_session:
  "0 \<le> fd \<Longrightarrow> triple (\<lambda>s. w_trace s = [] \<and> (\<forall>m\<in>set (w_recv s). polite 2 m)) (vu_init 2 fd b c) (\<lambda>ok s. ok \<longrightarrow> session 2 s)"
  by (auto simp: triple_def vu_init_def vu_defs session_def dev_inv_def calm_def vq_init_def)


text \<open>A run with one message, \<^verbatim>\<open>GET_QUEUE_NUM\<close>, which is answered before the frontend leaves.\<close>

definition demo_request :: in_msg where
  "demo_request = \<lparr>in_rc = 12, in_hdr = le_bytes 4 17 @ le_bytes 4 1 @ le_bytes 4 0, in_fds = None, in_rc2 = 0, in_body = []\<rparr>"

definition demo_run :: backend_env where
  "demo_run = \<lparr>be_sink = (True, True, True), be_bind = True, be_listen = True, be_accept = 5, be_calloc = True,
     be_rounds = [\<lparr>rd_poll = True, rd_cfd = True, rd_ready = (\<lambda>_. False), rd_wait = (\<lambda>hm. hm), rd_step = (\<lambda>_ hm. hm), rd_guest = []\<rparr>]\<rparr>"

definition demo_world :: vst where
  "demo_world = (demo_dev [] [demo_request])\<lparr>w_send := [True]\<rparr>"

lemma demo_received: "m_request (received demo_request) = 17" "m_flags (received demo_request) = 1"
    "m_size (received demo_request) = 0" "m_fd_num (received demo_request) = 0"
  by (simp_all add: received_def demo_request_def set_hdr_def overlay_def hdr_bytes_def Let_def cmem msg_zero_def)

lemma demo_polite: "polite 2 demo_request"
  using demo_received by (simp add: polite_def request_fields_def Let_def) (simp add: demo_request_def)

lemma demo_reads: "w_recv s = [demo_request] \<Longrightarrow>
    vu_message_read_default msg_zero s = Ret (True, received demo_request) (s\<lparr>w_recv := []\<rparr>)"
  by (simp add: vu_message_read_default_def vu_defs sys_recv_def Let_def received_def set_hdr_def msg_zero_def demo_request_def hdr_bytes_def overlay_def cmem)


lemma demo_dispatch:
  assumes "w_recv s = [demo_request]" and "w_send s = [True]" and "d_max_queues s = 2"
  shows "\<exists>v. vu_dispatch (iface gs) s = Ret True (s\<lparr>w_recv := [], w_send := [], w_trace := w_trace s @ [Sent (d_sock s) v]\<rparr>)"
proof -
  have "vu_process_message (iface gs) v t = Ret (True, vmsg_set_reply_u64 v 2) t"
    if "m_request v = 17" "d_max_queues t = 2" for v t
    using that by (simp add: vu_process_message_def iface_process request_handler_def request_table_def vu_get_queue_num_exec_def
        done_msg_def vu_defs)
  then show ?thesis
    using assms demo_received by (simp add: vu_dispatch_def vbind_def demo_reads vu_send_reply_def vu_message_write_def
        vu_defs Let_def reply_fds VHOST_MEMORY_BASELINE_NREGIONS_def) blast
qed

lemma demo_loop:
  assumes "w_recv s = [demo_request]" and "w_send s = [True]" and "d_max_queues s = 2"
  shows "\<exists>v. backend_loop (be_rounds demo_run) s = Ret () (s\<lparr>w_recv := [], w_send := [], w_trace := w_trace s @ [Sent (d_sock s) v]\<rparr>)"
proof -
  from demo_dispatch [OF assms, of "[]"] obtain v where
    "vu_dispatch (iface []) s = Ret True (s\<lparr>w_recv := [], w_send := [], w_trace := w_trace s @ [Sent (d_sock s) v]\<rparr>)" ..
  then show ?thesis by (intro exI [of _ v]) (simp add: demo_run_def vbind_def vget_def vseq_def vret_def set_mem_def vmod_def)
qed

lemma demo_deinit:
  assumes "d_nregions s = 0" and "d_max_queues s = 2" and "d_vq s = [vq_init, vq_init]" and "d_inflight_addr s = 0"
    and "d_inflight_fd s = 0" and "d_log_table s = 0" and "d_log_call_fd s = - 1"
  shows "\<exists>s'. vu_deinit s = Ret () s' \<and> g_sink s' = g_sink s"
proof -
  have two: "[0..<2] = [0, 1 :: nat]" by (simp add: upt_rec)
  have q: "deinit_queue i t = Ret () (t\<lparr>d_vq := (d_vq t)[i := vq_init]\<rparr>)" if "i < length (d_vq t)" "d_vq t ! i = vq_init" for i t
    using that by (simp add: deinit_queue_def close_call_def close_kick_def close_err_def vu_defs vq_get_def vq_upd_def vq_init_def)
  show ?thesis
    using assms by (simp add: vu_deinit_def live_regions_def vu_defs q two deinit_inflight_def vu_close_log_def deinit_sockets_def sys_close_def)
qed


end
