(* ===== verification/Backend_Setup.thy ===== *)
theory Backend_Setup
  imports Backend_Session
begin

text \<open>
  What the frontend's messages do to the backend: how a message is read and answered, and the
  functional behaviour of the requests that set a device up (features, memory table, ring size,
  base, addresses, call and kick descriptors), of the queries that come before, and of GET_VRING_BASE
  at the end.  \<open>exchanges n s s'\<close> says that \<open>n\<close> turns of the main loop with one message each lead from
  \<open>s\<close> to \<open>s'\<close>.
\<close>

section \<open>Reading and answering\<close>

text \<open>A message that \<^verbatim>\<open>recvmsg\<close> and \<^verbatim>\<open>read\<close> deliver in one piece.\<close>

definition whole_msg :: "in_msg \<Rightarrow> bool" where
  "whole_msg m =
     (0 \<le> in_rc m \<and> (case in_fds m of None \<Rightarrow> True | Some fds \<Rightarrow> length fds \<le> 1) \<and>
      m_size (received m) \<le> of_nat sizeof_payload \<and>
      (m_size (received m) \<noteq> 0 \<longrightarrow> 0 < in_rc2 m \<and> word_of_int (in_rc2 m) = m_size (received m)))"

lemma vseq_vret: "vseq (vret x) f = f"
  by (simp add: vseq_def)

lemma read_whole:
  assumes w: "whole_msg m" and s: "w_recv s = m # ms"
  shows "vu_message_read_default msg_zero s = Ret (True, received m) (s\<lparr>w_recv := ms\<rparr>)"
proof -
  let ?v = "set_hdr (overlay (in_hdr m) (hdr_bytes msg_zero)) msg_zero"
  have tail: "(if m_size w > of_nat sizeof_payload then vseq (vu_panic p1) (vseq (vmsg_close_fds w) (vret (False, w)))
      else if m_size w \<noteq> 0 then
        (if in_rc2 m \<le> 0 then vseq (vu_panic p2) (vseq (vmsg_close_fds w) (vret (False, w)))
         else vseq (vassert (word_of_int (in_rc2 m) = m_size w)) (vret (True, w\<lparr>m_payload := overlay (in_body m) (m_payload w)\<rparr>)))
      else vret (True, w)) = vret (True, received m)"
    if r: "received m = (if m_size w \<noteq> 0 then w\<lparr>m_payload := overlay (in_body m) (m_payload w)\<rparr> else w)" for w p1 p2
  proof -
    have "m_size (received m) = m_size w" by (simp add: r)
    with w have "\<not> m_size w > of_nat sizeof_payload" "m_size w \<noteq> 0 \<Longrightarrow> 0 < in_rc2 m \<and> word_of_int (in_rc2 m) = m_size w"
      by (simp_all add: whole_msg_def not_less)
    then show ?thesis by (cases "m_size w = 0") (simp_all add: r vassert_def vseq_def)
  qed
  have v: "set_hdr h msg_zero\<lparr>m_fd_num := 0\<rparr> = set_hdr h msg_zero" for h by (simp add: set_hdr_def msg_zero_def)
  have rc: "\<not> in_rc m < 0" using w by (simp add: whole_msg_def)
  have recv: "sys_recv s = Ret m (s\<lparr>w_recv := ms\<rparr>)" using s by (simp add: sys_recv_def)
  show ?thesis
  proof (cases "in_fds m")
    case None
    then have "received m = (if m_size ?v \<noteq> 0 then ?v\<lparr>m_payload := overlay (in_body m) (m_payload ?v)\<rparr> else ?v)"
      by (simp add: received_def Let_def)
    from tail [OF this] None rc s show ?thesis
      by (simp add: vu_message_read_default_def vbind_def sys_recv_def Let_def vret_def v)
  next
    case (Some fds)
    let ?w = "?v\<lparr>m_fd_num := int (length fds), m_fds := fds @ drop (length fds) (m_fds ?v)\<rparr>"
    have "received m = (if m_size ?w \<noteq> 0 then ?w\<lparr>m_payload := overlay (in_body m) (m_payload ?w)\<rparr> else ?w)"
      using Some by (simp add: received_def Let_def)
    note t = tail [OF this]
    have few: "vassert (4 * length fds < VHOST_MEMORY_BASELINE_NREGIONS) = vret ()"
      using w Some by (simp add: whole_msg_def VHOST_MEMORY_BASELINE_NREGIONS_def vassert_def)
    show ?thesis
      using rc Some by (simp only: vu_message_read_default_def vbind_def [of sys_recv] recv vres.case if_False Let_def v
          option.case few vseq_vret vbind_vret t) (simp add: vret_def)
  qed
qed

text \<open>A message of request \<open>req\<close> that wants no reply.\<close>

definition asks :: "nat \<Rightarrow> in_msg \<Rightarrow> bool" where
  "asks req m = (whole_msg m \<and> unat (m_request (received m)) = req \<and> m_flags (received m) AND VHOST_USER_NEED_REPLY_MASK = 0)"

lemma dispatch_asks:
  assumes "asks req m" and "w_recv s = m # ms" and "request_handler (iface gs) req = Some h"
    and "h (received m) (s\<lparr>w_recv := ms\<rparr>) = Ret (False, v) s'"
  shows "vu_dispatch (iface gs) s = Ret True s'"
  using assms read_whole [of m s ms]
  by (simp add: asks_def vu_dispatch_def vbind_def vu_process_message_def iface_process Let_def vret_def)

text \<open>When the frontend hangs up, \<^verbatim>\<open>recvmsg\<close> returns 0; the zeroed message is request 0, which ends the process.\<close>

lemma dispatch_hangup:
  assumes "whole_msg m" and "m_request (received m) = 0" and "w_recv s = m # ms"
  shows "vu_dispatch (iface gs) s = Stop (Exited 0) (s\<lparr>w_recv := ms\<rparr>)"
  using assms read_whole [of m s ms]
  by (simp add: vu_dispatch_def vbind_def vu_process_message_def iface_process Let_def request_handler_def request_table_def vstop_def)

inductive exchanges :: "nat \<Rightarrow> vst \<Rightarrow> vst \<Rightarrow> bool" where
  stay: "exchanges 0 s s"
| turn: "(\<And>gs. vu_dispatch (iface gs) s = Ret True s1) \<Longrightarrow> exchanges n s1 s' \<Longrightarrow> exchanges (Suc n) s s'"

lemma exchanges_add: "exchanges n s s1 \<Longrightarrow> exchanges k s1 s' \<Longrightarrow> exchanges (n + k) s s'"
  by (induction rule: exchanges.induct) (auto intro: exchanges.intros)

lemma exchanges_one: "(\<And>gs. vu_dispatch (iface gs) s = Ret True s') \<Longrightarrow> exchanges 1 s s'"
  using exchanges.turn [OF _ exchanges.stay] by simp

text \<open>A turn of the main loop in which only the socket is ready and the guest stores nothing.\<close>

definition asking :: "round \<Rightarrow> bool" where
  "asking r = (rd_poll r \<and> rd_cfd r \<and> rd_ready r = (\<lambda>_. False) \<and> rd_wait r = (\<lambda>hm. hm))"

lemma asking_turn: "asking r \<Longrightarrow> vu_dispatch (iface (rd_guest r)) s = Ret True s' \<Longrightarrow> backend_loop (r # rs) s = backend_loop rs s'"
  by (simp add: asking_def vbind_def vget_def vseq_def vret_def set_mem_def vmod_def)

lemma exchanges_loop: "exchanges n s s' \<Longrightarrow> length rs = n \<Longrightarrow> \<forall>r\<in>set rs. asking r \<Longrightarrow> backend_loop (rs @ rs') s = backend_loop rs' s'"
proof (induction arbitrary: rs rule: exchanges.induct)
  case (turn s s1 n s')
  then obtain r rt where "rs = r # rt" "asking r" "length rt = n" "\<forall>r\<in>set rt. asking r" by (cases rs) auto
  with turn asking_turn [of r s s1 "rt @ rs'"] show ?case by simp
qed simp


section \<open>Features and memory\<close>

lemmas handler_table = request_handler_def request_table_def

text \<open>The queues are the same but for their enable flags.\<close>

definition enabled_only :: "vst \<Rightarrow> vu_virtq list \<Rightarrow> bool" where
  "enabled_only s qs = (length qs = length (d_vq s) \<and> (\<forall>i<length qs. \<exists>b. qs ! i = (d_vq s ! i)\<lparr>vq_enable := b\<rparr>))"

lemma enable_rings:
  "unat (d_max_queues s) \<le> length (d_vq s) \<Longrightarrow>
   \<exists>qs. vu_set_enable_all_rings b s = Ret () (s\<lparr>d_vq := qs\<rparr>) \<and> enabled_only s qs"
proof -
  let ?f = "\<lambda>q. q\<lparr>vq_enable := if b then 1 else 0 :: u32\<rparr>"
  have "\<exists>qs. vfor is (\<lambda>i. vq_upd i ?f) t = Ret () (t\<lparr>d_vq := qs\<rparr>) \<and> enabled_only t qs"
    if "\<forall>i\<in>set is. i < length (d_vq t)" for "is" t
    using that
  proof (induction "is" arbitrary: t)
    case Nil
    have "enabled_only t (d_vq t)" unfolding enabled_only_def by (metis vu_virtq.surjective vu_virtq.update_convs(17))
    then show ?case by (intro exI [of _ "d_vq t"]) (simp add: vret_def)
  next
    case (Cons i "is")
    let ?t = "t\<lparr>d_vq := (d_vq t)[i := ?f (d_vq t ! i)]\<rparr>"
    obtain qs where qs: "vfor is (\<lambda>i. vq_upd i ?f) ?t = Ret () (?t\<lparr>d_vq := qs\<rparr>)" "enabled_only ?t qs"
      using Cons.IH [of ?t] Cons.prems by auto
    have "\<exists>b. qs ! j = (d_vq t ! j)\<lparr>vq_enable := b\<rparr>" if j: "j < length (d_vq t)" for j
    proof -
      from qs(2) j obtain b' where "qs ! j = ((d_vq t)[i := ?f (d_vq t ! i)] ! j)\<lparr>vq_enable := b'\<rparr>" by (auto simp: enabled_only_def)
      then show ?thesis using j by (cases "j = i") auto
    qed
    then have "enabled_only t qs" using qs(2) by (simp add: enabled_only_def)
    then show ?case using qs(1) Cons.prems by (auto simp: vseq_def vbind_def vq_upd_def)
  qed
  from this [of "[0..<unat (d_max_queues s)]" s] show "unat (d_max_queues s) \<le> length (d_vq s) \<Longrightarrow> ?thesis"
    by (simp add: vu_set_enable_all_rings_def vbind_def vget_def)
qed

lemma set_features_ok:
  assumes "pl_u64 v AND bit64 VIRTIO_F_VERSION_1 \<noteq> 0" and "unat (d_max_queues s) \<le> length (d_vq s)"
  shows "\<exists>qs. (\<forall>gs. vu_set_features_exec (iface gs) v s =
      Ret (False, v) (s\<lparr>d_features := pl_u64 v, g_features := pl_u64 v, d_vq := qs\<rparr>)) \<and> enabled_only s qs"
proof -
  let ?s = "s\<lparr>d_features := pl_u64 v\<rparr>"
  obtain qs where qs: "vu_set_enable_all_rings True ?s = Ret () (?s\<lparr>d_vq := qs\<rparr>)" "enabled_only ?s qs"
    using enable_rings [of ?s True] assms(2) by auto
  have same: "enabled_only s (d_vq s)" unfolding enabled_only_def by (metis vu_virtq.surjective vu_virtq.update_convs(17))
  have f: "pl_u64 v AND push_bit VIRTIO_F_VERSION_1 1 \<noteq> 0" using assms(1) by (simp add: bit64_def)
  have ex: "vu_set_features_exec (iface gs) v s =
      (if pl_u64 v AND of_nat VHOST_USER_F_PROTOCOL_FEATURES = 0
       then Ret (False, v) (s\<lparr>d_features := pl_u64 v, g_features := pl_u64 v, d_vq := qs\<rparr>)
       else Ret (False, v) (s\<lparr>d_features := pl_u64 v, g_features := pl_u64 v\<rparr>))" for gs
    using f qs(1) by (simp add: vu_set_features_exec_def vu_has_feature_def has_feature_def vu_defs VIRTIO_F_VERSION_1_def
        done_msg_def iface_def set_features_def)
  show ?thesis
  proof (cases "pl_u64 v AND of_nat VHOST_USER_F_PROTOCOL_FEATURES = 0")
    case True
    with ex qs(2) show ?thesis by (auto simp: enabled_only_def)
  next
    case False
    have "s\<lparr>d_features := pl_u64 v, g_features := pl_u64 v\<rparr> = s\<lparr>d_features := pl_u64 v, g_features := pl_u64 v, d_vq := d_vq s\<rparr>"
      by simp
    with ex False same show ?thesis by metis
  qed
qed


text \<open>The answers to GET_VRING_BASE (request 11): queue and index.\<close>

primrec bases :: "vu_event list \<Rightarrow> (u32 \<times> u32) list" where
  "bases [] = []"
| "bases (e # es) =
     (case e of Sent _ v \<Rightarrow> (if m_request v = 11 then [(pl_index v, pl_num v)] else []) | _ \<Rightarrow> []) @ bases es"

lemma bases_append [simp]: "bases (es @ es') = bases es @ bases es'"
  by (induction es) simp_all

text \<open>Events that leave the watch table alone and are no such answer.\<close>

definition quiet :: "vu_event list \<Rightarrow> bool" where
  "quiet es = (\<forall>e\<in>set es. case e of Set_watch _ _ \<Rightarrow> False | Remove_watch _ \<Rightarrow> False | Sent _ v \<Rightarrow> m_request v \<noteq> 11 | _ \<Rightarrow> True)"

lemma quiet_watches: "quiet es \<Longrightarrow> foldl apply_watch W es = W"
proof (induction es arbitrary: W)
  case (Cons e es)
  then show ?case by (cases e) (auto simp: quiet_def)
qed simp

lemma quiet_bases: "quiet es \<Longrightarrow> bases es = []"
proof (induction es)
  case (Cons e es)
  then show ?case by (cases e) (auto simp: quiet_def)
qed simp

lemma quiet_append [simp]: "quiet (es @ es') \<longleftrightarrow> quiet es \<and> quiet es'" "quiet []"
  by (auto simp: quiet_def)

definition mapped_region :: "vmsg \<Rightarrow> nat \<Rightarrow> u64 \<Rightarrow> vu_region" where
  "mapped_region v i a = (pl_region (8 + 32 * i) v)\<lparr>g_maddr := a\<rparr>"

lemma map_region_ok:
  "i < length (d_regions s) \<Longrightarrow> w_mmap s = a # as \<Longrightarrow> a \<noteq> MAP_FAILED \<Longrightarrow>
   map_region i m s = Ret a (s\<lparr>d_regions := (d_regions s)[i := m\<lparr>g_maddr := a\<rparr>], w_mmap := as,
     w_trace := w_trace s @ [Mmap a (g_size m + g_moff m)]\<rparr>)"
  by (simp add: map_region_def vbind_def vseq_def region_get_def region_put_def sys_mmap_def vret_def)

lemma map_table_ok:
  "w_mmap s = as @ rest \<Longrightarrow> length as = n \<Longrightarrow> MAP_FAILED \<notin> set as \<Longrightarrow> j + n \<le> VHOST_MEMORY_BASELINE_NREGIONS \<Longrightarrow>
   j + n \<le> length (d_regions s) \<Longrightarrow>
   \<exists>es. map_table v [j..<j + n] s = Ret () (s\<lparr>d_regions := take j (d_regions s) @ map2 (mapped_region v) [j..<j + n] as @ drop (j + n) (d_regions s),
     w_mmap := rest, w_trace := w_trace s @ es\<rparr>) \<and> quiet es"
proof (induction n arbitrary: j as s)
  case 0
  then show ?case by (intro exI [of _ "[]"]) (simp add: vret_def)
next
  case (Suc n)
  then obtain a as' where as: "as = a # as'" "length as' = n" by (cases as) auto
  let ?m = "pl_region (8 + 32 * j) v"
  let ?s = "s\<lparr>d_regions := (d_regions s)[j := mapped_region v j a], w_mmap := as' @ rest,
     w_trace := w_trace s @ [Mmap a (g_size ?m + g_moff ?m), Close (m_fds v ! j)]\<rparr>"
  have "\<exists>es. map_table v [Suc j..<Suc j + n] ?s = Ret () (?s\<lparr>d_regions := take (Suc j) (d_regions ?s) @
      map2 (mapped_region v) [Suc j..<Suc j + n] as' @ drop (Suc j + n) (d_regions ?s), w_mmap := rest, w_trace := w_trace ?s @ es\<rparr>) \<and> quiet es"
    using Suc.prems as by (intro Suc.IH) auto
  then obtain es where es: "map_table v [Suc j..<Suc j + n] ?s = Ret () (?s\<lparr>d_regions := take (Suc j) (d_regions ?s) @
      map2 (mapped_region v) [Suc j..<Suc j + n] as' @ drop (Suc j + n) (d_regions ?s), w_mmap := rest, w_trace := w_trace ?s @ es\<rparr>)" "quiet es"
    by blast
  have up: "[j..<j + Suc n] = j # [Suc j..<Suc j + n]" by (simp add: upt_conv_Cons del: upt_Suc)
  have tk: "take (Suc j) ((d_regions s)[j := x]) = take j (d_regions s) @ [x]" for x
    using Suc.prems(5) by (simp add: take_Suc_conv_app_nth)
  have "map_region j ?m s = Ret a (s\<lparr>d_regions := (d_regions s)[j := ?m\<lparr>g_maddr := a\<rparr>], w_mmap := as' @ rest,
      w_trace := w_trace s @ [Mmap a (g_size ?m + g_moff ?m)]\<rparr>)"
    using Suc.prems as by (intro map_region_ok) auto
  then have "map_table v (j # is) s = map_table v is ?s" for "is"
    using Suc.prems(4) by (simp add: vbind_def vseq_def mapped_region_def sys_close_def trace_def vmod_def)
  then show ?case using es as(1) unfolding up
    by (intro exI [of _ "[Mmap a (g_size ?m + g_moff ?m), Close (m_fds v ! j)] @ es"]) (simp add: tk quiet_def)
qed

lemma remap_nothing:
  assumes "unat (d_max_queues s) \<le> length (d_vq s)" and "\<forall>q\<in>set (d_vq s). vr_desc (vq_ring q) = 0"
  shows "remap_rings why s = Ret () s"
proof -
  have "vfor is (\<lambda>i. vbind (vq_get i) (\<lambda>q. if vr_desc (vq_ring q) \<noteq> 0 then vbind (map_ring i) (\<lambda>bad. vwhen bad (vu_panic why)) else vret ())) s = Ret () s"
    if "\<forall>i\<in>set is. i < length (d_vq s)" for "is"
    using that assms(2) by (induction "is") (auto simp: vseq_def vbind_def vq_get_def vret_def)
  with assms(1) show ?thesis by (simp add: remap_rings_def vbind_def vget_def)
qed

lemma set_mem_table_ok:
  assumes "d_nregions s = 0" and "\<not> d_postcopy_listening s" and "unat (d_max_queues s) \<le> length (d_vq s)"
    and "\<forall>q\<in>set (d_vq s). vr_desc (vq_ring q) = 0" and "w_mmap s = as @ rest" and "length as = unat (pl_index v)"
    and "MAP_FAILED \<notin> set as" and "unat (pl_index v) \<le> VHOST_MEMORY_BASELINE_NREGIONS"
    and "VHOST_MEMORY_BASELINE_NREGIONS \<le> length (d_regions s)"
  shows "\<exists>es. vu_set_mem_table_exec v s = Ret (False, v) (s\<lparr>d_nregions := pl_index v,
      d_regions := map2 (mapped_region v) [0..<unat (pl_index v)] as @ drop (unat (pl_index v)) (d_regions s),
      w_mmap := rest, w_trace := w_trace s @ es\<rparr>) \<and> quiet es"
proof -
  let ?s = "s\<lparr>d_nregions := pl_index v\<rparr>"
  have un: "unmap_regions s = Ret () s"
    using assms(1) by (simp add: unmap_regions_def live_regions_def vbind_def vget_def vret_def)
  obtain es where es: "map_table v [0..<unat (pl_index v)] ?s = Ret () (?s\<lparr>d_regions := map2 (mapped_region v) [0..<unat (pl_index v)] as @
      drop (unat (pl_index v)) (d_regions s), w_mmap := rest, w_trace := w_trace s @ es\<rparr>)" "quiet es"
    using map_table_ok [of ?s as rest "unat (pl_index v)" 0 v] assms by auto
  have "remap_rings why (?s\<lparr>d_regions := R, w_mmap := W, w_trace := T\<rparr>) = Ret () (?s\<lparr>d_regions := R, w_mmap := W, w_trace := T\<rparr>)" for why R W T
    using assms(3,4) by (intro remap_nothing) simp_all
  with es un assms(2) show ?thesis
    by (intro exI [of _ es]) (simp add: vu_set_mem_table_exec_def vseq_def vbind_def vmod_def vget_def done_msg_def vret_def)
qed


section \<open>Rings\<close>

record ring_conf =
  rc_num :: u32
  rc_base :: u16
  rc_addr :: vring_addr
  rc_call :: int
  rc_kick :: int

text \<open>A message with the index of queue \<open>i\<close> and one descriptor.\<close>

definition file_msg :: "nat \<Rightarrow> int \<Rightarrow> vmsg \<Rightarrow> bool" where
  "file_msg i fd v = (msg_queue v = i \<and> \<not> msg_nofd v \<and> m_fd_num v = 1 \<and> m_fds v ! 0 = fd)"

text \<open>What a frontend sends for queue \<open>i\<close>: number, base, addresses, call and kick descriptor.\<close>

definition ring_msgs :: "nat \<Rightarrow> ring_conf \<Rightarrow> in_msg list \<Rightarrow> bool" where
  "ring_msgs i c ms =
     (length ms = 5 \<and>
      asks 8 (ms ! 0) \<and> unat (pl_index (received (ms ! 0))) = i \<and> pl_num (received (ms ! 0)) = rc_num c \<and>
      asks 10 (ms ! 1) \<and> unat (pl_index (received (ms ! 1))) = i \<and> ucast (pl_num (received (ms ! 1))) = rc_base c \<and>
      asks 9 (ms ! 2) \<and> unat (va_index (rc_addr c)) = i \<and> pl_addr (received (ms ! 2)) = rc_addr c \<and>
      asks 13 (ms ! 3) \<and> file_msg i (rc_call c) (received (ms ! 3)) \<and>
      asks 12 (ms ! 4) \<and> file_msg i (rc_kick c) (received (ms ! 4)))"

text \<open>The queue after these messages; only queue 1 gets a handler.\<close>

definition ring_set :: "nat \<Rightarrow> ring_conf \<Rightarrow> vu_region list \<Rightarrow> hmem \<Rightarrow> vu_virtq \<Rightarrow> vu_virtq" where
  "ring_set i c rs hm q =
     (let used = qva_to_va_from rs (va_used (rc_addr c)) in
      q\<lparr>vq_ring := \<lparr>vr_num = rc_num c, vr_desc = qva_to_va_from rs (va_desc (rc_addr c)),
          vr_avail = qva_to_va_from rs (va_avail (rc_addr c)), vr_used = used,
          vr_log = va_log (rc_addr c), vr_flags = va_flags (rc_addr c)\<rparr>,
        vq_vra := rc_addr c, vq_last_avail := rc_base c, vq_shadow_avail := rc_base c, vq_used_idx := used_idx hm used,
        vq_call_fd := rc_call c, vq_kick_fd := rc_kick c, vq_started := True,
        vq_handler := (if i = 1 then Some 0 else vq_handler q)\<rparr>)"

abbreviation with_queue :: "nat \<Rightarrow> (vu_virtq \<Rightarrow> vu_virtq) \<Rightarrow> vst \<Rightarrow> vst" where
  "with_queue i f s \<equiv> s\<lparr>d_vq := (d_vq s)[i := f (d_vq s ! i)]\<rparr>"

lemma vring_num_ok:
  "unat (pl_index v) < length (d_vq s) \<Longrightarrow> vu_set_vring_num_exec v s =
     Ret (False, v) (with_queue (unat (pl_index v)) (\<lambda>q. q\<lparr>vq_ring := (vq_ring q)\<lparr>vr_num := pl_num v\<rparr>\<rparr>) s)"
  by (simp add: vu_set_vring_num_exec_def vseq_def vbind_def vq_upd_def done_msg_def vret_def)

lemma vring_base_ok:
  "unat (pl_index v) < length (d_vq s) \<Longrightarrow> vu_set_vring_base_exec v s =
     Ret (False, v) (with_queue (unat (pl_index v)) (\<lambda>q. q\<lparr>vq_last_avail := ucast (pl_num v), vq_shadow_avail := ucast (pl_num v)\<rparr>) s)"
  by (simp add: vu_set_vring_base_exec_def vseq_def vbind_def vq_upd_def done_msg_def vret_def)

lemma vring_addr_ok:
  assumes "unat (va_index (pl_addr v)) < length (d_vq s)"
    and "desc = qva_to_va_from (live_regions s) (va_desc (pl_addr v))" "desc \<noteq> 0"
    and "used = qva_to_va_from (live_regions s) (va_used (pl_addr v))" "used \<noteq> 0"
    and "avail = qva_to_va_from (live_regions s) (va_avail (pl_addr v))" "avail \<noteq> 0"
  shows "vu_set_vring_addr_exec (iface gs) v s = Ret (False, v) (with_queue (unat (va_index (pl_addr v)))
     (\<lambda>q. q\<lparr>vq_vra := pl_addr v, vq_ring := \<lparr>vr_num = vr_num (vq_ring q), vr_desc = desc, vr_avail = avail, vr_used = used,
        vr_log = va_log (pl_addr v), vr_flags = va_flags (pl_addr v)\<rparr>, vq_used_idx := used_idx (w_mem s) used\<rparr>) s)"
proof -
  have live: "live_regions (s\<lparr>d_vq := x\<rparr>) = live_regions s" for x by (simp add: live_regions_def)
  have ring: "r\<lparr>vr_flags := f, vr_log := l, vr_desc := d, vr_used := u, vr_avail := a\<rparr> =
      \<lparr>vr_num = vr_num r, vr_desc = d, vr_avail = a, vr_used = u, vr_log = l, vr_flags = f\<rparr>" for r :: vu_ring and f l d u a
    by (cases r) simp
  show ?thesis using assms
    by (simp add: ring vu_set_vring_addr_exec_def map_ring_def qva_to_va_def Let_def vseq_def vbind_def vq_upd_def vq_get_def
        vget_def vret_def vwhen_def done_msg_def iface_def live)
qed

lemma vring_call_ok:
  assumes "file_msg i fd v" and "i < length (d_vq s)" and "unat (d_max_queues s) = length (d_vq s)"
    and "vq_call_fd (d_vq s ! i) = - 1" and "fd \<noteq> - 1" and "w_ok s = True # bs"
  shows "vu_set_vring_call_exec v s = Ret (False, v) (with_queue i (\<lambda>q. q\<lparr>vq_call_fd := fd\<rparr>) s
     \<lparr>w_ok := bs, w_trace := w_trace s @ [Ev_write fd]\<rparr>)"
  using assms
  by (simp add: vu_set_vring_call_exec_def file_msg_def vu_check_queue_msg_file_def close_call_def sys_eventfd_def sys_ok_def
      vseq_def vbind_def vq_upd_def vq_get_def vget_def vret_def vwhen_def done_msg_def trace_def vmod_def Let_def)

lemma no_inflights: "d_protocol_features s = 0 \<Longrightarrow> vu_check_queue_inflights i s = Ret True s"
  by (simp add: vu_check_queue_inflights_def vu_has_protocol_feature_def has_feature_def vu_defs)

lemma kick_no_handler: "vq_handler q = None \<Longrightarrow> q\<lparr>vq_kick_fd := fd, vq_started := b, vq_handler := None\<rparr> = q\<lparr>vq_kick_fd := fd, vq_started := b\<rparr>"
  by (cases q) simp

lemma vring_kick_ok:
  assumes "file_msg i fd v" and "i < length (d_vq s)" and "unat (d_max_queues s) = length (d_vq s)"
    and "vq_kick_fd (d_vq s ! i) = - 1" and "0 \<le> fd" and "d_protocol_features s = 0"
    and "vq_handler (d_vq s ! i) = None" and "i < 2"
  shows "vu_set_vring_kick_exec (iface gs) v s = Ret (False, v) (with_queue i (\<lambda>q. q\<lparr>vq_kick_fd := fd, vq_started := True,
        vq_handler := (if i = 1 then Some 0 else vq_handler q)\<rparr>) s
     \<lparr>w_trace := w_trace s @ (if i = 1 then [Set_watch fd 1, Set_watch fd 1] else [])\<rparr>)"
  using assms
  by (auto simp: kick_no_handler vu_set_vring_kick_exec_def file_msg_def vu_check_queue_msg_file_def close_kick_def vcall_def iface_def
      queue_set_started_def vu_get_queue_def vassert_def vu_set_queue_handler_def VQ_TX_def
      vseq_def vbind_def vq_upd_def vq_get_def vget_def vret_def vwhen_def done_msg_def trace_def vmod_def Let_def no_inflights)


lemma queue_exchanges:
  assumes m: "ring_msgs i c ms" and s: "w_recv s = ms @ rest" and i: "i < 2" "length (d_vq s) = 2" "d_max_queues s = 2"
    and q: "vq_call_fd (d_vq s ! i) = - 1" "vq_kick_fd (d_vq s ! i) = - 1" "vq_handler (d_vq s ! i) = None"
    and fds: "rc_call c \<noteq> - 1" "0 \<le> rc_kick c" "w_ok s = True # bs" and pf: "d_protocol_features s = 0"
    and addr: "qva_to_va_from (live_regions s) (va_desc (rc_addr c)) \<noteq> 0"
      "qva_to_va_from (live_regions s) (va_used (rc_addr c)) \<noteq> 0" "qva_to_va_from (live_regions s) (va_avail (rc_addr c)) \<noteq> 0"
  shows "exchanges 5 s (with_queue i (ring_set i c (live_regions s) (w_mem s)) s\<lparr>w_recv := rest, w_ok := bs,
     w_trace := w_trace s @ Ev_write (rc_call c) # (if i = 1 then [Set_watch (rc_kick c) 1, Set_watch (rc_kick c) 1] else [])\<rparr>)"
proof -
  obtain mn mb ma mc mk where ms: "ms = [mn, mb, ma, mc, mk]"
    using m by (auto simp: ring_msgs_def length_Suc_conv eval_nat_numeral)
  note mm = m [unfolded ring_msgs_def ms, simplified]
  have handlers: "request_handler (iface gs) 8 = Some vu_set_vring_num_exec"
    "request_handler (iface gs) 10 = Some vu_set_vring_base_exec"
    "request_handler (iface gs) 9 = Some (vu_set_vring_addr_exec (iface gs))"
    "request_handler (iface gs) 13 = Some vu_set_vring_call_exec"
    "request_handler (iface gs) 12 = Some (vu_set_vring_kick_exec (iface gs))" for gs
    by (simp_all add: handler_table)
  let ?L = "live_regions s"
  define qa where "qa = (d_vq s ! i)\<lparr>vq_ring := (vq_ring (d_vq s ! i))\<lparr>vr_num := rc_num c\<rparr>\<rparr>"
  define qb where "qb = qa\<lparr>vq_last_avail := rc_base c, vq_shadow_avail := rc_base c\<rparr>"
  define qc where "qc = qb\<lparr>vq_vra := rc_addr c, vq_ring := \<lparr>vr_num = vr_num (vq_ring qb),
      vr_desc = qva_to_va_from ?L (va_desc (rc_addr c)), vr_avail = qva_to_va_from ?L (va_avail (rc_addr c)),
      vr_used = qva_to_va_from ?L (va_used (rc_addr c)), vr_log = va_log (rc_addr c), vr_flags = va_flags (rc_addr c)\<rparr>,
      vq_used_idx := used_idx (w_mem s) (qva_to_va_from ?L (va_used (rc_addr c)))\<rparr>"
  define qd where "qd = qc\<lparr>vq_call_fd := rc_call c\<rparr>"
  define qe where "qe = qd\<lparr>vq_kick_fd := rc_kick c, vq_started := True, vq_handler := (if i = 1 then Some 0 else vq_handler qd)\<rparr>"
  let ?s = "\<lambda>q ms. s\<lparr>d_vq := (d_vq s)[i := q], w_recv := ms\<rparr>"
  let ?sd = "?s qd (mk # rest)\<lparr>w_ok := bs, w_trace := w_trace s @ [Ev_write (rc_call c)]\<rparr>"
  let ?se = "?s qe rest\<lparr>w_ok := bs, w_trace := (w_trace s @ [Ev_write (rc_call c)]) @
      (if i = 1 then [Set_watch (rc_kick c) 1, Set_watch (rc_kick c) 1] else [])\<rparr>"
  have live: "live_regions (?s x y) = ?L" for x y by (simp add: live_regions_def)
  have len: "i < length (d_vq s)" using i by simp
  have upd: "with_queue i f (?s q ms) = ?s (f q) ms" for f q ms using len by simp
  have recv: "w_recv (?s q ms) = ms" "(?s q ms)\<lparr>w_recv := ns\<rparr> = ?s q ns" for q ms ns by simp_all
  have "vu_set_vring_num_exec (received mn) (s\<lparr>w_recv := mb # ma # mc # mk # rest\<rparr>) =
      Ret (False, received mn) (?s qa (mb # ma # mc # mk # rest))"
    using mm len by (simp add: vring_num_ok qa_def)
  then have t1: "vu_dispatch (iface gs) s = Ret True (?s qa (mb # ma # mc # mk # rest))" for gs
    using mm s ms by (intro dispatch_asks [OF _ _ handlers(1)]) simp_all
  have "vu_set_vring_base_exec (received mb) (?s qa (ma # mc # mk # rest)) = Ret (False, received mb) (?s qb (ma # mc # mk # rest))"
    using mm len by (simp add: vring_base_ok qb_def)
  then have t2: "vu_dispatch (iface gs) (?s qa (mb # ma # mc # mk # rest)) = Ret True (?s qb (ma # mc # mk # rest))" for gs
    using mm by (intro dispatch_asks [OF _ recv(1) handlers(2)]) simp_all
  have "vu_set_vring_addr_exec (iface gs) (received ma) (?s qb (mc # mk # rest)) = Ret (False, received ma) (?s qc (mc # mk # rest))" for gs
    using mm len addr by (subst vring_addr_ok [OF _ refl _ refl _ refl]) (simp_all add: live qc_def)
  then have t3: "vu_dispatch (iface gs) (?s qb (ma # mc # mk # rest)) = Ret True (?s qc (mc # mk # rest))" for gs
    using mm by (intro dispatch_asks [OF _ recv(1) handlers(3)]) simp_all
  have fc: "vq_call_fd qc = - 1" "vq_kick_fd qd = - 1" "vq_handler qd = None"
    using q by (simp_all add: qd_def qc_def qb_def qa_def)
  have "vu_set_vring_call_exec (received mc) (?s qc (mk # rest)) = Ret (False, received mc) ?sd"
    using mm i fds fc by (subst vring_call_ok [of i "rc_call c"]) (simp_all add: qd_def, rule vst.equality, simp_all)
  then have t4: "vu_dispatch (iface gs) (?s qc (mc # mk # rest)) = Ret True ?sd" for gs
    using mm by (intro dispatch_asks [OF _ recv(1) handlers(4)]) simp_all
  have k: "vu_set_vring_kick_exec (iface gs) (received mk) (?sd\<lparr>w_recv := rest\<rparr>) = Ret (False, received mk) ?se" for gs
    using mm i fds fc pf by (subst vring_kick_ok [of i "rc_kick c"]) (simp_all add: qe_def)
  have t5: "vu_dispatch (iface gs) ?sd = Ret True ?se" for gs
    by (rule dispatch_asks [OF _ _ handlers(5) k]) (use mm in simp_all)
  have "exchanges 5 s ?se"
    using exchanges.turn [OF t1 exchanges.turn [OF t2 exchanges.turn [OF t3 exchanges.turn [OF t4 exchanges.turn [OF t5 exchanges.stay]]]]]
    by (simp add: eval_nat_numeral)
  moreover have "qe = ring_set i c ?L (w_mem s) (d_vq s ! i)"
    by (intro vu_virtq.equality) (simp_all add: qe_def qd_def qc_def qb_def qa_def ring_set_def Let_def)
  ultimately show ?thesis by simp
qed


section \<open>The greeting\<close>

text \<open>Before it sets anything up a frontend asks for the features (1) and the number of queues (17), which
  are answered, and takes the device over (3).\<close>

definition greets :: "in_msg \<Rightarrow> bool" where
  "greets m = (asks 1 m \<or> asks 3 m \<or> asks 17 m)"

text \<open>The next \<open>n\<close> replies reach the frontend.\<close>

definition replies :: "nat \<Rightarrow> vst \<Rightarrow> bool" where
  "replies n s = (n \<le> length (w_send s) \<and> False \<notin> set (w_send s))"

lemma dispatch_replies:
  assumes "asks req m" and "w_recv s = m # ms" and "request_handler (iface gs) req = Some h"
    and "h (received m) (s\<lparr>w_recv := ms\<rparr>) = Ret (True, v) s1" and "m_fd_num v \<le> 8" and "w_send s1 = True # bs"
  shows "vu_dispatch (iface gs) s = Ret True (s1\<lparr>w_send := bs, w_trace := w_trace s1 @
    [Sent (d_sock s1) (v\<lparr>m_flags := (m_flags v AND NOT VHOST_USER_VERSION_MASK) OR VHOST_USER_VERSION OR VHOST_USER_REPLY_MASK\<rparr>)]\<rparr>)"
  using assms read_whole [of m s ms]
  by (simp add: asks_def vu_dispatch_def vbind_def vu_process_message_def iface_process Let_def vret_def vget_def
      vu_send_reply_def vu_message_write_def vseq_def vassert_def VHOST_MEMORY_BASELINE_NREGIONS_def)

lemma next_reply: "replies (Suc n) s \<Longrightarrow> \<exists>bs. w_send s = True # bs \<and> n \<le> length bs \<and> False \<notin> set bs"
  by (cases "w_send s") (auto simp: replies_def)

lemma greet_dispatch:
  assumes "greets m" and "w_recv s = m # ms" and "replies (Suc n) s"
  shows "\<exists>bs es. (\<forall>gs. vu_dispatch (iface gs) s = Ret True (s\<lparr>w_recv := ms, w_send := bs, w_trace := w_trace s @ es\<rparr>)) \<and>
    quiet es \<and> replies n (s\<lparr>w_recv := ms, w_send := bs, w_trace := w_trace s @ es\<rparr>)"
proof -
  obtain bs where bs: "w_send s = True # bs" "n \<le> length bs" "False \<notin> set bs" using next_reply [OF assms(3)] by auto
  have handlers: "request_handler (iface gs) 1 = Some (vu_get_features_exec (iface gs))"
    "request_handler (iface gs) 3 = Some vu_set_owner_exec" "request_handler (iface gs) 17 = Some vu_get_queue_num_exec" for gs
    by (simp_all add: handler_table)
  have reply: ?thesis if req: "asks req m" "\<And>gs. request_handler (iface gs) req = Some (h gs)"
    "\<exists>v. m_fd_num v = 0 \<and> m_request v = m_request (received m) \<and>
      (\<forall>gs. h gs (received m) (s\<lparr>w_recv := ms\<rparr>) = Ret (True, v) (s\<lparr>w_recv := ms\<rparr>))" "req \<noteq> 11" for req h
  proof -
    from req(3) obtain v where v: "m_fd_num v = 0" "m_request v = m_request (received m)"
      "\<And>gs. h gs (received m) (s\<lparr>w_recv := ms\<rparr>) = Ret (True, v) (s\<lparr>w_recv := ms\<rparr>)" by auto
    have "m_fd_num v \<le> 8" "w_send (s\<lparr>w_recv := ms\<rparr>) = True # bs" using v(1) bs by simp_all
    note d = dispatch_replies [OF req(1) assms(2) req(2) v(3) this]
    have "m_request v \<noteq> 11" using req(1,4) v(2) by (auto simp: asks_def)
    with d bs show ?thesis
      by (intro exI [of _ bs] exI conjI allI) (auto simp: quiet_def replies_def)
  qed
  consider "asks 1 m" | "asks 3 m" | "asks 17 m" using assms(1) by (auto simp: greets_def)
  then show ?thesis
  proof cases
    case 1
    then show ?thesis
      by (rule reply [OF _ handlers(1)]) (simp_all add: vu_get_features_exec_def iface_def get_features_def pl_put_def done_msg_def Let_def vret_def)
  next
    case 2
    have "vu_dispatch (iface gs) s = Ret True (s\<lparr>w_recv := ms\<rparr>)" for gs
      by (rule dispatch_asks [OF 2 assms(2) handlers(2)]) (simp add: vu_set_owner_exec_def done_msg_def vret_def)
    then show ?thesis using bs
      by (intro exI [of _ "w_send s"] exI [of _ "[]"]) (auto simp: quiet_def replies_def)
  next
    case 3
    then show ?thesis
      by (rule reply [OF _ handlers(3)])
        (simp_all add: vu_get_queue_num_exec_def vmsg_set_reply_u64_def pl_put_def done_msg_def vret_def vbind_def vget_def)
  qed
qed

lemma greeting_exchanges:
  assumes "\<forall>m\<in>set gs. greets m" and "w_recv s = gs @ rest" and "replies (length gs + n) s"
  shows "\<exists>bs es. exchanges (length gs) s (s\<lparr>w_recv := rest, w_send := bs, w_trace := w_trace s @ es\<rparr>) \<and> quiet es \<and>
    replies n (s\<lparr>w_recv := rest, w_send := bs, w_trace := w_trace s @ es\<rparr>)"
  using assms
proof (induction gs arbitrary: s)
  case Nil
  then have "s\<lparr>w_recv := rest, w_send := w_send s, w_trace := w_trace s @ []\<rparr> = s" by simp
  then show ?case using exchanges.stay [of s] Nil by (metis add_0 list.size(3) quiet_append(2))
next
  case (Cons m gs)
  then obtain bs es where d: "\<And>cs. vu_dispatch (iface cs) s = Ret True (s\<lparr>w_recv := gs @ rest, w_send := bs, w_trace := w_trace s @ es\<rparr>)"
      "quiet es" "replies (length gs + n) (s\<lparr>w_recv := gs @ rest, w_send := bs, w_trace := w_trace s @ es\<rparr>)"
    using greet_dispatch [of m s "gs @ rest" "length gs + n"] by auto
  from Cons.IH [OF _ _ d(3)] Cons.prems obtain cs fs where
    "exchanges (length gs) (s\<lparr>w_recv := gs @ rest, w_send := bs, w_trace := w_trace s @ es\<rparr>)
       (s\<lparr>w_recv := rest, w_send := cs, w_trace := w_trace s @ es @ fs\<rparr>)" "quiet fs"
    "replies n (s\<lparr>w_recv := rest, w_send := cs, w_trace := w_trace s @ es @ fs\<rparr>)" by auto
  with exchanges.turn [OF d(1)] d(2) show ?case by (metis length_Cons quiet_append(1))
qed


section \<open>The farewell\<close>

text \<open>GET_VRING_BASE stops a queue and gives its index back.\<close>

definition gets_base :: "in_msg \<Rightarrow> bool" where
  "gets_base m = (asks 11 m \<and> unat (pl_index (received m)) < 2)"

lemma received_payload: "sizeof_payload \<le> length (m_payload (received m))"
proof -
  have le: "sizeof_payload \<le> k + (sizeof_payload - k)" for k by simp
  have v: "length (m_payload (set_hdr h msg_zero)) = sizeof_payload" for h by (simp add: set_hdr_def msg_zero_def)
  show ?thesis by (simp add: received_def Let_def overlay_def v le split: option.split)
qed

lemma received_fds: "whole_msg m \<Longrightarrow> m_fd_num (received m) \<le> 8"
proof -
  assume w: "whole_msg m"
  have v: "m_fd_num (set_hdr h msg_zero) = 0" for h by (simp add: set_hdr_def msg_zero_def)
  show ?thesis using w by (auto simp: whole_msg_def received_def Let_def v simp del: not_less split: option.splits)
qed

lemma base_answer:
  assumes "sizeof_payload \<le> length (m_payload v)"
  shows "pl_index (pl_put 4 4 n v\<lparr>m_size := z\<rparr>) = pl_index v" "pl_num (pl_put 4 4 n v\<lparr>m_size := z\<rparr>) = of_nat n"
proof -
  have size: "pl_get off k (w\<lparr>m_size := z\<rparr>) = pl_get off k w" for off k w by (simp add: pl_get_def)
  have "4 \<le> length (m_payload v)" using assms by (simp add: sizeof_payload_def)
  then have "pl_get 4 4 (pl_put 4 4 n v) = n mod 2 ^ 32" "pl_get 0 4 (pl_put 4 4 n v) = pl_get 0 4 v"
    using pl_get_put [of 4 v 4 n] by (simp_all add: pl_get_def pl_put_def)
  moreover have "(of_nat (n mod 2 ^ 32) :: u32) = of_nat n"
    by (rule word_unat_eq_iff [THEN iffD2]) (simp add: unsigned_of_nat take_bit_nat_def)
  ultimately show "pl_index (pl_put 4 4 n v\<lparr>m_size := z\<rparr>) = pl_index v" "pl_num (pl_put 4 4 n v\<lparr>m_size := z\<rparr>) = of_nat n"
    by (simp_all add: pl_index_def pl_num_def size)
qed

text \<open>What stops a queue leaves the indices as they are and answers nothing.\<close>

definition stops :: "unit vu \<Rightarrow> bool" where
  "stops f = (\<forall>s. length (d_vq s) = 2 \<and> d_max_queues s = 2 \<longrightarrow>
     (\<exists>qs es. f s = Ret () (s\<lparr>d_vq := qs, w_trace := w_trace s @ es\<rparr>) \<and> bases es = [] \<and>
        map vq_last_avail qs = map vq_last_avail (d_vq s)))"

lemma stopsI:
  assumes "\<And>s. length (d_vq s) = 2 \<Longrightarrow> d_max_queues s = 2 \<Longrightarrow>
    \<exists>qs es. f s = Ret () (s\<lparr>d_vq := qs, w_trace := w_trace s @ es\<rparr>) \<and> bases es = [] \<and> map vq_last_avail qs = map vq_last_avail (d_vq s)"
  shows "stops f"
  using assms by (simp add: stops_def)

lemma stops_vret: "stops (vret ())"
proof (rule stopsI)
  fix s :: vst
  have "s = s\<lparr>d_vq := d_vq s, w_trace := w_trace s @ []\<rparr>" by simp
  then show "\<exists>qs es. vret () s = Ret () (s\<lparr>d_vq := qs, w_trace := w_trace s @ es\<rparr>) \<and> bases es = [] \<and> map vq_last_avail qs = map vq_last_avail (d_vq s)"
    by (metis bases.simps(1) vret_def)
qed

lemma stops_trace: "bases [e] = [] \<Longrightarrow> stops (trace e)"
  by (rule stopsI) (rule exI, rule exI [of _ "[e]"], auto simp: trace_def vmod_def intro: vst.equality)

lemma stops_upd: "i < 2 \<Longrightarrow> (\<And>q. vq_last_avail (f q) = vq_last_avail q) \<Longrightarrow> stops (vq_upd i f)"
proof (rule stopsI)
  fix s :: vst
  assume a: "i < 2" "\<And>q. vq_last_avail (f q) = vq_last_avail q" "length (d_vq s) = 2"
  have "map vq_last_avail ((d_vq s)[i := f (d_vq s ! i)]) = map vq_last_avail (d_vq s)"
    by (metis a(2) list_update_id map_update)
  then show "\<exists>qs es. vq_upd i f s = Ret () (s\<lparr>d_vq := qs, w_trace := w_trace s @ es\<rparr>) \<and> bases es = [] \<and> map vq_last_avail qs = map vq_last_avail (d_vq s)"
    using a(1,3) by (intro exI [of _ "(d_vq s)[i := f (d_vq s ! i)]"] exI [of _ "[]"]) (simp add: vq_upd_def)
qed

lemma stops_seq:
  assumes "stops f" and "stops g"
  shows "stops (vseq f g)"
proof (rule stopsI)
  fix s :: vst
  assume s: "length (d_vq s) = 2" "d_max_queues s = 2"
  obtain qs es where 1: "f s = Ret () (s\<lparr>d_vq := qs, w_trace := w_trace s @ es\<rparr>)" "bases es = []" "map vq_last_avail qs = map vq_last_avail (d_vq s)"
    using assms(1) s unfolding stops_def by blast
  have "length qs = 2" using map_eq_imp_length_eq [OF 1(3)] s(1) by simp
  then obtain rs fs where 2: "g (s\<lparr>d_vq := qs, w_trace := w_trace s @ es\<rparr>) = Ret () (s\<lparr>d_vq := rs, w_trace := (w_trace s @ es) @ fs\<rparr>)" "bases fs = []"
      "map vq_last_avail rs = map vq_last_avail qs"
    using assms(2) [unfolded stops_def, rule_format, of "s\<lparr>d_vq := qs, w_trace := w_trace s @ es\<rparr>"] s by auto
  show "\<exists>qs es. vseq f g s = Ret () (s\<lparr>d_vq := qs, w_trace := w_trace s @ es\<rparr>) \<and> bases es = [] \<and> map vq_last_avail qs = map vq_last_avail (d_vq s)"
    using 1 2 by (intro exI [of _ rs] exI [of _ "es @ fs"]) (simp add: vseq_def vbind_def)
qed

lemma stops_get: "i < 2 \<Longrightarrow> (\<And>q. stops (f q)) \<Longrightarrow> stops (vbind (vq_get i) f)"
  by (auto simp: stops_def vbind_def vq_get_def)

lemma stops_close: "stops (sys_close fd)"
  by (simp add: sys_close_def stops_trace)

lemma stops_queue: "i < 2 \<Longrightarrow> stops (queue_set_started i False)"
proof -
  assume i: "i < 2"
  have "stops (vu_set_queue_handler i None)"
    unfolding vu_set_queue_handler_def using i
    by (auto intro!: stops_seq stops_upd stops_get stops_trace stops_vret)
  then have "stops (if i = VQ_TX then vu_set_queue_handler i (if False then Some 0 else None) else vret ())"
    by (cases "i = VQ_TX") (simp_all add: stops_vret)
  then show ?thesis using i
    by (auto simp: stops_def queue_set_started_def vu_get_queue_def vbind_def vget_def vseq_def vassert_def vret_def vq_get_def)
qed

lemma get_base_exec:
  assumes i: "unat (pl_index v) = i" "i < 2" and s: "length (d_vq s) = 2" "d_max_queues s = 2"
  shows "\<exists>qs es. (\<forall>gs. vu_get_vring_base_exec (iface gs) v s =
      Ret (True, (pl_put 4 4 (unat (vq_last_avail (d_vq s ! i))) v)\<lparr>m_size := 8\<rparr>) (s\<lparr>d_vq := qs, w_trace := w_trace s @ es\<rparr>)) \<and>
    bases es = [] \<and> map vq_last_avail qs = map vq_last_avail (d_vq s)"
proof -
  let ?f = "vseq (vq_upd i (\<lambda>q. q\<lparr>vq_started := False\<rparr>)) (vseq (queue_set_started i False) (vseq (close_call i) (close_kick i)))"
  have "stops ?f"
    unfolding close_call_def close_kick_def vwhen_def using i(2)
    by (auto intro!: stops_seq stops_upd stops_get stops_trace stops_vret stops_close stops_queue)
  then obtain qs es where f: "?f s = Ret () (s\<lparr>d_vq := qs, w_trace := w_trace s @ es\<rparr>)" "bases es = []"
      "map vq_last_avail qs = map vq_last_avail (d_vq s)"
    using s unfolding stops_def by blast
  have assoc: "vseq a (vseq b c) = vseq (vseq a b) c" for a b :: "unit vu" and c :: "(bool \<times> vmsg) vu"
    by (rule ext) (simp add: vseq_def vbind_def split: vres.split)
  have "vu_get_vring_base_exec (iface gs) v s = vseq ?f (done_msg True ((pl_put 4 4 (unat (vq_last_avail (d_vq s ! i))) v)\<lparr>m_size := 8\<rparr>)) s" for gs
    using i s by (simp add: vu_get_vring_base_exec_def vbind_def vq_get_def vcall_def iface_def assoc [symmetric] vseq_def split: vres.split)
  with f show ?thesis by (intro exI [of _ qs] exI [of _ es]) (simp add: vseq_def vbind_def done_msg_def vret_def)
qed

lemma base_dispatch:
  assumes m: "gets_base m" and r: "w_recv s = m # ms" "replies (Suc n) s" and s: "length (d_vq s) = 2" "d_max_queues s = 2"
  shows "\<exists>s1. (\<forall>gs. vu_dispatch (iface gs) s = Ret True s1) \<and> w_recv s1 = ms \<and> replies n s1 \<and> d_max_queues s1 = 2 \<and>
    g_sink s1 = g_sink s \<and> map vq_last_avail (d_vq s1) = map vq_last_avail (d_vq s) \<and>
    bases (w_trace s1) = bases (w_trace s) @
      [(pl_index (received m), ucast (vq_last_avail (d_vq s ! unat (pl_index (received m)))))]"
proof -
  let ?i = "unat (pl_index (received m))" and ?s = "s\<lparr>w_recv := ms\<rparr>"
  obtain bs where bs: "w_send s = True # bs" "n \<le> length bs" "False \<notin> set bs" using next_reply [OF r(2)] by auto
  have a: "asks 11 m" and i: "?i < 2" using m by (simp_all add: gets_base_def)
  obtain qs es where ex: "\<And>gs. vu_get_vring_base_exec (iface gs) (received m) ?s =
      Ret (True, (pl_put 4 4 (unat (vq_last_avail (d_vq s ! ?i))) (received m))\<lparr>m_size := 8\<rparr>) (?s\<lparr>d_vq := qs, w_trace := w_trace s @ es\<rparr>)"
    "bases es = []" "map vq_last_avail qs = map vq_last_avail (d_vq s)"
    using get_base_exec [OF refl i, of ?s] s by auto
  let ?v = "(pl_put 4 4 (unat (vq_last_avail (d_vq s ! ?i))) (received m))\<lparr>m_size := 8\<rparr>"
  have fds: "m_fd_num ?v \<le> 8"
    using a received_fds [of m] by (simp add: asks_def pl_put_def)
  have h: "request_handler (iface gs) 11 = Some (vu_get_vring_base_exec (iface gs))" for gs by (simp add: handler_table)
  let ?s1 = "?s\<lparr>d_vq := qs, w_trace := w_trace s @ es\<rparr>"
  have "w_send ?s1 = True # bs" using bs by simp
  note d = dispatch_replies [OF a r(1) h ex(1) fds this]
  have flags: "pl_index (w\<lparr>m_flags := f\<rparr>) = pl_index w" "pl_num (w\<lparr>m_flags := f\<rparr>) = pl_num w" for w f
    by (simp_all add: pl_index_def pl_num_def pl_get_def)
  have num: "(of_nat (unat w) :: u32) = ucast w" for w :: u16 by (simp add: unsigned_ucast_eq word_unat_eq_iff)
  have req: "m_request ?v = 11" using a by (simp add: asks_def pl_put_def word_unat_eq_iff)
  show ?thesis
    using d bs s ex(2,3) req
    by (intro exI conjI allI) (assumption | simp add: replies_def flags base_answer [OF received_payload] num)+
qed

lemma farewell_exchanges:
  assumes "\<forall>m\<in>set ms. gets_base m" and "w_recv s = ms @ rest" and "replies (length ms) s" and "length (d_vq s) = 2" "d_max_queues s = 2"
  shows "\<exists>s'. exchanges (length ms) s s' \<and> w_recv s' = rest \<and> g_sink s' = g_sink s \<and>
    bases (w_trace s') = bases (w_trace s) @
      map (\<lambda>m. (pl_index (received m), ucast (vq_last_avail (d_vq s ! unat (pl_index (received m)))))) ms"
  using assms
proof (induction ms arbitrary: s)
  case Nil
  then show ?case by (intro exI [of _ s]) (simp add: exchanges.stay)
next
  case (Cons m ms)
  then obtain s1 where s1: "\<And>gs. vu_dispatch (iface gs) s = Ret True s1" "w_recv s1 = ms @ rest" "replies (length ms) s1" "d_max_queues s1 = 2"
      "g_sink s1 = g_sink s" "map vq_last_avail (d_vq s1) = map vq_last_avail (d_vq s)"
      "bases (w_trace s1) = bases (w_trace s) @ [(pl_index (received m), ucast (vq_last_avail (d_vq s ! unat (pl_index (received m)))))]"
    using base_dispatch [of m s "ms @ rest" "length ms"] by auto
  have len: "length (d_vq s1) = 2" using map_eq_imp_length_eq [OF s1(6)] Cons.prems(4) by simp
  have same: "vq_last_avail (d_vq s1 ! i) = vq_last_avail (d_vq s ! i)" if "i < 2" for i
    using s1(6) len Cons.prems(4) that by (metis nth_map)
  from Cons.IH [OF _ s1(2,3) len s1(4)] Cons.prems(1) obtain s' where s': "exchanges (length ms) s1 s'" "w_recv s' = rest" "g_sink s' = g_sink s1"
      "bases (w_trace s') = bases (w_trace s1) @
        map (\<lambda>m. (pl_index (received m), ucast (vq_last_avail (d_vq s1 ! unat (pl_index (received m)))))) ms" by auto
  moreover have "map (\<lambda>m. (pl_index (received m), ucast (vq_last_avail (d_vq s1 ! unat (pl_index (received m)))) :: u32)) ms =
      map (\<lambda>m. (pl_index (received m), ucast (vq_last_avail (d_vq s ! unat (pl_index (received m)))))) ms"
    using Cons.prems(1) same by (simp add: gets_base_def)
  ultimately show ?case using exchanges.turn [OF s1(1) s'(1)] s1 by (intro exI [of _ s']) simp
qed

end
