(* ===== verification/Backend_Kicks.thy ===== *)
theory Backend_Kicks
  imports Backend_Setup
begin

text \<open>
  A guest's driver beside the running backend.  The driver is an environment of \<^verbatim>\<open>backend.c\<close>: what it
  stored is a list of memory snapshots, one per turn of the main loop, and \<open>driver\<close> says that each
  snapshot announces new chains as the virtio specification asks for.  The lemmas lead to the log
  of all turns.
\<close>

section \<open>The sink over several records\<close>

definition emits :: "byte list list \<Rightarrow> vlog_sink \<Rightarrow> vlog_sink" where
  "emits ms sk = fold (\<lambda>m sk. vlog_sink_emit sk m (length m)) ms sk"

text \<open>The appends that the lines \<open>ms\<close> come to, numbered from \<open>seq\<close>; empty lines leave none.\<close>

fun sink_calls :: "u32 \<Rightarrow> byte list list \<Rightarrow> rec_call list" where
  "sink_calls seq [] = []"
| "sink_calls seq (m # ms) =
     (case sink_line m of
        None \<Rightarrow> sink_calls seq ms
      | Some (level, q) \<Rightarrow> (seq, level, q) # sink_calls (seq + 1) ms)"

lemma emits_append: "emits (ms @ ms') sk = emits ms' (emits ms sk)"
  by (simp add: emits_def)

lemma emits_disk:
  "ls_buf (sk_store sk) = [] \<Longrightarrow>
   ls_disk (sk_store (emits ms sk)) = ls_disk (sk_store sk) @ concat (map fmt_call (sink_calls (sk_seq sk) ms))"
proof (induction ms arbitrary: sk)
  case (Cons m ms)
  show ?case
  proof (cases "sink_line m")
    case None
    with Cons show ?thesis by (simp add: emits_def sink_emit_line)
  next
    case (Some x)
    obtain level q where x: "x = (level, q)" by (cases x)
    let ?sk = "sk\<lparr>sk_store := logstore_append (sk_store sk) (sk_seq sk) level q, sk_seq := sk_seq sk + 1\<rparr>"
    have "emits (m # ms) sk = emits ms ?sk" using Some x by (simp add: emits_def sink_emit_line)
    moreover have "ls_buf (sk_store ?sk) = []" by (simp add: append_flushed)
    ultimately show ?thesis using Cons.IH [of ?sk] Cons.prems Some x by (simp add: disk_append)
  qed
qed (simp add: emits_def)

lemma fold_emit_chain: "fold (emit_chain vq mem hm) hs sk = emits (map (queue_record vq mem hm) hs) sk"
proof (induction hs arbitrary: sk)
  case (Cons h hs)
  have "emit_chain vq mem hm h sk = vlog_sink_emit sk (queue_record vq mem hm h) (length (queue_record vq mem hm h))"
    by (simp add: emit_chain_def Let_def vlog_sink_emit_def)
  with Cons show ?case by (simp add: emits_def)
qed (simp add: emits_def)

section \<open>The driver\<close>

text \<open>The queue \<open>vq\<close> with the driver's index at \<open>la\<close>: the snapshot \<open>hm\<close> announces chains with the
  records \<open>ms\<close>, no more than the ring holds, and the device's own stores do not change what they say.\<close>

definition announces :: "virtq \<Rightarrow> virtq_mem \<Rightarrow> hmem \<Rightarrow> u16 \<Rightarrow> byte list list \<Rightarrow> bool" where
  "announces vq mem hm la ms =
     (undisturbed vq mem hm \<and> length ms \<le> unat (q_num vq) \<and>
      (\<forall>hm'. same_outside vq hm hm' \<longrightarrow> avail_idx hm' (q_avail vq) = la + of_nat (length ms)) \<and>
      map (queue_record vq mem hm) (heads vq hm la (length ms)) = ms)"

lemma same_outside_trans: "same_outside vq a b \<Longrightarrow> same_outside vq b c \<Longrightarrow> same_outside vq a c"
  by (simp add: same_outside_def)

lemma same_outside_sym: "same_outside vq a b \<Longrightarrow> same_outside vq b a"
  by (simp add: same_outside_def)

lemma undisturbed_same:
  assumes "undisturbed vq mem hm" and "same_outside vq hm hm'"
  shows "undisturbed vq mem hm'" "queue_record vq mem hm' head = queue_record vq mem hm head"
proof -
  show "queue_record vq mem hm' head = queue_record vq mem hm head" using assms by (simp add: undisturbed_def)
  have "nest_ok mem h (q_desc vq) (unat (q_num vq)) \<and> (\<forall>head. queue_record vq mem h head = queue_record vq mem hm' head) \<and>
      (\<forall>k < unat (q_num vq). avail_ring h (q_avail vq) k = avail_ring hm' (q_avail vq) k)" if "same_outside vq hm' h" for h
    using assms same_outside_trans [OF assms(2) that] by (simp add: undisturbed_def)
  then show "undisturbed vq mem hm'" by (simp add: undisturbed_def)
qed

lemma heads_same:
  assumes "undisturbed vq mem hm" and "same_outside vq hm hm'" and "q_num vq \<noteq> 0"
  shows "heads vq hm' la n = heads vq hm la n"
proof (induction n arbitrary: la)
  case (Suc n)
  have "unat (la mod q_num vq) < unat (q_num vq)" using assms(3) by (simp add: unat_mod unat_gt_0)
  with Suc assms show ?case by (simp add: undisturbed_def)
qed simp

lemma announces_same:
  assumes "announces vq mem hm la ms" and "same_outside vq hm hm'" and "q_num vq \<noteq> 0"
  shows "announces vq mem hm' la ms"
proof -
  have u: "undisturbed vq mem hm" using assms(1) by (simp add: announces_def)
  have "queue_record vq mem hm' = queue_record vq mem hm" by (rule ext) (rule undisturbed_same [OF u assms(2)])
  with assms u undisturbed_same(1) [OF u assms(2)] heads_same [OF u assms(2,3)] show ?thesis
    by (auto simp: announces_def intro: same_outside_trans)
qed

lemma announces_index: "announces (vq\<lparr>q_last_avail := x\<rparr>) = announces vq"
proof -
  have sq: "same_queue (vq\<lparr>q_last_avail := x\<rparr>) vq" by (simp add: same_queue_def)
  have "heads (vq\<lparr>q_last_avail := x\<rparr>) hm la n = heads vq hm la n" for hm la n
    by (induction n arbitrary: la) simp_all
  with same_queueD [OF sq] show ?thesis
    by (intro ext) (simp add: announces_def undisturbed_def)
qed

lemma same_outside_index: "same_outside (vq\<lparr>q_last_avail := x\<rparr>) = same_outside vq"
  by (intro ext) (simp add: same_outside_def used_area_def)

text \<open>\<open>driver vq mem fd H la rs ms\<close>: in the turns \<open>rs\<close> a driver that has stored \<open>H\<close> and announced
  everything up to the index \<open>la\<close> goes on to announce the records \<open>ms\<close> and kicks with \<open>fd\<close>; the socket
  is silent.\<close>

inductive driver :: "virtq \<Rightarrow> virtq_mem \<Rightarrow> int \<Rightarrow> hmem \<Rightarrow> u16 \<Rightarrow> round list \<Rightarrow> byte list list \<Rightarrow> bool"
  for vq mem fd where
  rests: "driver vq mem fd H la [] []"
| idles: "rd_poll r \<Longrightarrow> \<not> rd_cfd r \<Longrightarrow> \<not> rd_ready r fd \<Longrightarrow>
    (\<And>hm. same_outside vq H hm \<Longrightarrow> same_outside vq H' (rd_wait r hm)) \<Longrightarrow>
    driver vq mem fd H' la rs ms \<Longrightarrow> driver vq mem fd H la (r # rs) ms"
| kicks: "rd_poll r \<Longrightarrow> \<not> rd_cfd r \<Longrightarrow> rd_ready r fd \<Longrightarrow>
    (\<And>hm. same_outside vq H hm \<Longrightarrow> same_outside vq H' (rd_step r fd (rd_wait r hm))) \<Longrightarrow>
    announces vq mem H' la new \<Longrightarrow> driver vq mem fd H' (la + of_nat (length new)) rs ms \<Longrightarrow>
    driver vq mem fd H la (r # rs) (new @ ms)"

section \<open>One kick\<close>

lemma kick_run:
  assumes a: "announces vq mem hm (q_last_avail vq) ms" and n: "q_num vq \<noteq> 0" "unat (q_num vq) dvd 65536"
  shows "\<exists>hm'. kick_loop mem False gs vq hm sk 0 =
      Some (Inr (vq\<lparr>q_last_avail := q_last_avail vq + of_nat (length ms)\<rparr>, hm', emits ms sk, length ms)) \<and> same_outside vq hm hm'"
proof -
  have u: "undisturbed vq mem hm" and idx: "avail_idx hm (q_avail vq) = q_last_avail vq + of_nat (length ms)"
    and len: "length ms \<le> unat (q_num vq)" and rec: "map (queue_record vq mem hm) (heads vq hm (q_last_avail vq) (length ms)) = ms"
    using a by (auto simp: announces_def same_outside_def)
  have "length ms < 65536" using len unsigned_less [of "q_num vq", where 'a = nat] by simp
  then have k: "length ms = unat (avail_idx hm (q_avail vq) - q_last_avail vq)" by (simp add: idx)
  from handle_run [OF u n k len, of sk] obtain r where r: "vlog_virtq_handle vq mem hm sk = Some (Inr r)"
    "run_chains r = length ms" "run_vq r = vq\<lparr>q_last_avail := avail_idx hm (q_avail vq)\<rparr>" "run_sink r = emits ms sk"
    by (auto simp: fold_emit_chain rec)
  have "same_outside vq hm (run_mem r)"
    using handle_loop_counts [OF r(1) [unfolded vlog_virtq_handle_def] refl] by (simp add: same_outside_def)
  moreover have "kick_loop mem False gs vq hm sk 0 = Some (Inr (run_vq r, run_mem r, run_sink r, length ms))"
    by (subst kick_loop.simps) (simp add: r)
  ultimately show ?thesis by (auto simp: r idx)
qed


section \<open>The backend serves the queue\<close>

text \<open>A device that is set up to take the chains of \<open>vq\<close> when \<open>fd\<close> is kicked; every answer of the
  kernel that is still to come (\<open>n\<close> at least) is a success.\<close>

definition serving :: "int \<Rightarrow> virtq \<Rightarrow> virtq_mem \<Rightarrow> vst \<Rightarrow> bool" where
  "serving fd vq mem s =
     (length (d_vq s) = 2 \<and> d_max_queues s = 2 \<and> queue_view (d_vq s ! 1) = vq \<and>
      q_desc vq \<noteq> 0 \<and> q_avail vq \<noteq> 0 \<and> q_used vq \<noteq> 0 \<and> q_num vq \<noteq> 0 \<and> unat (q_num vq) dvd 65536 \<and>
      vq_handler (d_vq s ! 1) = Some 0 \<and> g_features s AND bit64 VIRTIO_RING_F_EVENT_IDX = 0 \<and>
      build_mem s = mem \<and> watches s = [(fd, 1)] \<and> bases (w_trace s) = [])"

definition answers :: "nat \<Rightarrow> vst \<Rightarrow> bool" where
  "answers n s = (n \<le> length (w_ok s) \<and> False \<notin> set (w_ok s))"

lemma next_answer:
  assumes "answers (Suc n) s"
  shows "\<exists>bs. w_ok s = True # bs \<and> sys_ok s = Ret True (s\<lparr>w_ok := bs\<rparr>) \<and> answers n (s\<lparr>w_ok := bs\<rparr>)"
  using assms by (cases "w_ok s") (auto simp: answers_def sys_ok_def)

lemma watches_written: "watches (s\<lparr>w_trace := w_trace s @ [Ev_write fd]\<rparr>) = watches s"
  by (simp add: watches_def)

lemma serving_mem: "serving fd vq mem (s\<lparr>w_mem := hm\<rparr>) = serving fd vq mem s"
  by (simp add: serving_def build_mem_def live_regions_def watches_def)

lemma kick_serves:
  assumes s: "serving fd vq mem s" and a: "announces vq mem H (q_last_avail vq) ms" and m: "same_outside vq H (w_mem s)"
    and ok: "answers (Suc (Suc n)) s"
  shows "\<exists>s'. vu_kick_cb (iface gs) 1 s = Ret () s' \<and> serving fd (vq\<lparr>q_last_avail := q_last_avail vq + of_nat (length ms)\<rparr>) mem s' \<and>
    same_outside vq H (w_mem s') \<and> g_sink s' = emits ms (g_sink s) \<and> w_recv s' = w_recv s \<and> w_send s' = w_send s \<and> d_vq s' ! 0 = d_vq s ! 0 \<and> answers n s'"
proof -
  let ?q = "d_vq s ! 1" and ?vq = "vq\<lparr>q_last_avail := q_last_avail vq + of_nat (length ms)\<rparr>"
  note sv = s [unfolded serving_def]
  obtain bs where bs: "sys_ok s = Ret True (s\<lparr>w_ok := bs\<rparr>)" "answers (Suc n) (s\<lparr>w_ok := bs\<rparr>)"
    using next_answer [OF ok] by metis
  have n: "q_num vq \<noteq> 0" "unat (q_num vq) dvd 65536" using sv by simp_all
  from kick_run [OF announces_same [OF a m n(1)] n, of gs "g_sink s"] obtain hm where
    hm: "kick_loop mem False gs vq (w_mem s) (g_sink s) 0 = Some (Inr (?vq, hm, emits ms (g_sink s), length ms))"
      "same_outside vq (w_mem s) hm" by metis
  let ?s1 = "s\<lparr>w_ok := bs, w_mem := hm, g_sink := emits ms (g_sink s), d_vq := (d_vq s)[1 := ?q\<lparr>vq_last_avail := q_last_avail ?vq\<rparr>]\<rparr>"
  have ring: "vr_desc (vq_ring ?q) \<noteq> 0" "vr_avail (vq_ring ?q) \<noteq> 0" "vr_used (vq_ring ?q) \<noteq> 0" "vr_num (vq_ring ?q) \<noteq> 0"
    using sv by (auto simp: queue_view_def Let_def)
  have "build_mem (s\<lparr>w_ok := bs\<rparr>) = mem" using sv by (simp add: build_mem_def live_regions_def)
  then have kick: "vu_kick_cb (iface gs) 1 s =
      (if length ms > 0 \<and> vq_call_fd ?q \<ge> 0 then vbind (sys_eventfd (vq_call_fd ?q)) (\<lambda>_. vret ()) else vret ()) ?s1"
    using sv ring hm(1) by (simp add: vu_kick_cb_def vbind_def vq_get_def bs iface_def tx_kick_def vu_get_queue_def vget_def
        vseq_def vassert_def vret_def vq_upd_def)
  have view: "queue_view (?q\<lparr>vq_last_avail := x\<rparr>) = vq\<lparr>q_last_avail := x\<rparr>" for x
    using sv by (auto simp: queue_view_def Let_def)
  have "build_mem ?s1 = build_mem s" "watches ?s1 = watches s" "bases (w_trace ?s1) = bases (w_trace s)"
    by (simp_all add: build_mem_def live_regions_def watches_def)
  then have s1: "serving fd ?vq mem ?s1" using sv by (simp add: serving_def view del: One_nat_def)
  have ok1: "answers (Suc n) ?s1" using bs(2) by (simp add: answers_def)
  have "\<exists>s'. (if length ms > 0 \<and> vq_call_fd ?q \<ge> 0 then vbind (sys_eventfd (vq_call_fd ?q)) (\<lambda>_. vret ()) else vret ()) ?s1 = Ret () s' \<and>
      (s' = ?s1 \<or> (\<exists>cs. s' = ?s1\<lparr>w_ok := cs, w_trace := w_trace ?s1 @ [Ev_write (vq_call_fd ?q)]\<rparr> \<and> answers n s'))"
    using next_answer [OF ok1] by (auto simp: vbind_def sys_eventfd_def vseq_def vwhen_def trace_def vmod_def vret_def answers_def)
  then obtain s' where s': "vu_kick_cb (iface gs) 1 s = Ret () s'"
    "s' = ?s1 \<or> (\<exists>cs. s' = ?s1\<lparr>w_ok := cs, w_trace := w_trace ?s1 @ [Ev_write (vq_call_fd ?q)]\<rparr> \<and> answers n s')"
    using kick by metis
  have "serving fd ?vq mem s' \<and> w_mem s' = hm \<and> g_sink s' = emits ms (g_sink s) \<and> w_recv s' = w_recv s \<and> w_send s' = w_send s \<and> d_vq s' ! 0 = d_vq s ! 0 \<and> answers n s'"
    using s'(2) s1 ok1 by (auto simp: serving_def build_mem_def live_regions_def watches_def answers_def)
  with s'(1) hm(2) m show ?thesis by (auto intro: same_outside_trans)
qed


text \<open>A turn that serves the kick: only \<open>fd\<close> is watched.\<close>

lemma kick_turn:
  assumes "rd_poll r" and "\<not> rd_cfd r" and "rd_ready r fd" and "watches s = [(fd, 1)]"
    and "vu_kick_cb (iface (rd_guest r)) 1 (s\<lparr>w_mem := rd_step r fd (rd_wait r (w_mem s))\<rparr>) = Ret () s'"
  shows "backend_loop (r # rs) s = backend_loop rs s'"
proof -
  have "watches (s\<lparr>w_mem := hm\<rparr>) = [(fd, 1)]" for hm using assms(4) by (simp add: watches_def)
  with assms show ?thesis
    by (simp add: vbind_def vget_def vseq_def vret_def set_mem_def vmod_def)
qed

lemma idle_turn:
  assumes "rd_poll r" and "\<not> rd_cfd r" and "\<not> rd_ready r fd" and "watches s = [(fd, 1)]"
  shows "backend_loop (r # rs) s = backend_loop rs (s\<lparr>w_mem := rd_wait r (w_mem s)\<rparr>)"
  using assms by (simp add: vbind_def vget_def vseq_def vret_def set_mem_def vmod_def)

lemma driver_serves:
  assumes "driver vq mem fd H la rs ms" and "serving fd (vq\<lparr>q_last_avail := la\<rparr>) mem s" and "same_outside vq H (w_mem s)"
    and "answers (2 * length rs) s"
  shows "\<exists>s'. (\<forall>rest. backend_loop (rs @ rest) s = backend_loop rest s') \<and>
    serving fd (vq\<lparr>q_last_avail := la + of_nat (length ms)\<rparr>) mem s' \<and> g_sink s' = emits ms (g_sink s) \<and>
    w_recv s' = w_recv s \<and> w_send s' = w_send s \<and> d_vq s' ! 0 = d_vq s ! 0"
  using assms
proof (induction arbitrary: s rule: driver.induct)
  case (rests H la)
  then show ?case by (intro exI [of _ s]) (simp add: emits_def)
next
  case (idles r H H' la rs ms)
  let ?s = "s\<lparr>w_mem := rd_wait r (w_mem s)\<rparr>"
  have w: "watches s = [(fd, 1)]" using idles.prems by (simp add: serving_def)
  have "\<exists>s'. (\<forall>rest. backend_loop (rs @ rest) ?s = backend_loop rest s') \<and>
      serving fd (vq\<lparr>q_last_avail := la + of_nat (length ms)\<rparr>) mem s' \<and> g_sink s' = emits ms (g_sink ?s) \<and>
      w_recv s' = w_recv ?s \<and> w_send s' = w_send ?s \<and> d_vq s' ! 0 = d_vq ?s ! 0"
    using idles.prems idles.hyps(4) by (intro idles.IH) (simp_all add: serving_mem answers_def)
  moreover have "backend_loop ((r # rs) @ rest) s = backend_loop (rs @ rest) ?s" for rest
    using idle_turn [OF idles.hyps(1-3) w, of "rs @ rest"] by simp
  ultimately show ?case by simp
next
  case (kicks r H H' la new rs ms)
  let ?s = "s\<lparr>w_mem := rd_step r fd (rd_wait r (w_mem s))\<rparr>" and ?vq = "vq\<lparr>q_last_avail := la\<rparr>"
  have w: "watches s = [(fd, 1)]" using kicks.prems by (simp add: serving_def)
  have "\<exists>s1. vu_kick_cb (iface (rd_guest r)) 1 ?s = Ret () s1 \<and>
      serving fd (?vq\<lparr>q_last_avail := q_last_avail ?vq + of_nat (length new)\<rparr>) mem s1 \<and>
      same_outside ?vq H' (w_mem s1) \<and> g_sink s1 = emits new (g_sink ?s) \<and> w_recv s1 = w_recv ?s \<and> w_send s1 = w_send ?s \<and>
      d_vq s1 ! 0 = d_vq ?s ! 0 \<and> answers (2 * length rs) s1"
  proof (rule kick_serves)
    show "serving fd ?vq mem ?s" using kicks.prems by (simp add: serving_mem)
    show "announces ?vq mem H' (q_last_avail ?vq) new" using kicks.hyps(5) by (simp add: announces_index)
    show "same_outside ?vq H' (w_mem ?s)" using kicks.hyps(4) kicks.prems by (simp add: same_outside_index)
    show "answers (Suc (Suc (2 * length rs))) ?s" using kicks.prems by (simp add: answers_def)
  qed
  then obtain s1 where s1: "vu_kick_cb (iface (rd_guest r)) 1 ?s = Ret () s1"
      "serving fd (vq\<lparr>q_last_avail := la + of_nat (length new)\<rparr>) mem s1" "same_outside vq H' (w_mem s1)"
      "g_sink s1 = emits new (g_sink s)" "w_recv s1 = w_recv s" "w_send s1 = w_send s" "d_vq s1 ! 0 = d_vq s ! 0"
      "answers (2 * length rs) s1"
    by (auto simp: same_outside_index)
  have "backend_loop ((r # rs) @ rest) s = backend_loop (rs @ rest) s1" for rest
    using kick_turn [OF kicks.hyps(1-3) w s1(1), of "rs @ rest"] by simp
  with kicks.IH [OF s1(2,3,8)] s1(4-7) show ?case by (simp add: emits_append add.assoc)
qed

text \<open>The turn in which the frontend has hung up.\<close>

lemma hangup_turn:
  assumes "rd_poll r" and "rd_cfd r" and "w_recv s = m # msgs" and "whole_msg m" and "m_request (received m) = 0"
  shows "backend_loop (r # rs) s = Stop (Exited 0) (s\<lparr>w_mem := rd_wait r (w_mem s), w_recv := msgs\<rparr>)"
proof -
  have "vu_dispatch (iface (rd_guest r)) (s\<lparr>w_mem := rd_wait r (w_mem s)\<rparr>) =
      Stop (Exited 0) (s\<lparr>w_mem := rd_wait r (w_mem s), w_recv := msgs\<rparr>)"
    using assms by (subst dispatch_hangup [of m _ msgs]) simp_all
  with assms show ?thesis by (simp add: vbind_def vget_def vseq_def set_mem_def vmod_def)
qed

end
