(* ===== verification/Guest_Init.thy ===== *)
theory Guest_Init
  imports Virtq
begin

text \<open>
  \<^verbatim>\<open>project_1/vhost/guest/init.c\<close>, the program a virtual machine of project 1 runs: it writes its records
  to the console device.  The console driver is part of the guest's kernel and not in the
  repository; \<open>plain_ring\<close> is a ring as any driver lays it out that puts one buffer into one
  descriptor, and the lemmas say what the device reads from it.
\<close>

section \<open>The program\<close>

datatype init_call =
    Mkdir string nat
  | Mount string string string
  | Open string
  | Write int string
  | Fsync int
  | Sync
  | Sleep nat
  | Power_off

definition init_recs :: "string list" where
  "init_recs = [''1 function runner started'' @ [NL], ''0 processing request 1'' @ [NL], ''2 cache miss'' @ [NL],
     ''3 request 1 failed'' @ [NL]]"

text \<open>The calls it makes and its result, when \<^verbatim>\<open>open\<close> returns \<open>fd\<close>; no other result is looked at.\<close>

definition init_main :: "int \<Rightarrow> init_call list \<times> int" where
  "init_main fd =
     (let start = [Mkdir ''/dev'' 493, Mount ''devtmpfs'' ''/dev'' ''devtmpfs'', Open ''/dev/hvc0''] in
      if fd < 0 then (start @ [Power_off], 1)
      else (start @ map (Write fd) init_recs @ [Fsync fd, Sync, Sleep 1, Power_off], 0))"

definition written :: "init_call list \<Rightarrow> string list" where
  "written cs = concat (map (\<lambda>c. case c of Write _ bs \<Rightarrow> [bs] | _ \<Rightarrow> []) cs)"

lemma init_written: "0 \<le> fd \<Longrightarrow> written (fst (init_main fd)) = init_recs"
  by (simp add: init_main_def written_def init_recs_def)

section \<open>A ring of plain descriptors\<close>

lemma apart_used:
  "apart a n (q_used vq) (4 + 8 * unat (q_num vq)) \<Longrightarrow> same_outside vq hm hm' \<Longrightarrow> ld_bytes hm' a n = ld_bytes hm a n"
  by (rule ld_bytes_cong) (simp add: apart_def same_outside_def used_area_def not_less)

text \<open>\<open>bufs\<close> are the host addresses and the contents of the buffers of the descriptors, in order.\<close>

definition plain_ring :: "virtq \<Rightarrow> virtq_mem \<Rightarrow> hmem \<Rightarrow> (u64 \<times> byte list) list \<Rightarrow> bool" where
  "plain_ring vq mem hm bufs =
     (let area = 4 + 8 * unat (q_num vq) in
      length bufs = unat (q_num vq) \<and> 0 < unat (q_num vq) \<and>
      (\<forall>k<unat (q_num vq). d_flags (desc_at hm (q_desc vq) k) = 0 \<and>
         apart (q_desc vq + of_nat (16 * k)) 16 (q_used vq) area \<and>
         apart (q_avail vq + 4 + of_nat (2 * k)) 2 (q_used vq) area) \<and>
      apart (q_avail vq + 2) 2 (q_used vq) area \<and>
      (\<forall>k<unat (q_num vq). case bufs ! k of (p, bs) \<Rightarrow>
         virtq_gpa_to_hva mem (d_addr (desc_at hm (q_desc vq) k)) (ucast (d_dlen (desc_at hm (q_desc vq) k))) = Some p \<and>
         unat (d_dlen (desc_at hm (q_desc vq) k)) = length bs \<and> length bs \<le> VIRTQ_MAX_RECORD \<and>
         ld_bytes hm p (length bs) = bs \<and> apart p (length bs) (q_used vq) area))"

lemma desc_at_bytes:
  assumes "ld_bytes hm' (t + of_nat (16 * k)) 16 = ld_bytes hm (t + of_nat (16 * k)) 16"
  shows "desc_at hm' t k = desc_at hm t k"
proof -
  have part: "ld_bytes h (t + of_nat (16 * k) + of_nat j) n = take n (drop j (ld_bytes h (t + of_nat (16 * k)) 16))"
    if "j + n \<le> 16" for h j n
  proof -
    have "take n (drop j (ld_bytes h (t + of_nat (16 * k)) 16)) = take n (ld_bytes h (t + of_nat (16 * k) + of_nat j) (16 - j))"
      using that by (subst ld_bytes_drop) simp_all
    also have "\<dots> = ld_bytes h (t + of_nat (16 * k) + of_nat j) n"
      using that by (subst ld_bytes_take [of n "16 - j"]) simp_all
    finally show ?thesis by simp
  qed
  from part [of 0 8] part [of 8 4] part [of 12 2] part [of 14 2] assms show ?thesis
    by (simp add: desc_at_def Let_def ld64_def ld32_def ld16_def sizeof_vring_desc_def)
qed

lemma plain_same:
  assumes "plain_ring vq mem hm bufs" and "same_outside vq hm hm'"
  shows "plain_ring vq mem hm' bufs"
proof -
  have d: "desc_at hm' (q_desc vq) k = desc_at hm (q_desc vq) k" if "k < unat (q_num vq)" for k
    using assms that by (intro desc_at_bytes apart_used [of _ _ vq]) (auto simp: plain_ring_def Let_def)
  have b: "ld_bytes hm' p (length bs) = ld_bytes hm p (length bs)" if "k < unat (q_num vq)" "bufs ! k = (p, bs)" for k p bs
    using assms that by (intro apart_used [of _ _ vq]) (auto simp: plain_ring_def Let_def)
  show ?thesis using assms(1) d b by (fastforce simp: plain_ring_def Let_def)
qed

lemma plain_record:
  assumes r: "plain_ring vq mem hm bufs"
  shows "queue_record vq mem hm head = (if unat head < unat (q_num vq) then snd (bufs ! unat head) else [])"
proof -
  obtain n where n: "unat (q_num vq) = Suc n" using r by (cases "unat (q_num vq)") (auto simp: plain_ring_def Let_def)
  show ?thesis
  proof (cases "unat head < Suc n")
    case True
    obtain p bs where pb: "bufs ! unat head = (p, bs)" by (cases "bufs ! unat head")
    have "d_flags (desc_at hm (q_desc vq) (unat head)) = 0" using r True n by (auto simp: plain_ring_def Let_def)
    then have "chain_of mem hm (q_desc vq) (Suc n) (Suc n) head = [desc_at hm (q_desc vq) (unat head)]"
      using True by (simp add: has_flag_def Let_def)
    moreover have "desc_data hm mem (desc_at hm (q_desc vq) (unat head)) = bs" "length bs \<le> VIRTQ_MAX_RECORD"
      using r True n pb by (auto simp: plain_ring_def Let_def desc_data_def has_flag_def)
    ultimately show ?thesis using True n pb by (simp add: queue_record_def chain_record_def)
  next
    case False
    then show ?thesis using n by (simp add: queue_record_def chain_record_def)
  qed
qed

lemma plain_undisturbed:
  assumes r: "plain_ring vq mem hm bufs"
  shows "undisturbed vq mem hm"
  unfolding undisturbed_def
proof (intro allI impI conjI)
  fix hm' assume so: "same_outside vq hm hm'"
  note r' = plain_same [OF r so]
  show "nest_ok mem hm' (q_desc vq) (unat (q_num vq))"
    using r' by (auto simp: nest_ok_def plain_ring_def Let_def has_flag_def)
  show "queue_record vq mem hm' head = queue_record vq mem hm head" for head
    using plain_record [OF r'] plain_record [OF r] by simp
  show "avail_ring hm' (q_avail vq) k = avail_ring hm (q_avail vq) k" if "k < unat (q_num vq)" for k
    using r that apart_used [OF _ so] by (auto simp: plain_ring_def Let_def avail_ring_def ld16_def)
qed

lemma plain_index:
  "plain_ring vq mem hm bufs \<Longrightarrow> same_outside vq hm hm' \<Longrightarrow> avail_idx hm' (q_avail vq) = avail_idx hm (q_avail vq)"
  using apart_used [of "q_avail vq + 2" 2 vq hm hm'] by (simp add: plain_ring_def Let_def avail_idx_def ld16_def)

end
