(* ===== verification/Backend_Run.thy ===== *)
theory Backend_Run
  imports Backend_Kicks Guest_Init
begin

text \<open>
  A whole run of \<^verbatim>\<open>backend.c\<close> between a frontend that sets both queues up and the driver of a guest:
  the frontend's messages bring the backend into the state that \<open>Backend_Kicks\<close> starts from, every
  kick logs what the driver announced, and when the frontend hangs up the file holds all of it.
\<close>

section \<open>The frontend\<close>

definition setup_msgs :: "ring_conf \<Rightarrow> ring_conf \<Rightarrow> in_msg \<Rightarrow> in_msg \<Rightarrow> in_msg list \<Rightarrow> in_msg list \<Rightarrow> bool" where
  "setup_msgs c0 c1 mf mt ms0 ms1 =
     (asks 2 mf \<and> asks 5 mt \<and> ring_msgs 0 c0 ms0 \<and> ring_msgs 1 c1 ms1 \<and>
      pl_u64 (received mf) AND bit64 VIRTIO_F_VERSION_1 \<noteq> 0 \<and>
      pl_u64 (received mf) AND bit64 VIRTIO_RING_F_EVENT_IDX = 0 \<and>
      unat (pl_index (received mt)) \<le> VHOST_MEMORY_BASELINE_NREGIONS)"

text \<open>The regions of the memory table \<open>t\<close>, mapped at \<open>as\<close>.\<close>

definition table_regions :: "vmsg \<Rightarrow> u64 list \<Rightarrow> vu_region list" where
  "table_regions t as = map2 (mapped_region t) [0..<unat (pl_index t)] as"

text \<open>The rings lie in the table, and the two descriptors are there.\<close>

definition ring_usable :: "vu_region list \<Rightarrow> ring_conf \<Rightarrow> bool" where
  "ring_usable rs c =
     (qva_to_va_from rs (va_desc (rc_addr c)) \<noteq> 0 \<and> qva_to_va_from rs (va_used (rc_addr c)) \<noteq> 0 \<and>
      qva_to_va_from rs (va_avail (rc_addr c)) \<noteq> 0 \<and> rc_call c \<noteq> - 1 \<and> 0 \<le> rc_kick c)"

text \<open>The memory and the queue that the student's handler gets to see.\<close>

definition region_mem :: "vu_region list \<Rightarrow> virtq_mem" where
  "region_mem rs = map (\<lambda>r. \<lparr>r_gpa = g_gpa r, r_size = g_size r, r_hva = g_maddr r + g_moff r\<rparr>) rs"

definition conf_queue :: "vu_region list \<Rightarrow> ring_conf \<Rightarrow> virtq" where
  "conf_queue rs c =
     \<lparr>q_desc = qva_to_va_from rs (va_desc (rc_addr c)), q_avail = qva_to_va_from rs (va_avail (rc_addr c)),
      q_used = qva_to_va_from rs (va_used (rc_addr c)), q_num = ucast (rc_num c), q_last_avail = rc_base c\<rparr>"

section \<open>The setup\<close>

definition fresh :: "vst \<Rightarrow> bool" where
  "fresh s = (d_vq s = [vq_init, vq_init] \<and> d_max_queues s = 2 \<and> d_nregions s = 0 \<and> \<not> d_postcopy_listening s \<and>
     d_protocol_features s = 0 \<and> length (d_regions s) = VHOST_USER_MAX_RAM_SLOTS \<and> watches s = [] \<and> bases (w_trace s) = [])"

lemma setup_serves:
  assumes f: "fresh s" and m: "setup_msgs c0 c1 mf mt ms0 ms1" and recv: "w_recv s = mf # mt # ms0 @ ms1 @ rest"
    and rs: "rs = table_regions (received mt) as" and as: "w_mmap s = as @ maps" "length as = unat (pl_index (received mt))"
      "MAP_FAILED \<notin> set as"
    and use: "ring_usable rs c0" "ring_usable rs c1" and num: "ucast (rc_num c1) \<noteq> (0 :: u16)" "unat (ucast (rc_num c1) :: u16) dvd 65536"
    and ok: "answers (Suc (Suc n)) s"
  shows "\<exists>s'. exchanges 12 s s' \<and> serving (rc_kick c1) (conf_queue rs c1) (region_mem rs) s' \<and> w_mem s' = w_mem s \<and>
    g_sink s' = g_sink s \<and> w_recv s' = rest \<and> w_send s' = w_send s \<and> vq_last_avail (d_vq s' ! 0) = rc_base c0 \<and> answers n s'"
proof -
  note mm = m [unfolded setup_msgs_def] and ff = f [unfolded fresh_def]
  obtain bs where bs: "w_ok s = True # True # bs" "n \<le> length bs" "False \<notin> set bs"
    using ok unfolding answers_def by (cases "w_ok s"; cases "tl (w_ok s)") auto
  let ?k = "unat (pl_index (received mt))" and ?f = "pl_u64 (received mf)"
  have k: "length rs = ?k" using as rs by (simp add: table_regions_def)
  let ?sa = "s\<lparr>w_recv := mt # ms0 @ ms1 @ rest\<rparr>"
  obtain qs where qs: "vu_set_features_exec (iface gs) (received mf) ?sa =
      Ret (False, received mf) (?sa\<lparr>d_features := ?f, g_features := ?f, d_vq := qs\<rparr>)" "enabled_only ?sa qs" for gs
    using set_features_ok [of "received mf" ?sa] mm ff by auto
  define s1 where "s1 = ?sa\<lparr>d_features := ?f, g_features := ?f, d_vq := qs\<rparr>"
  obtain e0 e1 where q1: "d_vq s1 = [vq_init\<lparr>vq_enable := e0\<rparr>, vq_init\<lparr>vq_enable := e1\<rparr>]"
  proof -
    have two: "length qs = 2" using qs(2) ff by (simp add: enabled_only_def)
    then obtain x y where xy: "qs = [x, y]" by (auto simp: length_Suc_conv eval_nat_numeral)
    have "\<exists>e. qs ! 0 = vq_init\<lparr>vq_enable := e\<rparr>" "\<exists>e. qs ! 1 = vq_init\<lparr>vq_enable := e\<rparr>"
      using qs(2) ff two unfolding enabled_only_def by force+
    then show thesis using that xy by (auto simp: s1_def)
  qed
  have handlers: "request_handler (iface gs) 2 = Some (vu_set_features_exec (iface gs))"
    "request_handler (iface gs) 5 = Some vu_set_mem_table_exec" for gs
    by (simp_all add: handler_table)
  have t1: "exchanges 1 s s1"
    using mm recv qs(1) by (intro exchanges_one dispatch_asks [OF _ _ handlers(1)]) (simp_all add: s1_def)
  let ?sb = "s1\<lparr>w_recv := ms0 @ ms1 @ rest\<rparr>"
  have "\<exists>es. vu_set_mem_table_exec (received mt) ?sb = Ret (False, received mt) (?sb\<lparr>d_nregions := pl_index (received mt),
      d_regions := rs @ drop ?k (d_regions ?sb), w_mmap := maps, w_trace := w_trace ?sb @ es\<rparr>) \<and> quiet es"
    unfolding rs table_regions_def using ff mm as q1
    by (intro set_mem_table_ok) (auto simp: s1_def vq_init_def VHOST_MEMORY_BASELINE_NREGIONS_def VHOST_USER_MAX_RAM_SLOTS_def)
  then obtain es where es: "vu_set_mem_table_exec (received mt) ?sb = Ret (False, received mt) (?sb\<lparr>d_nregions := pl_index (received mt),
      d_regions := rs @ drop ?k (d_regions ?sb), w_mmap := maps, w_trace := w_trace ?sb @ es\<rparr>)" "quiet es" by blast
  define s2 where "s2 = ?sb\<lparr>d_nregions := pl_index (received mt), d_regions := rs @ drop ?k (d_regions ?sb),
      w_mmap := maps, w_trace := w_trace ?sb @ es\<rparr>"
  have t2: "exchanges 1 s1 s2"
    using mm es(1) by (intro exchanges_one dispatch_asks [OF _ _ handlers(2)]) (simp_all add: s1_def s2_def)
  have live2: "live_regions s2 = rs" using k by (simp add: s2_def live_regions_def)
  have f2: "d_vq s2 = [vq_init\<lparr>vq_enable := e0\<rparr>, vq_init\<lparr>vq_enable := e1\<rparr>]" "d_max_queues s2 = 2" "d_protocol_features s2 = 0"
    "w_recv s2 = ms0 @ ms1 @ rest" "w_ok s2 = True # True # bs" "w_mem s2 = w_mem s" "g_sink s2 = g_sink s" "g_features s2 = ?f"
    "watches s2 = []" "bases (w_trace s2) = []" "w_send s2 = w_send s"
    using q1 ff bs(1) es(2) by (simp_all add: s2_def s1_def watches_def quiet_watches quiet_bases)
  define s3 where "s3 = with_queue 0 (ring_set 0 c0 (live_regions s2) (w_mem s2)) s2\<lparr>w_recv := ms1 @ rest, w_ok := True # bs,
     w_trace := w_trace s2 @ Ev_write (rc_call c0) # (if 0 = (1 :: nat) then [Set_watch (rc_kick c0) 1, Set_watch (rc_kick c0) 1] else [])\<rparr>"
  have t3: "exchanges 5 s2 s3" unfolding s3_def
    using use(1) mm f2 by (intro queue_exchanges [of 0 c0 ms0]) (auto simp: live2 ring_usable_def vq_init_def)
  have f3: "d_vq s3 ! 1 = vq_init\<lparr>vq_enable := e1\<rparr>" "length (d_vq s3) = 2" "d_max_queues s3 = 2" "d_protocol_features s3 = 0"
    "w_recv s3 = ms1 @ rest" "w_ok s3 = True # bs" "w_mem s3 = w_mem s" "g_sink s3 = g_sink s" "g_features s3 = ?f"
    "watches s3 = []" "live_regions s3 = rs" "bases (w_trace s3) = []" "w_send s3 = w_send s" "vq_last_avail (d_vq s3 ! 0) = rc_base c0"
    using f2 live2 by (simp_all add: s3_def watches_def live_regions_def ring_set_def Let_def)
  define s4 where "s4 = with_queue 1 (ring_set 1 c1 (live_regions s3) (w_mem s3)) s3\<lparr>w_recv := rest, w_ok := bs,
     w_trace := w_trace s3 @ Ev_write (rc_call c1) # (if 1 = (1 :: nat) then [Set_watch (rc_kick c1) 1, Set_watch (rc_kick c1) 1] else [])\<rparr>"
  have t4: "exchanges 5 s3 s4" unfolding s4_def
    using use(2) mm f3 by (intro queue_exchanges [of 1 c1 ms1]) (auto simp: ring_usable_def vq_init_def)
  have "exchanges 12 s s4"
    using exchanges_add [OF exchanges_add [OF exchanges_add [OF t1 t2] t3] t4] by simp
  moreover have "serving (rc_kick c1) (conf_queue rs c1) (region_mem rs) s4"
  proof -
    have "length rs \<le> 32" using k mm by (simp add: VHOST_MEMORY_BASELINE_NREGIONS_def)
    moreover have "live_regions s4 = rs" using f3(11) by (simp add: s4_def live_regions_def)
    ultimately have mem: "build_mem s4 = region_mem rs"
      by (simp add: build_mem_def region_mem_def VHOST_USER_MAX_RAM_SLOTS_def)
    have w: "watches s4 = [(rc_kick c1, 1)]"
      using f3(10) by (simp add: s4_def watches_def set_watch_def MAXW_def)
    have q: "d_vq s4 ! 1 = ring_set 1 c1 rs (w_mem s) (vq_init\<lparr>vq_enable := e1\<rparr>)"
      using f3 by (simp add: s4_def)
    then have "queue_view (d_vq s4 ! 1) = conf_queue rs c1" "vq_handler (d_vq s4 ! 1) = Some 0"
      by (simp_all add: ring_set_def queue_view_def conf_queue_def Let_def)
    with mem w show ?thesis
      using use(2) num f3 mm by (simp add: serving_def ring_usable_def conf_queue_def) (simp add: s4_def)
  qed
  moreover have "w_mem s4 = w_mem s" "g_sink s4 = g_sink s" "w_recv s4 = rest" "w_send s4 = w_send s"
      "vq_last_avail (d_vq s4 ! 0) = rc_base c0" "answers n s4"
    using f3 bs(2,3) by (simp_all add: s4_def answers_def)
  ultimately show ?thesis by blast
qed


section \<open>The run\<close>

text \<open>Every call that \<^verbatim>\<open>main\<close> makes before its loop succeeds.\<close>

definition starts :: "backend_env \<Rightarrow> string list \<Rightarrow> bool" where
  "starts e argv = (3 \<le> length argv \<and> be_sink e = (True, True, True) \<and> be_bind e \<and> be_listen e \<and> 0 \<le> be_accept e \<and> be_calloc e)"

definition empty_sink :: vlog_sink where
  "empty_sink = \<lparr>sk_store = \<lparr>ls_buf = [], ls_disk = [], ls_lock = None\<rparr>, sk_seq = 0\<rparr>"

lemma main_starts:
  assumes "starts e argv"
  shows "\<exists>s1. fresh s1 \<and> w_recv s1 = w_recv s \<and> w_send s1 = w_send s \<and> w_mmap s1 = w_mmap s \<and> w_ok s1 = w_ok s \<and> w_mem s1 = w_mem s \<and> g_sink s1 = empty_sink \<and>
    (\<forall>s'. backend_loop (be_rounds e) s1 = Stop (Exited 0) s' \<longrightarrow> backend_main e argv s = Stop (Exited 0) s')"
proof -
  have two: "replicate 2 q = [q, q]" for q :: vu_virtq by (simp add: eval_nat_numeral)
  let ?s = "s\<lparr>g_sink := empty_sink, g_features := 0, w_trace := []\<rparr>"
  obtain s1 where i: "vu_init 2 (be_accept e) True True ?s = Ret True s1" and
    s1: "fresh s1" "w_recv s1 = w_recv s" "w_send s1 = w_send s" "w_mmap s1 = w_mmap s" "w_ok s1 = w_ok s" "w_mem s1 = w_mem s" "g_sink s1 = empty_sink"
    using assms two by (simp add: vu_init_def vu_defs starts_def fresh_def watches_def)
  have "vlog_sink_open True True True = Some empty_sink" by (simp add: vlog_sink_open_def logstore_open_def empty_sink_def)
  then have "backend_main e argv s = Stop (Exited 0) s'" if "backend_loop (be_rounds e) s1 = Stop (Exited 0) s'" for s'
    using assms i that by (simp add: backend_main_def starts_def vseq_def vbind_def vmod_def)
  with s1 show ?thesis by blast
qed

lemma fresh_greeted:
  "fresh s \<Longrightarrow> quiet es \<Longrightarrow> fresh (s\<lparr>w_recv := ms, w_send := bs, w_trace := w_trace s @ es\<rparr>)"
  by (simp add: fresh_def watches_def quiet_watches quiet_bases)

text \<open>The indices that GET_VRING_BASE gives back for the queries \<open>ms\<close>.\<close>

definition resume :: "u16 \<Rightarrow> u16 \<Rightarrow> in_msg list \<Rightarrow> (u32 \<times> u32) list" where
  "resume b0 b1 ms = map (\<lambda>m. let i = pl_index (received m) in (i, ucast (if i = 1 then b1 else b0))) ms"

text \<open>C3: A whole run of the vhost-user backend: a frontend asks for the features and the number of queues,
  sets up features, memory and both queues; a driver announces records turn by turn and kicks; the
  frontend stops queues with GET_VRING_BASE, or none, and hangs up.  The process ends with status 0,
  the log file holds exactly the lines the driver announced, in order and numbered from 0, and each
  GET_VRING_BASE is answered with the index at which the queue resumes: that of queue 1 has advanced by
  the number of records.\<close>

theorem backend_log_exact:
  assumes e: "starts e argv" "be_rounds e = asked @ rounds @ closing @ r # after" "length asked = length greet + 12" "\<forall>r\<in>set asked. asking r"
      "length closing = length byes" "\<forall>r\<in>set closing. asking r" "rd_poll r" "rd_cfd r"
    and g: "\<forall>m\<in>set greet. greets m" "\<forall>m\<in>set byes. gets_base m" "replies (length greet + length byes) s"
    and m: "setup_msgs c0 c1 mf mt ms0 ms1" "w_recv s = greet @ mf # mt # ms0 @ ms1 @ byes @ hang # later"
      "whole_msg hang" "m_request (received hang) = 0"
    and rs: "rs = table_regions (received mt) as" "w_mmap s = as @ maps" "length as = unat (pl_index (received mt))" "MAP_FAILED \<notin> set as"
    and c: "ring_usable rs c0" "ring_usable rs c1" "q_num (conf_queue rs c1) \<noteq> 0" "unat (q_num (conf_queue rs c1)) dvd 65536"
    and d: "driver (conf_queue rs c1) (region_mem rs) (rc_kick c1) H (rc_base c1) rounds recs"
      "same_outside (conf_queue rs c1) H (w_mem s)" "answers (2 + 2 * length rounds) s"
  shows "\<exists>s'. backend_main e argv s = Stop (Exited 0) s' \<and>
    ls_disk (sk_store (g_sink s')) = concat (map fmt_call (sink_calls 0 recs)) \<and>
    bases (w_trace s') = resume (rc_base c0) (rc_base c1 + of_nat (length recs)) byes"
proof -
  obtain s0 where f0: "fresh s0" and s0: "w_recv s0 = w_recv s" "w_send s0 = w_send s" "w_mmap s0 = w_mmap s" "w_ok s0 = w_ok s"
      "w_mem s0 = w_mem s" "g_sink s0 = empty_sink"
    and main: "\<And>s'. backend_loop (be_rounds e) s0 = Stop (Exited 0) s' \<Longrightarrow> backend_main e argv s = Stop (Exited 0) s'"
    using main_starts [OF e(1)] by metis
  have "replies (length greet + length byes) s0" using g(3) s0(2) by (simp add: replies_def)
  from greeting_exchanges [OF g(1) m(2) [folded s0(1)] this] obtain bs es where
    gr: "exchanges (length greet) s0 (s0\<lparr>w_recv := mf # mt # ms0 @ ms1 @ byes @ hang # later, w_send := bs, w_trace := w_trace s0 @ es\<rparr>)"
      "quiet es" "replies (length byes) (s0\<lparr>w_recv := mf # mt # ms0 @ ms1 @ byes @ hang # later, w_send := bs, w_trace := w_trace s0 @ es\<rparr>)" by auto
  define s1 where "s1 = s0\<lparr>w_recv := mf # mt # ms0 @ ms1 @ byes @ hang # later, w_send := bs, w_trace := w_trace s0 @ es\<rparr>"
  have f: "fresh s1" unfolding s1_def using f0 gr(2) by (rule fresh_greeted)
  have s1: "w_recv s1 = mf # mt # ms0 @ ms1 @ (byes @ hang # later)" "w_mmap s1 = as @ maps" "answers (Suc (Suc (2 * length rounds))) s1"
      "w_mem s1 = w_mem s" "g_sink s1 = empty_sink"
    using rs(2) d(3) s0 by (simp_all add: s1_def answers_def)
  have num: "ucast (rc_num c1) \<noteq> (0 :: u16)" "unat (ucast (rc_num c1) :: u16) dvd 65536" using c(3,4) by (simp_all add: conf_queue_def)
  from setup_serves [OF f m(1) s1(1) rs(1) s1(2) rs(3,4) c(1,2) num s1(3)] obtain s2 where
    s2: "exchanges 12 s1 s2" "serving (rc_kick c1) (conf_queue rs c1) (region_mem rs) s2" "w_mem s2 = w_mem s" "g_sink s2 = empty_sink"
      "w_recv s2 = byes @ hang # later" "w_send s2 = w_send s1" "vq_last_avail (d_vq s2 ! 0) = rc_base c0"
      "answers (2 * length rounds) s2" using s1(4,5) by auto
  have "(conf_queue rs c1)\<lparr>q_last_avail := rc_base c1\<rparr> = conf_queue rs c1" by (simp add: conf_queue_def)
  then obtain s3 where s3: "\<And>rest. backend_loop (rounds @ rest) s2 = backend_loop rest s3"
      "serving (rc_kick c1) ((conf_queue rs c1)\<lparr>q_last_avail := rc_base c1 + of_nat (length recs)\<rparr>) (region_mem rs) s3"
      "g_sink s3 = emits recs empty_sink" "w_recv s3 = byes @ hang # later" "w_send s3 = w_send s1" "d_vq s3 ! 0 = d_vq s2 ! 0"
    using driver_serves [OF d(1), of s2] d(2) s2 by auto
  have q1: "vq_last_avail (d_vq s3 ! 1) = rc_base c1 + of_nat (length recs)" and q: "length (d_vq s3) = 2" "d_max_queues s3 = 2" "bases (w_trace s3) = []"
    using s3(2) by (auto simp: serving_def queue_view_def Let_def conf_queue_def)
  have "replies (length byes) s3" using gr(3) s3(5) by (simp add: replies_def s1_def)
  from farewell_exchanges [OF g(2) s3(4) this q(1,2)] obtain s4 where
    s4: "exchanges (length byes) s3 s4" "w_recv s4 = hang # later" "g_sink s4 = g_sink s3"
      "bases (w_trace s4) = map (\<lambda>m. (pl_index (received m), ucast (vq_last_avail (d_vq s3 ! unat (pl_index (received m)))))) byes"
    using q(3) by auto
  have "(pl_index (received m), ucast (vq_last_avail (d_vq s3 ! unat (pl_index (received m)))) :: u32) =
      (let i = pl_index (received m) in (i, ucast (if i = 1 then rc_base c1 + of_nat (length recs) else rc_base c0)))"
    if "m \<in> set byes" for m
  proof -
    have "unat (pl_index (received m)) < 2" using g(2) that by (simp add: gets_base_def)
    then have "pl_index (received m) = 0 \<or> pl_index (received m) = 1" by (simp add: word_unat_eq_iff) linarith
    then show ?thesis using q1 s3(6) s2(7) by auto
  qed
  then have b: "bases (w_trace s4) = resume (rc_base c0) (rc_base c1 + of_nat (length recs)) byes" unfolding s4(4) resume_def by simp
  let ?s = "s4\<lparr>w_mem := rd_wait r (w_mem s4), w_recv := later\<rparr>"
  have "exchanges (length greet + 12) s0 s2" using exchanges_add [OF gr(1) [folded s1_def] s2(1)] .
  then have "backend_loop (be_rounds e) s0 = backend_loop (r # after) s4"
    unfolding e(2) using exchanges_loop [OF _ e(3,4)] exchanges_loop [OF s4(1) e(5,6)] s3(1) by simp
  also have "\<dots> = Stop (Exited 0) ?s" using e(7,8) s4(2) m(3,4) by (rule hangup_turn)
  finally have "backend_main e argv s = Stop (Exited 0) ?s" by (rule main)
  moreover have "ls_disk (sk_store (g_sink ?s)) = concat (map fmt_call (sink_calls 0 recs))"
    using s4(3) s3(3) by (simp add: emits_disk empty_sink_def)
  ultimately show ?thesis using b by auto
qed


section \<open>A virtual machine\<close>

text \<open>The run of a machine whose guest is \<^verbatim>\<open>init.c\<close>, in full: the ring and the buffers in its memory,
  the frontend's messages, and the turns of the backend.\<close>

definition vm_descs :: "byte list" where
  "vm_descs = concat (map (\<lambda>i. le_bytes 8 (0x9000 + 64 * i) @ le_bytes 4 (length (init_recs ! i)) @ le_bytes 4 0) [0..<4])"

definition vm_avail :: "byte list" where
  "vm_avail = le_bytes 2 0 @ le_bytes 2 4 @ le_bytes 2 0 @ le_bytes 2 1 @ le_bytes 2 2 @ le_bytes 2 3"

definition vm_bufs :: "byte list" where
  "vm_bufs = concat (map (\<lambda>r. r @ replicate (64 - length r) NUL) init_recs)"

definition vm_hm :: hmem where
  "vm_hm = st_bytes (st_bytes (st_bytes (\<lambda>_. NUL) 0x11000 vm_descs) 0x12000 vm_avail) 0x19000 vm_bufs"

definition vm_queue :: virtq where
  "vm_queue = \<lparr>q_desc = 0x11000, q_avail = 0x12000, q_used = 0x13000, q_num = 4, q_last_avail = 0\<rparr>"

definition vm_mem :: virtq_mem where
  "vm_mem = [\<lparr>r_gpa = 0, r_size = 0x10000, r_hva = 0x10000\<rparr>]"

lemma apart_nat:
  assumes "p + n \<le> q \<or> q + k \<le> p" and "p + n \<le> 2 ^ 64" and "q + k \<le> 2 ^ 64"
  shows "apart (of_nat p) n (of_nat q) k"
  using apart_offsets [where base = 0, OF assms] by simp

lemma apart_num:
  assumes "numeral x + off + n \<le> numeral y \<or> numeral y + k \<le> numeral x + off"
    and "numeral x + off + n \<le> 2 ^ 64" and "numeral y + k \<le> 2 ^ 64"
  shows "apart (numeral x + of_nat off) n (numeral y) k"
  using apart_nat [OF assms] by simp

lemma ld_st_part:
  assumes "off + n \<le> length bs" and "length bs \<le> 2 ^ 64"
  shows "ld_bytes (st_bytes m a bs) (a + of_nat off) n = take n (drop off bs)"
proof -
  have "take n (drop off bs) = take n (drop off (ld_bytes (st_bytes m a bs) a (length bs)))"
    using ld_st_same [OF refl assms(2), of m a] by simp
  also have "drop off (ld_bytes (st_bytes m a bs) a (length bs)) = ld_bytes (st_bytes m a bs) (a + of_nat off) (length bs - off)"
    using assms by (intro ld_bytes_drop [symmetric]) simp
  also have "take n \<dots> = ld_bytes (st_bytes m a bs) (a + of_nat off) n"
    using assms by (intro ld_bytes_take [symmetric]) simp
  finally show ?thesis by simp
qed

lemma vm_lengths: "length vm_descs = 64" "length vm_avail = 12" "length vm_bufs = 256"
  by (simp_all add: vm_descs_def vm_avail_def vm_bufs_def init_recs_def upt_rec)

lemma vm_loads:
  "off + n \<le> 256 \<Longrightarrow> ld_bytes vm_hm (0x19000 + of_nat off) n = take n (drop off vm_bufs)"
  "off + n \<le> 12 \<Longrightarrow> ld_bytes vm_hm (0x12000 + of_nat off) n = take n (drop off vm_avail)"
  "off + n \<le> 64 \<Longrightarrow> ld_bytes vm_hm (0x11000 + of_nat off) n = take n (drop off vm_descs)"
proof -
  show "ld_bytes vm_hm (0x19000 + of_nat off) n = take n (drop off vm_bufs)" if "off + n \<le> 256"
    using that unfolding vm_hm_def by (intro ld_st_part) (simp_all add: vm_lengths)
  show "ld_bytes vm_hm (0x12000 + of_nat off) n = take n (drop off vm_avail)" if "off + n \<le> 12"
  proof -
    have "ld_bytes vm_hm (0x12000 + of_nat off) n = ld_bytes (st_bytes (st_bytes (\<lambda>_. NUL) 0x11000 vm_descs) 0x12000 vm_avail) (0x12000 + of_nat off) n"
      unfolding vm_hm_def using that by (intro ld_st_apart apart_num) (simp_all add: vm_lengths)
    then show ?thesis using that by (simp add: ld_st_part vm_lengths)
  qed
  show "ld_bytes vm_hm (0x11000 + of_nat off) n = take n (drop off vm_descs)" if "off + n \<le> 64"
  proof -
    have "ld_bytes vm_hm (0x11000 + of_nat off) n = ld_bytes (st_bytes (st_bytes (\<lambda>_. NUL) 0x11000 vm_descs) 0x12000 vm_avail) (0x11000 + of_nat off) n"
      unfolding vm_hm_def using that by (intro ld_st_apart apart_num) (simp_all add: vm_lengths)
    also have "\<dots> = ld_bytes (st_bytes (\<lambda>_. NUL) 0x11000 vm_descs) (0x11000 + of_nat off) n"
      using that by (intro ld_st_apart apart_num) (simp_all add: vm_lengths)
    also have "\<dots> = take n (drop off vm_descs)" using that by (intro ld_st_part) (simp_all add: vm_lengths)
    finally show ?thesis .
  qed
qed


lemma below_4: "k < 4 \<longleftrightarrow> k = 0 \<or> k = 1 \<or> k = 2 \<or> k = (3 :: nat)"
  by auto

lemma vm_desc:
  assumes "k < 4"
  shows "desc_at vm_hm 0x11000 k =
     \<lparr>d_addr = of_nat (0x9000 + 64 * k), d_dlen = of_nat (length (init_recs ! k)), d_flags = 0, d_next = 0\<rparr>"
proof -
  have up: "[0..<4] = [0, 1, 2, 3 :: nat]" by (simp add: upt_rec)
  have "take 16 (drop (16 * k) vm_descs) = le_bytes 8 (0x9000 + 64 * k) @ le_bytes 4 (length (init_recs ! k)) @ le_bytes 4 0"
    using assms unfolding below_4 vm_descs_def up by auto
  then have e: "take n (drop (16 * k + j) vm_descs) = take n (drop j (le_bytes 8 (0x9000 + 64 * k) @ le_bytes 4 (length (init_recs ! k)) @ le_bytes 4 0))"
    if "j + n \<le> 16" for j n
    using that by (metis add.commute drop_drop drop_take le_add_diff_inverse take_take min.absorb1 add_le_imp_le_diff)
  have l: "ld_bytes vm_hm (0x11000 + of_nat (16 * k) + of_nat j) n =
      take n (drop j (le_bytes 8 (0x9000 + 64 * k) @ le_bytes 4 (length (init_recs ! k)) @ le_bytes 4 0))" if "j + n \<le> 16" for j n
    using vm_loads(3) [of "16 * k + j" n] e [OF that] assms that by (simp add: algebra_simps)
  have zero: "le_bytes 4 0 = [NUL, NUL, NUL, NUL]" by (simp add: le_bytes_4 char_of_def)
  have small: "length (init_recs ! k) < 256 ^ 4" "0x9000 + 64 * k < 256 ^ 8" using assms unfolding below_4 by (auto simp: init_recs_def)
  show ?thesis
    using l [of 0 8] l [of 8 4] l [of 12 2] l [of 14 2] small
    by (simp add: desc_at_def Let_def ld64_def ld32_def ld16_def sizeof_vring_desc_def cmem zero)
qed

definition vm_buffers :: "(u64 \<times> byte list) list" where
  "vm_buffers = map (\<lambda>k. (of_nat (0x19000 + 64 * k), init_recs ! k)) [0..<4]"

lemma vm_plain: "plain_ring vm_queue vm_mem vm_hm vm_buffers"
proof -
  have xl: "virtq_gpa_to_hva vm_mem (of_nat (0x9000 + 64 * k)) (ucast (of_nat (length (init_recs ! k)) :: u32)) = Some (of_nat (0x19000 + 64 * k))"
    if "k < 4" for k
    using that unfolding below_4 by (auto simp: virtq_gpa_to_hva_def vm_mem_def init_recs_def)
  have part: "take (length (init_recs ! k)) (drop (64 * k) vm_bufs) = init_recs ! k" "length (init_recs ! k) \<le> 64" if "k < 4" for k
    using that unfolding below_4 vm_bufs_def by (auto simp: init_recs_def)
  have at: "(of_nat (0x19000 + 64 * k) :: u64) = 0x19000 + of_nat (64 * k)" for k by simp
  have b: "ld_bytes vm_hm (of_nat (0x19000 + 64 * k)) (length (init_recs ! k)) = init_recs ! k" if "k < 4" for k
  proof -
    have "64 * k + length (init_recs ! k) \<le> 256" using part(2) [OF that] that by linarith
    then show ?thesis unfolding at using vm_loads(1) part(1) [OF that] by metis
  qed
  have ap: "apart (of_nat (0x19000 + 64 * k)) (length (init_recs ! k)) 0x13000 36" if "k < 4" for k
    unfolding at using part(2) [OF that] that by (intro apart_num) auto
  have table: "apart (0x11000 + of_nat (16 * k)) 16 0x13000 36" if "k < 4" for k
    using that by (intro apart_num) auto
  have "apart (0x12000 + of_nat (4 + 2 * k)) 2 0x13000 36" if "k < 4" for k
    using that by (intro apart_num) auto
  then have rings: "apart (0x12000 + 4 + of_nat (2 * k)) 2 0x13000 36" if "k < 4" for k
    using that by (simp add: add.assoc)
  have few: "unat (of_nat (length (init_recs ! k)) :: u32) = length (init_recs ! k)" "length (init_recs ! k) \<le> 4096" if "k < 4" for k
    using part(2) [OF that] by simp_all
  have "apart (0x12000 + of_nat 2) 2 0x13000 36" by (intro apart_num) auto
  then show ?thesis
    using vm_desc xl b few ap table rings
    by (simp add: plain_ring_def vm_queue_def vm_buffers_def Let_def VIRTQ_MAX_RECORD_def)
qed


lemma vm_announces: "announces vm_queue vm_mem vm_hm 0 init_recs"
proof -
  have num: "unat (q_num vm_queue) = 4" "length init_recs = 4" by (simp_all add: vm_queue_def init_recs_def)
  have idx: "avail_idx vm_hm (q_avail vm_queue) = 4"
    using vm_loads(2) [of 2 2] by (simp add: vm_queue_def avail_idx_def ld16_def vm_avail_def le_bytes_2 cmem)
  have ring: "avail_ring vm_hm 0x12000 k = of_nat k" if "k < 4" for k
    using that vm_loads(2) [of "4 + 2 * k" 2] unfolding below_4
    by (auto simp: avail_ring_def ld16_def vm_avail_def le_bytes_2 cmem)
  have "heads vm_queue vm_hm 0 4 = [0, 1, 2, 3]"
    by (simp add: eval_nat_numeral(2,3) ring) (simp add: vm_queue_def ring)
  then have "map (queue_record vm_queue vm_mem vm_hm) (heads vm_queue vm_hm 0 (length init_recs)) = init_recs"
    by (simp add: num plain_record [OF vm_plain]) (simp add: vm_buffers_def upt_rec init_recs_def)
  with plain_undisturbed [OF vm_plain] plain_index [OF vm_plain] idx num show ?thesis
    by (simp add: announces_def)
qed

lemma le_bytes_empty [simp]: "le_bytes k n = [] \<longleftrightarrow> k = 0"
  by (cases k) simp_all

text \<open>Messages of a frontend, with the version bit set and no reply wanted.\<close>

definition mk_msg :: "nat \<Rightarrow> int list \<Rightarrow> byte list \<Rightarrow> in_msg" where
  "mk_msg req fds body =
     \<lparr>in_rc = 12, in_hdr = le_bytes 4 req @ le_bytes 4 1 @ le_bytes 4 (length body),
      in_fds = (if fds = [] then None else Some fds), in_rc2 = int (length body), in_body = body\<rparr>"

lemma mk_received:
  assumes "req < 2 ^ 32" and "body \<noteq> []" and "length body \<le> sizeof_payload"
  shows "received (mk_msg req fds body) =
     \<lparr>m_request = of_nat req, m_flags = 1, m_size = of_nat (length body),
      m_payload = body @ replicate (sizeof_payload - length body) NUL,
      m_fds = fds @ replicate (8 - length fds) 0, m_fd_num = int (length fds), m_data = None\<rparr>"
proof -
  have "(of_nat (length body) :: u32) \<noteq> 0"
    using assms(2,3) by (simp add: sizeof_payload_def word_unat_eq_iff unsigned_of_nat take_bit_nat_eq_self)
  with assms show ?thesis
    by (simp add: received_def mk_msg_def Let_def overlay_def hdr_bytes_def set_hdr_def msg_zero_def sizeof_payload_def cmem)
qed

lemma mk_get:
  assumes "req < 2 ^ 32" and "body \<noteq> []" and "length body \<le> sizeof_payload" and "off + n \<le> length body"
  shows "pl_get off n (received (mk_msg req fds body)) = le_val (take n (drop off body))"
  using assms by (simp add: mk_received pl_get_def)

lemma mk_asks:
  assumes "req < 2 ^ 32" and "body \<noteq> []" and "length body \<le> sizeof_payload" and "length fds \<le> 1"
  shows "asks r (mk_msg req fds body) \<longleftrightarrow> r = req"
proof -
  have r: "unat (of_nat req :: u32) = req" using assms(1) by (simp add: unsigned_of_nat take_bit_nat_eq_self)
  have l: "unat (of_nat (length body) :: u32) = length body"
    using assms(3) by (simp add: sizeof_payload_def unsigned_of_nat take_bit_nat_eq_self)
  have "whole_msg (mk_msg req fds body)"
    using assms l by (simp add: whole_msg_def mk_received) (simp add: mk_msg_def word_le_nat_alt sizeof_payload_def)
  then show ?thesis using assms r by (auto simp: asks_def mk_received VHOST_USER_NEED_REPLY_MASK_def)
qed

definition vm_ring :: "nat \<Rightarrow> nat \<Rightarrow> ring_conf" where
  "vm_ring i base =
     \<lparr>rc_num = 4, rc_base = 0, rc_addr = \<lparr>va_index = of_nat i, va_flags = 0, va_desc = of_nat base,
        va_used = of_nat (base + 0x2000), va_avail = of_nat (base + 0x1000), va_log = 0\<rparr>,
      rc_call = 30 + int i, rc_kick = 40 + int i\<rparr>"

definition ring_frontend :: "nat \<Rightarrow> nat \<Rightarrow> in_msg list" where
  "ring_frontend i base =
     [mk_msg 8 [] (le_bytes 4 i @ le_bytes 4 4), mk_msg 10 [] (le_bytes 4 i @ le_bytes 4 0),
      mk_msg 9 [] (le_bytes 4 i @ le_bytes 4 0 @ le_bytes 8 base @ le_bytes 8 (base + 0x2000) @
        le_bytes 8 (base + 0x1000) @ le_bytes 8 0),
      mk_msg 13 [30 + int i] (le_bytes 8 i), mk_msg 12 [40 + int i] (le_bytes 8 i)]"

lemma ring_frontend_msgs:
  assumes "i < 2" and "base + 0x3000 \<le> 2 ^ 63"
  shows "ring_msgs i (vm_ring i base) (ring_frontend i base)"
proof -
  have i: "i = 0 \<or> i = 1" using assms(1) by auto
  have descr: "file_msg i fd (received (mk_msg req [fd] (le_bytes 8 i)))" if "req < 2 ^ 32" for req fd
    using that i by (auto simp: file_msg_def mk_received sizeof_payload_def msg_queue_def msg_nofd_def pl_u64_def pl_get_def cmem
        VHOST_USER_VRING_IDX_MASK_def VHOST_USER_VRING_NOFD_MASK_def)
  show ?thesis
    unfolding ring_msgs_def ring_frontend_def vm_ring_def using i assms(2) descr [of 13 "30 + int i"] descr [of 12 "40 + int i"]
    by (auto simp: pl_index_def pl_num_def pl_addr_def mk_get mk_asks sizeof_payload_def cmem)
qed


definition vm_table :: in_msg where
  "vm_table = mk_msg 5 [20] (le_bytes 4 1 @ le_bytes 4 0 @ le_bytes 8 0 @ le_bytes 8 0x10000 @ le_bytes 8 0x100000 @ le_bytes 8 0)"

definition vm_regions :: "vu_region list" where
  "vm_regions = [\<lparr>g_gpa = 0, g_size = 0x10000, g_qva = 0x100000, g_moff = 0, g_maddr = 0x10000\<rparr>]"

definition vm_hangup :: in_msg where
  "vm_hangup = \<lparr>in_rc = 0, in_hdr = [], in_fds = None, in_rc2 = 0, in_body = []\<rparr>"

definition vm_round :: "bool \<Rightarrow> round" where
  "vm_round cfd = \<lparr>rd_poll = True, rd_cfd = cfd, rd_ready = (\<lambda>fd. \<not> cfd \<and> fd = 41), rd_wait = (\<lambda>hm. hm),
     rd_step = (\<lambda>_ hm. hm), rd_guest = []\<rparr>"

text \<open>Features, owner, number of queues.\<close>

definition vm_greet :: "in_msg list" where
  "vm_greet = [mk_msg 1 [] (le_bytes 8 0), mk_msg 3 [] (le_bytes 8 0), mk_msg 17 [] (le_bytes 8 0)]"

text \<open>It stops both queues before it hangs up.\<close>

definition vm_byes :: "in_msg list" where
  "vm_byes = [mk_msg 11 [] (le_bytes 4 0 @ le_bytes 4 0), mk_msg 11 [] (le_bytes 4 1 @ le_bytes 4 0)]"

definition vm_env :: backend_env where
  "vm_env = \<lparr>be_sink = (True, True, True), be_bind = True, be_listen = True, be_accept = 5, be_calloc = True,
     be_rounds = replicate 15 (vm_round True) @ [vm_round False, vm_round True, vm_round True, vm_round True]\<rparr>"

definition vm_world :: vst where
  "vm_world = (demo_dev [] (vm_greet @ mk_msg 2 [] (le_bytes 8 (2 ^ 32)) # vm_table # ring_frontend 0 0x104000 @ ring_frontend 1 0x101000 @ vm_byes @ [vm_hangup]))
     \<lparr>w_mem := vm_hm, w_mmap := [0x10000], w_ok := replicate 6 True, w_send := replicate 5 True\<rparr>"

lemma vm_setup: "setup_msgs (vm_ring 0 0x104000) (vm_ring 1 0x101000) (mk_msg 2 [] (le_bytes 8 (2 ^ 32))) vm_table
    (ring_frontend 0 0x104000) (ring_frontend 1 0x101000)"
  by (simp add: setup_msgs_def ring_frontend_msgs mk_asks mk_get vm_table_def sizeof_payload_def pl_u64_def pl_index_def cmem
      bit64_def VIRTIO_F_VERSION_1_def VIRTIO_RING_F_EVENT_IDX_def VHOST_MEMORY_BASELINE_NREGIONS_def)

lemma vm_table_regions: "table_regions (received vm_table) [0x10000] = vm_regions" "unat (pl_index (received vm_table)) = 1"
  by (simp_all add: table_regions_def vm_regions_def vm_table_def mapped_region_def pl_region_def pl_index_def mk_get sizeof_payload_def cmem)

lemma vm_conf: "conf_queue vm_regions (vm_ring 1 0x101000) = vm_queue" "region_mem vm_regions = vm_mem"
    "ring_usable vm_regions (vm_ring 0 0x104000)" "ring_usable vm_regions (vm_ring 1 0x101000)"
  by (simp_all add: conf_queue_def vm_regions_def vm_ring_def vm_queue_def region_mem_def vm_mem_def ring_usable_def)

lemma vm_hangs_up: "whole_msg vm_hangup" "m_request (received vm_hangup) = 0"
  by (simp_all add: whole_msg_def vm_hangup_def received_def Let_def overlay_def hdr_bytes_def set_hdr_def msg_zero_def cmem)

lemma vm_driver: "driver vm_queue vm_mem 41 vm_hm 0 [vm_round False] (written (fst (init_main 3)) @ [])"
  unfolding init_written [OF zero_le_numeral]
proof (rule driver.kicks)
  show "announces vm_queue vm_mem vm_hm 0 init_recs" by (rule vm_announces)
qed (simp_all add: vm_round_def driver.rests)

lemma vm_calls: "sink_calls 0 init_recs =
    [(0, 1, ''function runner started''), (1, 0, ''processing request 1''), (2, 2, ''cache miss''), (3, 3, ''request 1 failed'')]"
  by (simp add: init_recs_def sink_line_def is_digit_def digit_val_def)

lemma vm_lines: "concat (map fmt_call (sink_calls 0 init_recs)) = ''[0] INFO function runner started'' @ NL # ''[1] DEBUG processing request 1'' @ NL #
      ''[2] WARN cache miss'' @ NL # ''[3] ERROR request 1 failed'' @ [NL]"
  by (simp add: vm_calls fmt_record_def head_text_def level_name_def dec.simps digit_def)

lemma vm_resumes: "resume 0 4 vm_byes = [(0, 0), (1, 4)]"
  by (simp add: resume_def vm_byes_def pl_index_def mk_get sizeof_payload_def Let_def cmem)

theorem backend_log_exact_witness:
  "\<exists>s'. backend_main vm_env [''backend'', ''sock'', ''log''] vm_world = Stop (Exited 0) s' \<and>
    ls_disk (sk_store (g_sink s')) = ''[0] INFO function runner started'' @ NL # ''[1] DEBUG processing request 1'' @ NL #
      ''[2] WARN cache miss'' @ NL # ''[3] ERROR request 1 failed'' @ [NL] \<and>
    bases (w_trace s') = [(0, 0), (1, 4)]"
proof -
  have drv: "driver (conf_queue vm_regions (vm_ring 1 0x101000)) (region_mem vm_regions) (rc_kick (vm_ring 1 0x101000)) vm_hm
      (rc_base (vm_ring 1 0x101000)) [vm_round False] (written (fst (init_main 3)))"
    using vm_driver unfolding vm_conf by (simp add: vm_ring_def)
  have turns: "starts vm_env [''backend'', ''sock'', ''log'']"
      "be_rounds vm_env = replicate 15 (vm_round True) @ [vm_round False] @ [vm_round True, vm_round True] @ vm_round True # []"
      "length (replicate 15 (vm_round True)) = length vm_greet + 12" "\<forall>r\<in>set (replicate 15 (vm_round True)). asking r"
      "length [vm_round True, vm_round True] = length vm_byes" "\<forall>r\<in>set [vm_round True, vm_round True]. asking r"
      "rd_poll (vm_round True)" "rd_cfd (vm_round True)"
    by (simp_all add: starts_def vm_env_def asking_def vm_round_def vm_greet_def vm_byes_def)
  have msgs: "\<forall>m\<in>set vm_greet. greets m" "\<forall>m\<in>set vm_byes. gets_base m" "replies (length vm_greet + length vm_byes) vm_world"
    by (simp_all add: vm_greet_def vm_byes_def greets_def gets_base_def mk_asks mk_get pl_index_def sizeof_payload_def replies_def
        vm_world_def cmem)
  have recv: "w_recv vm_world = vm_greet @ mk_msg 2 [] (le_bytes 8 (2 ^ 32)) # vm_table # ring_frontend 0 0x104000 @
      ring_frontend 1 0x101000 @ vm_byes @ vm_hangup # []"
    by (simp add: vm_world_def demo_dev_def)
  have maps: "vm_regions = table_regions (received vm_table) [0x10000]" "w_mmap vm_world = [0x10000] @ []"
      "length [0x10000 :: u64] = unat (pl_index (received vm_table))" "MAP_FAILED \<notin> set [0x10000]"
    by (simp_all add: vm_table_regions vm_world_def MAP_FAILED_def)
  have num: "q_num (conf_queue vm_regions (vm_ring 1 0x101000)) \<noteq> 0" "unat (q_num (conf_queue vm_regions (vm_ring 1 0x101000))) dvd 65536"
    unfolding vm_conf by (simp_all add: vm_queue_def)
  have rest: "same_outside (conf_queue vm_regions (vm_ring 1 0x101000)) vm_hm (w_mem vm_world)"
      "answers (2 + 2 * length [vm_round False]) vm_world"
    by (simp_all add: same_outside_def answers_def vm_world_def)
  note run = backend_log_exact [OF turns msgs vm_setup recv vm_hangs_up maps vm_conf(3,4) num drv rest]
  have idx: "rc_base (vm_ring 0 0x104000) = 0" "rc_base (vm_ring 1 0x101000) + of_nat (length (written (fst (init_main 3)))) = 4"
    unfolding init_written [OF zero_le_numeral] by (simp_all add: vm_ring_def init_recs_def)
  from run show ?thesis unfolding idx vm_resumes unfolding init_written [OF zero_le_numeral] vm_lines .
qed

end
