(* ===== verification/Vu_Queue.thy ===== *)
theory Vu_Queue
  imports Vu_Handlers
begin

text \<open>
  The virtqueue operations of \<^verbatim>\<open>libvhost-user.c\<close> (\<^verbatim>\<open>vring_avail_flags\<close> to
  \<^verbatim>\<open>vu_queue_push\<close>).  A queue is named by its number.  Loops over guest data carry fuel that
  their bound makes sufficient; \<open>Stop Diverges\<close> would mean it was not.  A descriptor table is a
  function from indices to descriptors, in guest memory or in the local copy
  \<^verbatim>\<open>desc_buf\<close>, whose initial content is \<open>w_stack\<close>.
\<close>

section \<open>The avail ring\<close>

definition need_ptr :: "u64 \<Rightarrow> unit vu" where
  "need_ptr p = (if p = 0 then vstop (Undef NullDeref) else vret ())"

definition vring_avail_flags :: "nat \<Rightarrow> u16 vu" where
  "vring_avail_flags i = vbind (vq_get i) (\<lambda>q. vseq (need_ptr (vr_avail (vq_ring q)))
     (vget (\<lambda>s. avail_flags (w_mem s) (vr_avail (vq_ring q)))))"

definition vring_avail_idx :: "nat \<Rightarrow> u16 vu" where
  "vring_avail_idx i = vbind (vq_get i) (\<lambda>q. vseq (need_ptr (vr_avail (vq_ring q)))
     (vbind (vget (\<lambda>s. avail_idx (w_mem s) (vr_avail (vq_ring q)))) (\<lambda>x.
       vseq (vq_upd i (\<lambda>q. q\<lparr>vq_shadow_avail := x\<rparr>)) (vret x))))"

definition vring_avail_ring :: "nat \<Rightarrow> nat \<Rightarrow> u16 vu" where
  "vring_avail_ring i k = vbind (vq_get i) (\<lambda>q. vseq (need_ptr (vr_avail (vq_ring q)))
     (vget (\<lambda>s. avail_ring (w_mem s) (vr_avail (vq_ring q)) k)))"

definition vring_get_used_event :: "nat \<Rightarrow> u16 vu" where
  "vring_get_used_event i = vbind (vq_get i) (\<lambda>q. vring_avail_ring i (unat (vr_num (vq_ring q))))"

text \<open>The number of new heads, \<open>None\<close> for \<open>-1\<close>.\<close>

definition virtqueue_num_heads :: "nat \<Rightarrow> u32 \<Rightarrow> nat option vu" where
  "virtqueue_num_heads i idx =
     vbind (vring_avail_idx i) (\<lambda>x. vbind (vq_get i) (\<lambda>q.
       let num_heads = (x - ucast idx :: u16) in
       if unat num_heads > unat (vr_num (vq_ring q)) then
         vseq (vu_panic ''Guest moved used index'') (vret None)
       else vret (Some (unat num_heads))))"

definition virtqueue_get_head :: "nat \<Rightarrow> u32 \<Rightarrow> nat option vu" where
  "virtqueue_get_head i idx =
     vbind (vq_get i) (\<lambda>q.
       let num = unat (vr_num (vq_ring q)) in
       if num = 0 then vstop (Undef DivByZero)
       else vbind (vring_avail_ring i (unat idx mod num)) (\<lambda>head.
         if unat head \<ge> num then vseq (vu_panic ''Guest says index is available'') (vret None)
         else vret (Some (unat head))))"

section \<open>Descriptor tables\<close>

type_synonym desc_table = "nat \<Rightarrow> vring_desc"

definition DESC_BUF_SIZE :: nat where "DESC_BUF_SIZE = VIRTQUEUE_MAX_SIZE * sizeof_vring_desc"

definition desc_of_buf :: "byte list \<Rightarrow> desc_table" where
  "desc_of_buf buf k =
     (let b = take 16 (drop (16 * k) buf) in
      \<lparr>d_addr = of_nat (le_val (take 8 b)), d_dlen = of_nat (le_val (take 4 (drop 8 b))),
        d_flags = of_nat (le_val (take 2 (drop 12 b))), d_next = of_nat (le_val (take 2 (drop 14 b)))\<rparr>)"

text \<open>The copy loop.  \<open>off\<close> is the byte offset of \<^verbatim>\<open>desc\<close>, which \<^verbatim>\<open>desc += read_len\<close> advances by
  \<^verbatim>\<open>read_len\<close> descriptors, not bytes.\<close>

fun copy_indirect :: "nat \<Rightarrow> nat \<Rightarrow> u64 \<Rightarrow> u64 \<Rightarrow> byte list \<Rightarrow> byte list option vu" where
  "copy_indirect 0 off addr len buf = vstop Diverges"
| "copy_indirect (Suc n) off addr len buf =
     (if len = 0 then vret (Some buf)
      else vbind (vu_gpa_to_va len addr) (\<lambda>(p, read_len).
        if p = 0 then vret None
        else if off + unat read_len > DESC_BUF_SIZE then vstop (Undef OutOfBounds)
        else vbind (vget w_mem) (\<lambda>hm.
          copy_indirect n (off + sizeof_vring_desc * unat read_len) (addr + read_len) (len - read_len)
            (take off buf @ ld_bytes hm p (unat read_len) @ drop (off + unat read_len) buf))))"

definition virtqueue_read_indirect_desc :: "byte list \<Rightarrow> u64 \<Rightarrow> u32 \<Rightarrow> byte list option vu" where
  "virtqueue_read_indirect_desc buf addr len =
     (if unat len > DESC_BUF_SIZE then vret None
      else if len = 0 then vret None
      else copy_indirect (unat len + 1) 0 addr (ucast len) buf)"

datatype next_desc = Desc_error | Desc_done | Desc_more nat

definition virtqueue_read_next_desc :: "desc_table \<Rightarrow> nat \<Rightarrow> nat \<Rightarrow> next_desc vu" where
  "virtqueue_read_next_desc desc i max_num =
     (if \<not> has_flag (desc i) VRING_DESC_F_NEXT then vret Desc_done
      else if unat (d_next (desc i)) \<ge> max_num then vseq (vu_panic ''Desc next'') (vret Desc_error)
      else vret (Desc_more (unat (d_next (desc i)))))"

text \<open>The start of the three functions that walk a chain: the table of an indirect head, its size
  and the first index, or the head's own table; \<open>None\<close> after a panic.\<close>

definition indirect_table :: "vring_desc \<Rightarrow> (desc_table \<times> nat) option vu" where
  "indirect_table d =
     (if d_dlen d mod of_nat sizeof_vring_desc \<noteq> 0 then
        vseq (vu_panic ''Invalid size for indirect buffer table'') (vret None)
      else
        vbind (vu_gpa_to_va (ucast (d_dlen d)) (d_addr d)) (\<lambda>(p, read_len).
        vbind (if p \<noteq> 0 \<and> read_len \<noteq> ucast (d_dlen d) then
                 vbind (vget w_stack) (\<lambda>junk. vbind (virtqueue_read_indirect_desc junk (d_addr d) (d_dlen d)) (\<lambda>r.
                   vret (map_option desc_of_buf r)))
               else if p = 0 then vret None
               else vbind (vget w_mem) (\<lambda>hm. vret (Some (desc_at hm p)))) (\<lambda>t.
        case t of
          None \<Rightarrow> vseq (vu_panic ''Invalid indirect buffer table'') (vret None)
        | Some table \<Rightarrow> vret (Some (table, unat (d_dlen d) div sizeof_vring_desc)))))"

section \<open>Available bytes\<close>

datatype count_end = Count_done u32 u32 | Count_err | Count_chain nat u32 u32

fun count_chain :: "nat \<Rightarrow> desc_table \<Rightarrow> nat \<Rightarrow> u32 \<Rightarrow> u32 \<Rightarrow> nat \<Rightarrow> u32 \<Rightarrow> u32 \<Rightarrow> nat \<Rightarrow> count_end vu" where
  "count_chain 0 desc max_num max_in max_out num_bufs in_t out_t i = vstop Diverges"
| "count_chain (Suc n) desc max_num max_in max_out num_bufs in_t out_t i =
     (if num_bufs + 1 > max_num then vseq (vu_panic ''Looped descriptor'') (vret Count_err)
      else
        let w = has_flag (desc i) VRING_DESC_F_WRITE;
            in1 = (if w then in_t + d_dlen (desc i) else in_t);
            out1 = (if w then out_t else out_t + d_dlen (desc i)) in
        if in1 \<ge> max_in \<and> out1 \<ge> max_out then vret (Count_done in1 out1)
        else vbind (virtqueue_read_next_desc desc i max_num) (\<lambda>r.
          case r of
            Desc_error \<Rightarrow> vret Count_err
          | Desc_done \<Rightarrow> vret (Count_chain (num_bufs + 1) in1 out1)
          | Desc_more k \<Rightarrow> count_chain n desc max_num max_in max_out (num_bufs + 1) in1 out1 k))"

fun avail_bytes_loop :: "nat \<Rightarrow> nat \<Rightarrow> u32 \<Rightarrow> u32 \<Rightarrow> u32 \<Rightarrow> nat \<Rightarrow> u32 \<Rightarrow> u32 \<Rightarrow> (u32 \<times> u32) vu" where
  "avail_bytes_loop 0 q idx max_in max_out total_bufs in_t out_t = vstop Diverges"
| "avail_bytes_loop (Suc n) q idx max_in max_out total_bufs in_t out_t =
     vbind (virtqueue_num_heads q idx) (\<lambda>r.
       case r of
         None \<Rightarrow> vret (0, 0)
       | Some heads \<Rightarrow>
         if heads = 0 then vret (in_t, out_t)
         else vbind (virtqueue_get_head q idx) (\<lambda>h.
           case h of
             None \<Rightarrow> vret (0, 0)
           | Some i \<Rightarrow>
             vbind (vq_get q) (\<lambda>vq. vbind (vget w_mem) (\<lambda>hm.
               let table = desc_at hm (vr_desc (vq_ring vq)); num = unat (vr_num (vq_ring vq));
                   go = (\<lambda>ind desc max_num bufs first.
                     vbind (count_chain (max_num + 2) desc max_num max_in max_out bufs in_t out_t first) (\<lambda>e.
                       case e of
                         Count_done a b \<Rightarrow> vret (a, b)
                       | Count_err \<Rightarrow> vret (0, 0)
                       | Count_chain bufs' a b \<Rightarrow>
                           avail_bytes_loop n q (idx + 1) max_in max_out (if ind then total_bufs + 1 else bufs') a b))
               in
               if has_flag (table i) VRING_DESC_F_INDIRECT then
                 (if d_dlen (table i) mod of_nat sizeof_vring_desc = 0 \<and> total_bufs \<ge> num then
                    vseq (vu_panic ''Looped descriptor'') (vret (0, 0))
                  else vbind (indirect_table (table i)) (\<lambda>t.
                    case t of
                      None \<Rightarrow> vret (0, 0)
                    | Some (desc, max_num) \<Rightarrow> go True desc max_num 0 0))
               else go False table num total_bufs i))))"

definition vu_queue_get_avail_bytes :: "nat \<Rightarrow> u32 \<Rightarrow> u32 \<Rightarrow> (u32 \<times> u32) vu" where
  "vu_queue_get_avail_bytes i max_in max_out =
     vbind (vq_get i) (\<lambda>q. vbind (vget d_broken) (\<lambda>broken.
       if broken \<or> vr_avail (vq_ring q) = 0 then vret (0, 0)
       else avail_bytes_loop 65537 i (ucast (vq_last_avail q)) max_in max_out 0 0 0))"

definition vu_queue_avail_bytes :: "nat \<Rightarrow> u32 \<Rightarrow> u32 \<Rightarrow> bool vu" where
  "vu_queue_avail_bytes i in_bytes out_bytes =
     vbind (vu_queue_get_avail_bytes i in_bytes out_bytes) (\<lambda>(a, b). vret (in_bytes \<le> a \<and> out_bytes \<le> b))"

section \<open>Notification\<close>

definition vu_queue_empty :: "nat \<Rightarrow> bool vu" where
  "vu_queue_empty i =
     vbind (vq_get i) (\<lambda>q. vbind (vget d_broken) (\<lambda>broken.
       if broken \<or> vr_avail (vq_ring q) = 0 then vret True
       else if vq_shadow_avail q \<noteq> vq_last_avail q then vret False
       else vbind (vring_avail_idx i) (\<lambda>x. vret (x = vq_last_avail q))))"

definition vring_notify :: "nat \<Rightarrow> bool vu" where
  "vring_notify i =
     vbind (vu_has_feature VIRTIO_F_NOTIFY_ON_EMPTY) (\<lambda>on_empty.
     vbind (vq_get i) (\<lambda>q.
     vbind (if on_empty \<and> vq_inuse q = 0 then vu_queue_empty i else vret False) (\<lambda>empty.
       if empty then vret True
       else vbind (vu_has_feature VIRTIO_RING_F_EVENT_IDX) (\<lambda>event_idx.
         if \<not> event_idx then
           vbind (vring_avail_flags i) (\<lambda>f. vret (f AND VRING_AVAIL_F_NO_INTERRUPT = 0))
         else
           vbind (vq_get i) (\<lambda>q.
           vseq (vq_upd i (\<lambda>q. q\<lparr>vq_signalled_valid := True, vq_signalled_used := vq_used_idx q\<rparr>))
           (if \<not> vq_signalled_valid q then vret True
            else vbind (vring_get_used_event i) (\<lambda>e.
              vret (vring_need_event e (vq_used_idx q) (vq_signalled_used q)))))))))"

definition queue_notify :: "nat \<Rightarrow> bool \<Rightarrow> unit vu" where
  "queue_notify i sync =
     vbind (vq_get i) (\<lambda>q. vbind (vget d_broken) (\<lambda>broken.
       if broken \<or> vr_avail (vq_ring q) = 0 then vret ()
       else vbind (vring_notify i) (\<lambda>yes.
         if \<not> yes then vret ()
         else
           vbind (vu_has_protocol_feature F_INBAND_NOTIFICATIONS) (\<lambda>inband.
           vbind (vu_has_protocol_feature F_BACKEND_REQ) (\<lambda>req.
           if vq_call_fd q < 0 \<and> inband \<and> req then
             vbind (vu_has_protocol_feature F_REPLY_ACK) (\<lambda>reply_ack.
               let ack = (sync \<and> reply_ack);
                   v = pl_put 0 4 i (msg_zero\<lparr>m_request := BACKEND_VRING_CALL, m_size := 8,
                     m_flags := (if ack then VHOST_USER_VERSION OR VHOST_USER_NEED_REPLY_MASK else VHOST_USER_VERSION)\<rparr>) in
               vbind (vget d_backend_fd) (\<lambda>bfd.
               vbind (vu_message_write bfd v) (\<lambda>_.
                 if ack then vbind (vu_message_read_default v) (\<lambda>_. vret ()) else vret ())))
           else
             vbind (sys_eventfd (vq_call_fd q)) (\<lambda>ok. vwhen (\<not> ok) (vu_panic ''Error writing eventfd'')))))))"

definition vu_queue_notify :: "nat \<Rightarrow> unit vu" where "vu_queue_notify i = queue_notify i False"
definition vu_queue_notify_sync :: "nat \<Rightarrow> unit vu" where "vu_queue_notify_sync i = queue_notify i True"

definition vu_config_change_msg :: "unit vu" where
  "vu_config_change_msg =
     vbind (vget d_backend_fd) (\<lambda>bfd.
       vbind (vu_message_write bfd (msg_zero\<lparr>m_request := BACKEND_CONFIG_CHANGE_MSG, m_flags := VHOST_USER_VERSION\<rparr>))
         (\<lambda>_. vret ()))"

definition vring_used_flags_set_bit :: "nat \<Rightarrow> u16 \<Rightarrow> unit vu" where
  "vring_used_flags_set_bit i msk =
     vbind (vq_get i) (\<lambda>q. let u = vr_used (vq_ring q) in vseq (need_ptr u)
       (set_mem (\<lambda>hm. set_used_flags u (used_flags hm u OR msk) hm)))"

definition vring_used_flags_unset_bit :: "nat \<Rightarrow> u16 \<Rightarrow> unit vu" where
  "vring_used_flags_unset_bit i msk =
     vbind (vq_get i) (\<lambda>q. let u = vr_used (vq_ring q) in vseq (need_ptr u)
       (set_mem (\<lambda>hm. set_used_flags u (used_flags hm u AND NOT msk) hm)))"

text \<open>\<^verbatim>\<open>avail_event\<close> lies just past the elements of the used ring.\<close>

definition avail_event_addr :: "u64 \<Rightarrow> nat \<Rightarrow> u64" where
  "avail_event_addr used num = used + 4 + of_nat (8 * num)"

definition vring_set_avail_event :: "nat \<Rightarrow> u16 \<Rightarrow> unit vu" where
  "vring_set_avail_event i val =
     vbind (vq_get i) (\<lambda>q.
       if \<not> vq_notification q then vret ()
       else vseq (need_ptr (vr_used (vq_ring q)))
         (set_mem (\<lambda>hm. st16 hm (avail_event_addr (vr_used (vq_ring q)) (unat (vr_num (vq_ring q)))) val)))"

definition vu_queue_set_notification :: "nat \<Rightarrow> bool \<Rightarrow> unit vu" where
  "vu_queue_set_notification i enable =
     vseq (vq_upd i (\<lambda>q. q\<lparr>vq_notification := enable\<rparr>))
     (vbind (vu_has_feature VIRTIO_RING_F_EVENT_IDX) (\<lambda>event_idx.
       if event_idx then vbind (vring_avail_idx i) (\<lambda>x. vring_set_avail_event i x)
       else if enable then vring_used_flags_unset_bit i VRING_USED_F_NO_NOTIFY
       else vring_used_flags_set_bit i VRING_USED_F_NO_NOTIFY))"

section \<open>Taking buffers\<close>

type_synonym iovec = "u64 \<times> u64"

text \<open>The mapping loop: \<open>n\<close> scatter entries are left.\<close>

fun map_desc_loop :: "nat \<Rightarrow> u64 \<Rightarrow> u64 \<Rightarrow> iovec list \<Rightarrow> iovec list option vu" where
  "map_desc_loop n pa sz iov =
     (if sz = 0 then vret (Some iov)
      else case n of
        0 \<Rightarrow> vseq (vu_panic ''virtio: too many descriptors in indirect table'') (vret None)
      | Suc k \<Rightarrow> vbind (vu_gpa_to_va sz pa) (\<lambda>(base, len).
          if base = 0 then vseq (vu_panic ''virtio: invalid address for buffers'') (vret None)
          else map_desc_loop k (pa + len) (sz - len) (iov @ [(base, len)])))"

definition virtqueue_map_desc :: "iovec list \<Rightarrow> nat \<Rightarrow> u64 \<Rightarrow> u64 \<Rightarrow> iovec list option vu" where
  "virtqueue_map_desc iov max_num_sg pa sz =
     vseq (vassert (length iov \<le> max_num_sg))
     (if sz = 0 then vseq (vu_panic ''virtio: zero sized buffers are not allowed'') (vret None)
      else map_desc_loop (max_num_sg - length iov) pa sz iov)"

record vu_element =
  e_index :: nat
  e_in :: "iovec list"
  e_out :: "iovec list"

definition virtqueue_alloc_element :: "nat \<Rightarrow> iovec list \<Rightarrow> iovec list \<Rightarrow> vu_element option vu" where
  "virtqueue_alloc_element idx out_sg in_sg =
     vbind sys_ok (\<lambda>malloc_ok. vret (if malloc_ok then Some \<lparr>e_index = idx, e_in = in_sg, e_out = out_sg\<rparr> else None))"

fun collect_descs :: "nat \<Rightarrow> desc_table \<Rightarrow> nat \<Rightarrow> nat \<Rightarrow> iovec list \<Rightarrow> iovec list \<Rightarrow> (iovec list \<times> iovec list) option vu" where
  "collect_descs 0 desc max_num i out_sg in_sg = vstop Diverges"
| "collect_descs (Suc n) desc max_num i out_sg in_sg =
     (let next_step = (\<lambda>out1 in1.
        if length in1 + length out1 > max_num then vseq (vu_panic ''Looped descriptor'') (vret None)
        else vbind (virtqueue_read_next_desc desc i max_num) (\<lambda>r.
          case r of
            Desc_error \<Rightarrow> vseq (vu_panic ''read descriptor error'') (vret None)
          | Desc_done \<Rightarrow> vret (Some (out1, in1))
          | Desc_more k \<Rightarrow> collect_descs n desc max_num k out1 in1))
      in
      if has_flag (desc i) VRING_DESC_F_WRITE then
        vbind (virtqueue_map_desc in_sg (VIRTQUEUE_MAX_SIZE - length out_sg) (d_addr (desc i)) (ucast (d_dlen (desc i)))) (\<lambda>r.
          case r of None \<Rightarrow> vret None | Some in1 \<Rightarrow> next_step out_sg in1)
      else if in_sg \<noteq> [] then vseq (vu_panic ''Incorrect order for descriptors'') (vret None)
      else
        vbind (virtqueue_map_desc out_sg VIRTQUEUE_MAX_SIZE (d_addr (desc i)) (ucast (d_dlen (desc i)))) (\<lambda>r.
          case r of None \<Rightarrow> vret None | Some out1 \<Rightarrow> next_step out1 in_sg))"

definition vu_queue_map_desc :: "nat \<Rightarrow> nat \<Rightarrow> vu_element option vu" where
  "vu_queue_map_desc q idx =
     vbind (vq_get q) (\<lambda>vq. vbind (vget w_mem) (\<lambda>hm.
       let table = desc_at hm (vr_desc (vq_ring vq)); num = unat (vr_num (vq_ring vq)) in
       vbind (if has_flag (table idx) VRING_DESC_F_INDIRECT
              then vbind (indirect_table (table idx)) (\<lambda>t. vret (map_option (\<lambda>(desc, m). (desc, m, 0)) t))
              else vret (Some (table, num, idx))) (\<lambda>t.
       case t of
         None \<Rightarrow> vret None
       | Some (desc, max_num, i) \<Rightarrow>
           vbind (collect_descs (max_num + 2) desc max_num i [] []) (\<lambda>r.
             case r of None \<Rightarrow> vret None | Some (out_sg, in_sg) \<Rightarrow> virtqueue_alloc_element idx out_sg in_sg))))"

section \<open>Tracking buffers in flight\<close>

text \<open>\<open>False\<close> is the result \<open>-1\<close>.\<close>

definition inflight_op :: "nat \<Rightarrow> (u64 \<Rightarrow> unit vu) \<Rightarrow> bool vu" where
  "inflight_op i f =
     vbind (vu_has_protocol_feature F_INFLIGHT_SHMFD) (\<lambda>on.
       if \<not> on then vret True
       else vbind (vq_get i) (\<lambda>q.
         if vq_inflight q = 0 then vret False else vseq (f (vq_inflight q)) (vret True)))"

definition vu_queue_inflight_get :: "nat \<Rightarrow> nat \<Rightarrow> bool vu" where
  "vu_queue_inflight_get i desc_idx = inflight_op i (\<lambda>p.
     vbind (vq_get i) (\<lambda>q.
     vseq (set_mem (\<lambda>hm. st_bytes hm (if_flag_addr p desc_idx + 8) (le_bytes 8 (unat (vq_counter q)))))
     (vseq (vq_upd i (\<lambda>q. q\<lparr>vq_counter := vq_counter q + 1\<rparr>))
       (set_flag p desc_idx (char_of (1 :: nat))))))"

definition vu_queue_inflight_pre_put :: "nat \<Rightarrow> nat \<Rightarrow> bool vu" where
  "vu_queue_inflight_pre_put i desc_idx = inflight_op i (\<lambda>p. set_mem (\<lambda>hm. st16 hm (p + 12) (of_nat desc_idx)))"

definition vu_queue_inflight_post_put :: "nat \<Rightarrow> nat \<Rightarrow> bool vu" where
  "vu_queue_inflight_post_put i desc_idx = inflight_op i (\<lambda>p.
     vseq (set_flag p desc_idx NUL)
     (vbind (vq_get i) (\<lambda>q. set_mem (\<lambda>hm. st16 hm (p + 14) (vq_used_idx q)))))"

section \<open>Pop\<close>

text \<open>An element to submit again; then a new one, taken from the ring at \<open>q\<close>'s position.\<close>

definition pop_resubmit :: "nat \<Rightarrow> vu_virtq \<Rightarrow> vu_element option vu" where
  "pop_resubmit i q =
     (let k = unat (vq_resubmit_num q - 1); resub = the (vq_resubmit q) in
      vseq (vq_upd i (\<lambda>q. q\<lparr>vq_resubmit_num := vq_resubmit_num q - 1\<rparr>))
      (if length resub \<le> k then vstop (Undef OutOfBounds)
       else vbind (vu_queue_map_desc i (unat (id_index (resub ! k)))) (\<lambda>elem.
         vseq (vwhen (k = 0) (vq_upd i (\<lambda>q. q\<lparr>vq_resubmit := None\<rparr>))) (vret elem))))"

definition pop_head :: "nat \<Rightarrow> vu_virtq \<Rightarrow> vu_element option vu" where
  "pop_head i q =
     vseq (vq_upd i (\<lambda>q. q\<lparr>vq_last_avail := vq_last_avail q + 1\<rparr>))
     (vbind (virtqueue_get_head i (ucast (vq_last_avail q))) (\<lambda>h.
       case h of
         None \<Rightarrow> vret None
       | Some head \<Rightarrow>
           vbind (vu_has_feature VIRTIO_RING_F_EVENT_IDX) (\<lambda>event_idx.
           vseq (vwhen event_idx (vring_set_avail_event i (vq_last_avail q + 1)))
           (vbind (vu_queue_map_desc i head) (\<lambda>elem.
             case elem of
               None \<Rightarrow> vret None
             | Some e \<Rightarrow>
                 vseq (vq_upd i (\<lambda>q. q\<lparr>vq_inuse := vq_inuse q + 1\<rparr>))
                   (vbind (vu_queue_inflight_get i head) (\<lambda>_. vret (Some e))))))))"

definition vu_queue_pop :: "nat \<Rightarrow> vu_element option vu" where
  "vu_queue_pop i =
     vbind (vq_get i) (\<lambda>q. vbind (vget d_broken) (\<lambda>broken.
       if broken \<or> vr_avail (vq_ring q) = 0 then vret None
       else if vq_resubmit q \<noteq> None \<and> vq_resubmit_num q > 0 then pop_resubmit i q
       else vbind (vu_queue_empty i) (\<lambda>empty.
         if empty then vret None
         else if unat (vq_inuse q) \<ge> unat (vr_num (vq_ring q)) then
           vseq (vu_panic ''Virtqueue size exceeded'') (vret None)
         else pop_head i q)))"

definition vu_queue_detach_element :: "nat \<Rightarrow> unit vu" where
  "vu_queue_detach_element i = vq_upd i (\<lambda>q. q\<lparr>vq_inuse := vq_inuse q - 1\<rparr>)"

definition vu_queue_unpop :: "nat \<Rightarrow> unit vu" where
  "vu_queue_unpop i =
     vseq (vq_upd i (\<lambda>q. q\<lparr>vq_last_avail := vq_last_avail q - 1\<rparr>)) (vu_queue_detach_element i)"

definition vu_queue_rewind :: "nat \<Rightarrow> u32 \<Rightarrow> bool vu" where
  "vu_queue_rewind i num =
     vbind (vq_get i) (\<lambda>q.
       if num > vq_inuse q then vret False
       else vseq (vq_upd i (\<lambda>q. q\<lparr>vq_last_avail := vq_last_avail q - ucast num, vq_inuse := vq_inuse q - num\<rparr>)) (vret True))"

section \<open>Returning buffers\<close>

definition vring_used_write :: "nat \<Rightarrow> u32 \<Rightarrow> u32 \<Rightarrow> nat \<Rightarrow> unit vu" where
  "vring_used_write i uid ulen k =
     vbind (vq_get i) (\<lambda>q. let used = vr_used (vq_ring q) in
       vseq (need_ptr used)
       (vseq (set_mem (\<lambda>hm. set_used_len used k ulen (set_used_id used k uid hm)))
         (vu_log_write (vr_log (vq_ring q) + of_nat (4 + 8 * k)) 8)))"

fun log_fill_loop :: "nat \<Rightarrow> desc_table \<Rightarrow> nat \<Rightarrow> nat \<Rightarrow> u32 \<Rightarrow> nat \<Rightarrow> unit vu" where
  "log_fill_loop 0 desc max_num num_bufs len i = vstop Diverges"
| "log_fill_loop (Suc n) desc max_num num_bufs len i =
     (if num_bufs + 1 > max_num then vu_panic ''Looped descriptor''
      else
        let w = has_flag (desc i) VRING_DESC_F_WRITE; m = min (d_dlen (desc i)) len in
        vseq (vwhen w (vu_log_write (d_addr (desc i)) (ucast m)))
        (let len1 = (if w then len - m else len) in
         if len1 = 0 then vret ()
         else vbind (virtqueue_read_next_desc desc i max_num) (\<lambda>r.
           case r of Desc_more k \<Rightarrow> log_fill_loop n desc max_num (num_bufs + 1) len1 k | _ \<Rightarrow> vret ())))"

definition vu_log_queue_fill :: "nat \<Rightarrow> nat \<Rightarrow> u32 \<Rightarrow> unit vu" where
  "vu_log_queue_fill q idx len =
     vbind (vq_get q) (\<lambda>vq. vbind (vget w_mem) (\<lambda>hm.
       let table = desc_at hm (vr_desc (vq_ring vq)); num = unat (vr_num (vq_ring vq)) in
       if has_flag (table idx) VRING_DESC_F_INDIRECT then
         vbind (indirect_table (table idx)) (\<lambda>t.
           case t of None \<Rightarrow> vret () | Some (desc, max_num) \<Rightarrow> log_fill_loop (max_num + 1) desc max_num 0 len 0)
       else log_fill_loop (num + 1) table num 0 len idx))"

definition vu_queue_fill :: "nat \<Rightarrow> nat \<Rightarrow> u32 \<Rightarrow> u32 \<Rightarrow> unit vu" where
  "vu_queue_fill i elem_index len idx =
     vbind (vq_get i) (\<lambda>q. vbind (vget d_broken) (\<lambda>broken.
       if broken \<or> vr_avail (vq_ring q) = 0 then vret ()
       else
         vseq (vu_log_queue_fill i elem_index len)
         (if vr_num (vq_ring q) = 0 then vstop (Undef DivByZero)
          else vring_used_write i (of_nat elem_index) len (unat ((idx + ucast (vq_used_idx q)) mod vr_num (vq_ring q))))))"

definition vring_used_idx_set :: "nat \<Rightarrow> u16 \<Rightarrow> unit vu" where
  "vring_used_idx_set i val =
     vbind (vq_get i) (\<lambda>q. let used = vr_used (vq_ring q) in
       vseq (need_ptr used)
       (vseq (set_mem (set_used_idx used val))
       (vseq (vu_log_write (vr_log (vq_ring q) + 2) 2)
         (vq_upd i (\<lambda>q. q\<lparr>vq_used_idx := val\<rparr>)))))"

definition vu_queue_flush :: "nat \<Rightarrow> u32 \<Rightarrow> unit vu" where
  "vu_queue_flush i count =
     vbind (vq_get i) (\<lambda>q. vbind (vget d_broken) (\<lambda>broken.
       if broken \<or> vr_avail (vq_ring q) = 0 then vret ()
       else
         let old = vq_used_idx q; new = old + ucast count in
         vseq (vring_used_idx_set i new)
         (vseq (vq_upd i (\<lambda>q. q\<lparr>vq_inuse := vq_inuse q - count\<rparr>))
           (vwhen (sint (new - vq_signalled_used q) < uint (new - old))
             (vq_upd i (\<lambda>q. q\<lparr>vq_signalled_valid := False\<rparr>))))))"

definition vu_queue_push :: "nat \<Rightarrow> nat \<Rightarrow> u32 \<Rightarrow> unit vu" where
  "vu_queue_push i elem_index len =
     vseq (vu_queue_fill i elem_index len 0)
     (vbind (vu_queue_inflight_pre_put i elem_index) (\<lambda>_.
     vseq (vu_queue_flush i 1)
     (vbind (vu_queue_inflight_post_put i elem_index) (\<lambda>_. vret ()))))"

end
