(* ===== verification/Vu_Queue_Safe.thy ===== *)
theory Vu_Queue_Safe
  imports Vu_Queue Vu_Safe
begin

text \<open>
  What the virtqueue operations of libvhost-user do on an arbitrary guest.  \<open>runs I f Q\<close> says
  that from a state with \<open>I\<close> the computation \<open>f\<close> either returns a result with \<open>Q\<close>, keeping \<open>I\<close>, or
  ends the process (the panic callback); it neither runs into undefined behaviour nor out of
  the fuel of its loops.  The rules in the collection \<open>runs\<close> follow the shape of an operation.
\<close>

section \<open>Total correctness\<close>

definition runs :: "(vst \<Rightarrow> bool) \<Rightarrow> 'a vu \<Rightarrow> ('a \<Rightarrow> bool) \<Rightarrow> bool" where
  "runs I f Q = (\<forall>s. I s \<longrightarrow> (case f s of Ret a s' \<Rightarrow> I s' \<and> Q a | Stop e s' \<Rightarrow> \<exists>n. e = Exited n))"

named_theorems runs "total correctness of queue operations, by their shape"

lemma runs_ret [runs]: "Q a \<Longrightarrow> runs I (vret a) Q"
  by (simp add: runs_def vret_def)

lemma runs_bindI: "runs I f R \<Longrightarrow> (\<And>a. R a \<Longrightarrow> runs I (g a) Q) \<Longrightarrow> runs I (vbind f g) Q"
  unfolding runs_def vbind_def
  by (rule allI, rule impI, drule_tac x = s in spec, drule (1) mp, case_tac "f s") simp_all

lemma runs_seq [runs]: "runs I f (\<lambda>_. True) \<Longrightarrow> runs I g Q \<Longrightarrow> runs I (vseq f g) Q"
  unfolding vseq_def by (rule runs_bindI)

lemma runs_get [runs]: "(\<And>t. I t \<Longrightarrow> runs I (g (f t)) Q) \<Longrightarrow> runs I (vbind (vget f) g) Q"
  by (simp add: runs_def vbind_def vget_def)

lemma runs_vget [runs]: "(\<And>t. I t \<Longrightarrow> Q (f t)) \<Longrightarrow> runs I (vget f) Q"
  by (simp add: runs_def vget_def)

lemma runs_mod [runs]: "(\<And>s. I s \<Longrightarrow> I (f s)) \<Longrightarrow> Q () \<Longrightarrow> runs I (vmod f) Q"
  by (simp add: runs_def vmod_def)

lemma runs_when [runs]: "(b \<Longrightarrow> runs I f Q) \<Longrightarrow> Q () \<Longrightarrow> runs I (vwhen b f) Q"
  by (simp add: vwhen_def runs_ret)

lemma runs_assert [runs]: "b \<Longrightarrow> Q () \<Longrightarrow> runs I (vassert b) Q"
  by (simp add: vassert_def runs_ret)

lemma runs_if [runs]: "(b \<Longrightarrow> runs I f Q) \<Longrightarrow> (\<not> b \<Longrightarrow> runs I g Q) \<Longrightarrow> runs I (if b then f else g) Q"
  by simp

lemma runs_let [runs]: "runs I (f a) Q \<Longrightarrow> runs I (let x = a in f x) Q"
  by simp

lemma runs_option [runs]:
  "(x = None \<Longrightarrow> runs I f Q) \<Longrightarrow> (\<And>y. x = Some y \<Longrightarrow> runs I (g y) Q) \<Longrightarrow> runs I (case x of None \<Rightarrow> f | Some y \<Rightarrow> g y) Q"
  by (cases x) auto

lemma runs_prod [runs]: "(\<And>a b. x = (a, b) \<Longrightarrow> runs I (f a b) Q) \<Longrightarrow> runs I (case x of (a, b) \<Rightarrow> f a b) Q"
  by (cases x) auto

lemma runs_post: "runs I f R \<Longrightarrow> (\<And>a. R a \<Longrightarrow> Q a) \<Longrightarrow> runs I f Q"
  by (fastforce simp: runs_def split: vres.splits)

lemmas runs_bind = runs_bindI [where R = "\<lambda>_. True"]

section \<open>Address translation\<close>

text \<open>A region does not end in the last 4 GiB of the address space, so that no buffer of the guest
  wraps around it.\<close>

definition low_region :: "vu_region \<Rightarrow> bool" where
  "low_region r = (unat (g_gpa r) + unat (g_size r) + 2 ^ 32 \<le> 2 ^ 64)"

definition in_regions :: "vu_region list \<Rightarrow> iovec \<Rightarrow> bool" where
  "in_regions rs v = (\<exists>r\<in>set rs. snd v \<noteq> 0 \<and>
     unat (fst v - (g_maddr r + g_moff r)) + unat (snd v) \<le> unat (g_size r))"

lemma gpa_hit:
  assumes "low_region r" and "ga \<ge> g_gpa r" and "ga < g_gpa r + g_size r" and "plen \<noteq> 0" and "unat plen < 2 ^ 32"
  defines "l \<equiv> if ga + plen > g_gpa r + g_size r then g_gpa r + g_size r - ga else plen"
  shows "l \<noteq> 0 \<and> l \<le> plen \<and> unat (ga - g_gpa r) + unat l \<le> unat (g_size r)"
proof -
  have e: "unat (g_gpa r + g_size r) = unat (g_gpa r) + unat (g_size r)"
    using assms(1) by (simp add: low_region_def unat_word_ariths)
  have g: "unat (g_gpa r) \<le> unat ga" "unat ga < unat (g_gpa r) + unat (g_size r)"
    using assms(2,3) e by (simp_all add: word_le_nat_alt word_less_nat_alt)
  have w: "unat (ga + plen) = unat ga + unat plen"
    using g assms(1,5) by (simp add: low_region_def unat_word_ariths)
  have d: "unat (ga - g_gpa r) = unat ga - unat (g_gpa r)" using g(1) by (simp add: unat_sub word_le_nat_alt)
  have x: "unat (g_gpa r + g_size r - ga) = unat (g_gpa r) + unat (g_size r) - unat ga"
    using g(2) e by (simp add: unat_sub word_le_nat_alt)
  have p: "0 < unat plen" using assms(4) by (simp only: unat_gt_0 not_False_eq_True)
  show ?thesis
  proof (cases "ga + plen > g_gpa r + g_size r")
    case True
    then have "unat l = unat (g_gpa r) + unat (g_size r) - unat ga" by (simp add: l_def x)
    moreover have "unat (g_gpa r) + unat (g_size r) < unat ga + unat plen"
      using True by (simp add: word_less_nat_alt e w)
    ultimately have "0 < unat l \<and> unat l \<le> unat plen \<and> unat (ga - g_gpa r) + unat l \<le> unat (g_size r)"
      using g d by linarith
    then show ?thesis by (simp only: unat_gt_0 word_le_nat_alt simp_thms)
  next
    case False
    then have le: "unat ga + unat plen \<le> unat (g_gpa r) + unat (g_size r)" and l: "l = plen"
      by (simp_all add: l_def word_less_nat_alt e w)
    have "unat (ga - g_gpa r) + unat plen \<le> unat (g_size r)" using le g d by linarith
    then show ?thesis using assms(4) l by simp
  qed
qed

lemma gpa_to_va_hit:
  assumes "\<forall>r\<in>set rs. low_region r" and "plen \<noteq> 0" and "unat plen < 2 ^ 32"
    and "gpa_to_va_from rs plen ga = (p, l)" and "p \<noteq> 0"
  shows "l \<noteq> 0 \<and> l \<le> plen \<and> in_regions rs (p, l)"
  using assms(1,4)
proof (induction rs)
  case Nil
  then show ?case using assms(5) by simp
next
  case (Cons r rs)
  show ?case
  proof (cases "ga \<ge> g_gpa r \<and> ga < g_gpa r + g_size r")
    case True
    then have "p = ga - g_gpa r + g_maddr r + g_moff r"
      and l: "l = (if ga + plen > g_gpa r + g_size r then g_gpa r + g_size r - ga else plen)"
      using Cons.prems(2) by auto
    then have "p - (g_maddr r + g_moff r) = ga - g_gpa r" by simp
    moreover have "low_region r" using Cons.prems(1) by simp
    ultimately show ?thesis
      using gpa_hit [of r ga plen] True assms(2,3) unfolding l [symmetric] by (auto simp: in_regions_def)
  next
    case False
    then have "gpa_to_va_from rs plen ga = (p, l)" using Cons.prems(2) by (auto split: if_splits)
    then show ?thesis using Cons.IH Cons.prems(1) by (fastforce simp: in_regions_def)
  qed
qed

text \<open>The copy of a table that leaves its region: the second part is beyond the only region, so
  the loop ends after at most two translations.\<close>

lemma beyond_region:
  "ga \<ge> g_gpa r \<Longrightarrow> ga < g_gpa r + g_size r \<Longrightarrow> ga + plen > g_gpa r + g_size r \<Longrightarrow>
   gpa_to_va_from [r] plen' (ga + (g_gpa r + g_size r - ga)) = (0, plen')"
  by simp

text \<open>The scatter entries of a chain: at most \<^verbatim>\<open>VIRTQUEUE_MAX_SIZE\<close>, each in guest memory.\<close>

definition mapped :: "vu_region list \<Rightarrow> nat \<Rightarrow> iovec list \<Rightarrow> bool" where
  "mapped rs n iov = (length iov \<le> n \<and> (\<forall>v\<in>set iov. in_regions rs v))"

section \<open>Walking the guest's descriptors\<close>

text \<open>All that the walk over a chain needs of the state: the regions of guest memory stay the same,
  and a panic is noticed only through the broken flag and the trace.\<close>

locale guest_view =
  fixes I :: "vst \<Rightarrow> bool" and rs :: "vu_region list"
  assumes live: "I s \<Longrightarrow> live_regions s = rs"
    and panic: "I s \<Longrightarrow> I (s\<lparr>d_broken := True, w_trace := w_trace s @ [Panic msg]\<rparr>)"
begin

lemma runs_panic [runs]: "Q () \<Longrightarrow> runs I (vu_panic msg) Q"
  by (auto simp: runs_def vu_panic_def panic Let_def)

lemma runs_gpa_to_va:
  assumes "\<forall>r\<in>set rs. low_region r" and "unat plen < 2 ^ 32" and "Q (0, 0)" and "plen = 0 \<Longrightarrow> Q (0, plen)"
    and "\<And>p l. plen \<noteq> 0 \<Longrightarrow> (p, l) = gpa_to_va_from rs plen ga \<Longrightarrow> (p \<noteq> 0 \<Longrightarrow> l \<noteq> 0 \<and> l \<le> plen \<and> in_regions rs (p, l)) \<Longrightarrow> Q (p, l)"
  shows "runs (I) (vu_gpa_to_va plen ga) Q"
proof (cases "plen = 0")
  case True
  then show ?thesis unfolding vu_gpa_to_va_def using assms(4) by (simp add: runs)
next
  case False
  obtain p l where pl: "gpa_to_va_from rs plen ga = (p, l)" by fastforce
  have "Q (p, l)"
    using assms(1,2) False by (intro assms(5)) (simp_all add: pl gpa_to_va_hit [OF _ _ _ pl])
  then show ?thesis unfolding vu_gpa_to_va_def using False
    by (simp add: runs_def vget_def live pl)
qed

lemma runs_read_next: "(\<And>r. Q r) \<Longrightarrow> runs (I) (virtqueue_read_next_desc desc k max_num) Q"
  unfolding virtqueue_read_next_desc_def by (intro runs) auto

lemma runs_copy_indirect:
  assumes "\<forall>r\<in>set rs. low_region r" and "length rs \<le> 1" and "len \<noteq> 0" and "unat len \<le> DESC_BUF_SIZE" and "\<And>b. Q b"
  shows "runs (I) (copy_indirect (Suc (Suc n)) 0 ga len buf) Q"
proof -
  have small: "unat len < 2 ^ 32" "unat (len - l) < 2 ^ 32" if "l \<le> len" for l
    using that assms(4) unat_sub [OF that]
    by (auto simp: DESC_BUF_SIZE_def VIRTQUEUE_MAX_SIZE_def sizeof_vring_desc_def)
  have second: "runs (I) (copy_indirect (Suc n) off (ga + l) (len - l) buf') Q"
    if pl: "(p, l) = gpa_to_va_from rs len ga" and p: "p \<noteq> 0" and l: "l \<le> len" for p l off buf'
  proof -
    obtain r where r: "rs = [r]" "ga \<ge> g_gpa r" "ga < g_gpa r + g_size r"
      using pl p assms(2) by (cases rs) (auto split: if_splits)
    have "fst (gpa_to_va_from rs (len - l) (ga + l)) = 0" if "l \<noteq> len"
    proof -
      have "ga + len > g_gpa r + g_size r" and l: "l = g_gpa r + g_size r - ga"
        using that pl r by (auto split: if_splits)
      then show ?thesis using beyond_region [OF r(2,3)] r(1) by simp
    qed
    then have "vu_gpa_to_va (len - l) (ga + l) = vget (\<lambda>s. gpa_to_va_from (live_regions s) (len - l) (ga + l))"
      and z: "l \<noteq> len \<Longrightarrow> fst (gpa_to_va_from rs (len - l) (ga + l)) = 0" if "l \<noteq> len"
      using that by (simp_all add: vu_gpa_to_va_def)
    then show ?thesis using assms(5)
      by (cases "l = len") (auto simp: live intro!: runs split: prod.splits)
  qed
  show ?thesis
    unfolding copy_indirect.simps(2) [of "Suc n"] if_not_P [OF assms(3)]
  proof (rule runs_bindI [where R = "\<lambda>x. x = gpa_to_va_from rs len ga \<and> (fst x \<noteq> 0 \<longrightarrow> snd x \<le> len)"])
    show "runs (I) (vu_gpa_to_va len ga) (\<lambda>x. x = gpa_to_va_from rs len ga \<and> (fst x \<noteq> 0 \<longrightarrow> snd x \<le> len))"
      using gpa_to_va_hit [OF assms(1,3) small(1) [OF order_refl]] assms(3)
      by (auto simp: vu_gpa_to_va_def dest!: live intro!: runs) (metis prod.collapse)
  next
    fix x assume x: "x = gpa_to_va_from rs len ga \<and> (fst x \<noteq> 0 \<longrightarrow> snd x \<le> len)"
    obtain p l where pl: "x = (p, l)" by fastforce
    with x assms(4) have "p \<noteq> 0 \<Longrightarrow> \<not> DESC_BUF_SIZE < 0 + unat l" by (simp add: word_le_nat_alt)
    then show "runs (I) (case x of (p, read_len) \<Rightarrow> if p = 0 then vret None
        else if 0 + unat read_len > DESC_BUF_SIZE then vstop (Undef OutOfBounds)
        else vbind (vget w_mem) (\<lambda>hm. copy_indirect (Suc n) (0 + sizeof_vring_desc * unat read_len) (ga + read_len)
          (len - read_len) (take 0 buf @ ld_bytes hm p (unat read_len) @ drop (0 + unat read_len) buf))) Q"
      using x assms(5) unfolding pl by (auto simp del: copy_indirect.simps intro!: runs second)
  qed
qed

lemma runs_indirect_table:
  assumes "\<forall>r\<in>set rs. low_region r" and "length rs \<le> 1" and "\<And>t. Q t"
  shows "runs (I) (indirect_table d) Q"
proof -
  have len: "unat (ucast (d_dlen d) :: u64) < 2 ^ 32"
    using unsigned_less [of "d_dlen d", where 'a = nat] by simp
  have read: "runs (I) (virtqueue_read_indirect_desc buf (d_addr d) (d_dlen d)) (\<lambda>_. True)" for buf
  proof (cases "d_dlen d = 0 \<or> unat (d_dlen d) > DESC_BUF_SIZE")
    case False
    then obtain n where n: "unat (d_dlen d) = Suc n" by (cases "unat (d_dlen d)") (auto simp: unat_eq_0)
    have "(ucast (d_dlen d) :: u64) \<noteq> 0" using n by (metis nat.distinct(1) ucast_u32_u64 unat_0)
    with False n show ?thesis
      unfolding virtqueue_read_indirect_desc_def using assms
      by (simp del: copy_indirect.simps) (rule runs_copy_indirect; simp)
  qed (auto simp: virtqueue_read_indirect_desc_def runs)
  show ?thesis
    unfolding indirect_table_def using assms(3)
    by (intro runs runs_bind runs_gpa_to_va [OF assms(1) len] read TrueI)
qed

lemma runs_map_desc_loop:
  assumes "\<forall>r\<in>set rs. low_region r" and "unat sz < 2 ^ 32" and "mapped rs (m - n) iov" and "n \<le> m"
    and "Q None" and "\<And>iov'. mapped rs m iov' \<Longrightarrow> length iov \<le> length iov' \<Longrightarrow> (sz \<noteq> 0 \<Longrightarrow> length iov < length iov') \<Longrightarrow> Q (Some iov')"
  shows "runs (I) (map_desc_loop n pa sz iov) Q"
  using assms(2-6)
proof (induction n arbitrary: pa sz iov Q)
  case 0
  then show ?case by (subst map_desc_loop.simps) (auto intro!: runs)
next
  case (Suc n)
  show ?case
  proof (cases "sz = 0")
    case True
    with Suc.prems show ?thesis by (subst map_desc_loop.simps) (auto simp: mapped_def intro!: runs)
  next
    case False
    have step: "runs (I) (map_desc_loop n (pa + l) (sz - l) (iov @ [(p, l)])) Q"
      if "l \<noteq> 0" "l \<le> sz" "in_regions rs (p, l)" for p l
    proof (rule Suc.IH)
      show "unat (sz - l) < 2 ^ 32" using Suc.prems(1) unat_sub [OF that(2)] by linarith
      show "mapped rs (m - n) (iov @ [(p, l)])" using Suc.prems(2,3) that(3) by (auto simp: mapped_def)
      show "n \<le> m" using Suc.prems(3) by simp
      show "Q None" by fact
      show "Q (Some iov')" if "mapped rs m iov'" "length (iov @ [(p, l)]) \<le> length iov'" for iov'
        using that by (intro Suc.prems(5)) auto
    qed
    show ?thesis
      by (subst map_desc_loop.simps, simp only: False if_False nat.case)
        (rule runs_bindI [where R = "\<lambda>(p, l). p \<noteq> 0 \<longrightarrow> l \<noteq> 0 \<and> l \<le> sz \<and> in_regions rs (p, l)"],
          rule runs_gpa_to_va [OF assms(1) Suc.prems(1)], auto intro!: runs step Suc.prems(4))
  qed
qed

lemma runs_map_desc:
  assumes "\<forall>r\<in>set rs. low_region r" and "unat sz < 2 ^ 32" and "mapped rs m iov"
    and "Q None" and "\<And>iov'. mapped rs m iov' \<Longrightarrow> length iov < length iov' \<Longrightarrow> Q (Some iov')"
  shows "runs (I) (virtqueue_map_desc iov m pa sz) Q"
  unfolding virtqueue_map_desc_def
  using assms(3) by (intro runs runs_map_desc_loop [OF assms(1,2), where m = m]) (auto simp: mapped_def intro: assms(4,5))

lemma runs_collect:
  assumes "\<forall>r\<in>set rs. low_region r" and "mapped rs VIRTQUEUE_MAX_SIZE (out_sg @ in_sg)"
    and "max_num < n + length in_sg + length out_sg" and "length in_sg + length out_sg \<le> max_num" and "n \<noteq> 0"
    and "Q None" and "\<And>a b. mapped rs VIRTQUEUE_MAX_SIZE (a @ b) \<Longrightarrow> a @ b \<noteq> [] \<Longrightarrow> Q (Some (a, b))"
  shows "runs (I) (collect_descs n desc max_num k out_sg in_sg) Q"
  using assms(2-5)
proof (induction n arbitrary: k out_sg in_sg)
  case 0
  then show ?case by simp
next
  case (Suc n)
  have len: "unat (ucast (d_dlen (desc k)) :: u64) < 2 ^ 32"
    using unsigned_less [of "d_dlen (desc k)", where 'a = nat] by simp
  have go: "runs (I) (if length in1 + length out1 > max_num then vseq (vu_panic ''Looped descriptor'') (vret None)
        else vbind (virtqueue_read_next_desc desc k max_num) (\<lambda>r.
          case r of
            Desc_error \<Rightarrow> vseq (vu_panic ''read descriptor error'') (vret None)
          | Desc_done \<Rightarrow> vret (Some (out1, in1))
          | Desc_more k \<Rightarrow> collect_descs n desc max_num k out1 in1)) Q"
    if "mapped rs VIRTQUEUE_MAX_SIZE (out1 @ in1)" "length in_sg + length out_sg < length in1 + length out1" for out1 in1
  proof (cases "length in1 + length out1 > max_num")
    case True
    then show ?thesis using assms(6) by (simp add: runs)
  next
    case False
    then have rec: "runs (I) (collect_descs n desc max_num k out1 in1) Q" for k
      using that Suc.prems(2,3) by (intro Suc.IH) auto
    have fin: "Q (Some (out1, in1))"
      by (rule assms(7)) (use that in \<open>auto simp flip: length_greater_0_conv\<close>)
    show ?thesis unfolding if_not_P [OF False]
    proof (rule runs_bindI [OF runs_read_next [where Q = "\<lambda>_. True"]])
      show "runs (I) (case r of Desc_error \<Rightarrow> vseq (vu_panic ''read descriptor error'') (vret None)
          | Desc_done \<Rightarrow> vret (Some (out1, in1)) | Desc_more k \<Rightarrow> collect_descs n desc max_num k out1 in1) Q" for r
        by (cases r) (auto intro!: runs rec fin assms(6))
    qed simp
  qed
  have w: "mapped rs (VIRTQUEUE_MAX_SIZE - length out_sg) in_sg" "mapped rs VIRTQUEUE_MAX_SIZE out_sg"
    using Suc.prems(1) by (auto simp: mapped_def)
  have in': "mapped rs VIRTQUEUE_MAX_SIZE (out_sg @ in1)" if "mapped rs (VIRTQUEUE_MAX_SIZE - length out_sg) in1" for in1
    using that Suc.prems(1) by (auto simp: mapped_def)
  show ?case
    unfolding collect_descs.simps(2) Let_def
    by (rule runs; (intro runs runs_bindI [OF runs_map_desc [OF assms(1) len w(1),
          where Q = "\<lambda>r. \<forall>v. r = Some v \<longrightarrow> mapped rs (VIRTQUEUE_MAX_SIZE - length out_sg) v \<and> length in_sg < length v"]]
        runs_bindI [OF runs_map_desc [OF assms(1) len w(2),
          where Q = "\<lambda>r. \<forall>v. r = Some v \<longrightarrow> mapped rs VIRTQUEUE_MAX_SIZE v \<and> length out_sg < length v"]] go)?)
      (auto simp: in' assms(6) w intro!: go)
qed

lemma runs_count_chain:
  assumes "max_num < n + bufs" and "n \<noteq> 0" and "\<And>e. Q e"
  shows "runs (I) (count_chain n desc max_num max_in max_out bufs a b k) Q"
  using assms(1,2)
proof (induction n arbitrary: bufs a b k)
  case 0
  then show ?case by simp
next
  case (Suc n)
  have next_desc: "runs (I) (case r of Desc_error \<Rightarrow> vret Count_err
      | Desc_done \<Rightarrow> vret (Count_chain (bufs + 1) in1 out1)
      | Desc_more k \<Rightarrow> count_chain n desc max_num max_in max_out (bufs + 1) in1 out1 k) Q"
    if "\<not> bufs + 1 > max_num" for r in1 out1
    using that Suc.prems(1) by (cases r) (auto intro!: runs Suc.IH assms(3))
  show ?case
    unfolding count_chain.simps(2) Let_def
    by (intro runs_if runs_seq runs_panic runs_ret assms(3) TrueI
        runs_bindI [OF runs_read_next [where Q = "\<lambda>_. True"]] next_desc)
qed

end

section \<open>The queue and the memory it works on\<close>

text \<open>Queue \<open>i\<close> has the rings \<open>R\<close>, and the guest memory is the regions \<open>rs\<close>; its content is \<open>M\<close>
  where the operation does not write it.  A resubmit list covers its counter.\<close>

definition queue_at :: "nat \<Rightarrow> vu_ring \<Rightarrow> vu_region list \<Rightarrow> hmem option \<Rightarrow> vst \<Rightarrow> bool" where
  "queue_at i R rs M s = (i < length (d_vq s) \<and> vq_ring (d_vq s ! i) = R \<and> live_regions s = rs \<and>
     (\<forall>hm. M = Some hm \<longrightarrow> w_mem s = hm) \<and>
     (\<forall>l. vq_resubmit (d_vq s ! i) = Some l \<longrightarrow> unat (vq_resubmit_num (d_vq s ! i)) \<le> length l))"

definition queue_ok :: "vu_ring \<Rightarrow> vu_virtq \<Rightarrow> bool" where
  "queue_ok R q = (vq_ring q = R \<and> (\<forall>l. vq_resubmit q = Some l \<longrightarrow> unat (vq_resubmit_num q) \<le> length l))"

lemma queue_at_get: "queue_at i R rs M s \<Longrightarrow> i < length (d_vq s) \<and> queue_ok R (d_vq s ! i)"
  by (simp add: queue_at_def queue_ok_def)

lemma runs_vq_get [runs]:
  "(\<And>q. queue_ok R q \<Longrightarrow> runs (queue_at i R rs M) (g q) Q) \<Longrightarrow> runs (queue_at i R rs M) (vbind (vq_get i) g) Q"
  by (auto simp: runs_def vbind_def vq_get_def dest: queue_at_get)

lemma runs_vq_upd [runs]:
  "(\<And>q. queue_ok R q \<Longrightarrow> queue_ok R (f q)) \<Longrightarrow> Q () \<Longrightarrow> runs (queue_at i R rs M) (vq_upd i f) Q"
  by (auto simp: runs_def vq_upd_def queue_at_def queue_ok_def live_regions_def)

lemma runs_set_mem [runs]: "Q () \<Longrightarrow> runs (queue_at i R rs None) (set_mem f) Q"
  unfolding set_mem_def by (rule runs) (simp add: queue_at_def live_regions_def)

lemma runs_set_flag [runs]: "Q () \<Longrightarrow> runs (queue_at i R rs None) (set_flag p k b) Q"
  unfolding set_flag_def by (rule runs)

lemma runs_sys_ok [runs]: "(\<And>b. Q b) \<Longrightarrow> runs (queue_at i R rs M) sys_ok Q"
  by (auto simp: runs_def sys_ok_def queue_at_def live_regions_def split: list.split)

lemma runs_need_ptr [runs]: "p \<noteq> 0 \<Longrightarrow> Q () \<Longrightarrow> runs I (need_ptr p) Q"
  by (simp add: need_ptr_def runs)

lemma runs_has_feature [runs]: "fbit < 64 \<Longrightarrow> (\<And>b. Q b) \<Longrightarrow> runs I (vu_has_feature fbit) Q"
  unfolding vu_has_feature_def has_feature_def by (intro runs) auto

lemma runs_protocol_feature [runs]: "(\<And>b. Q b) \<Longrightarrow> runs I (vu_has_protocol_feature p) Q"
  unfolding vu_has_protocol_feature_def has_feature_def by (intro runs) (cases p; simp)+

interpretation at: guest_view "queue_at i R rs M" rs for i R rs M
  by unfold_locales (auto simp: queue_at_def live_regions_def)

section \<open>Reading the rings\<close>

lemma runs_avail_idx [runs]:
  "vr_avail R \<noteq> 0 \<Longrightarrow> (\<And>x. (\<And>hm. M = Some hm \<Longrightarrow> x = avail_idx hm (vr_avail R)) \<Longrightarrow> Q x) \<Longrightarrow>
   runs (queue_at i R rs M) (vring_avail_idx i) Q"
  unfolding vring_avail_idx_def
  by (intro runs) (auto simp: queue_ok_def queue_at_def)

lemma runs_avail_ring [runs]: "vr_avail R \<noteq> 0 \<Longrightarrow> (\<And>x. Q x) \<Longrightarrow> runs (queue_at i R rs M) (vring_avail_ring i k) Q"
  unfolding vring_avail_ring_def by (intro runs) (auto simp: queue_ok_def)

lemma runs_num_heads:
  assumes "vr_avail R \<noteq> 0" and "Q None"
    and "\<And>x. (\<And>hm. M = Some hm \<Longrightarrow> x = avail_idx hm (vr_avail R)) \<Longrightarrow>
      unat (x - ucast idx) \<le> unat (vr_num R) \<Longrightarrow> Q (Some (unat (x - ucast idx)))"
  shows "runs (queue_at i R rs M) (virtqueue_num_heads i idx) Q"
  unfolding virtqueue_num_heads_def Let_def
  by (rule runs_bindI [where R = "\<lambda>x. \<forall>hm. M = Some hm \<longrightarrow> x = avail_idx hm (vr_avail R)"])
    (intro runs; use assms in \<open>simp add: queue_ok_def\<close>)+

lemma runs_get_head:
  "vr_avail R \<noteq> 0 \<Longrightarrow> vr_num R \<noteq> 0 \<Longrightarrow> (\<And>h. Q h) \<Longrightarrow> runs (queue_at i R rs M) (virtqueue_get_head i idx) Q"
  unfolding virtqueue_get_head_def Let_def
  by (rule runs_vq_get, simp add: queue_ok_def unat_eq_0) (intro conjI impI runs_bind runs; simp)

lemma runs_empty [runs]: "(\<And>b. Q b) \<Longrightarrow> runs (queue_at i R rs M) (vu_queue_empty i) Q"
  unfolding vu_queue_empty_def
  by (intro runs runs_bind) (auto simp: queue_ok_def)

definition elem_ok :: "vu_region list \<Rightarrow> vu_element option \<Rightarrow> bool" where
  "elem_ok rs r = (\<forall>e. r = Some e \<longrightarrow>
     mapped rs VIRTQUEUE_MAX_SIZE (e_out e @ e_in e) \<and> e_out e @ e_in e \<noteq> [])"

lemma runs_queue_map_desc:
  assumes "\<forall>r\<in>set rs. low_region r" and "length rs \<le> 1"
  shows "runs (queue_at i R rs M) (vu_queue_map_desc i k) (elem_ok rs)"
proof -
  have go: "runs (queue_at i R rs M) (vbind (collect_descs (max_num + 2) desc max_num j [] []) (\<lambda>r.
      case r of None \<Rightarrow> vret None | Some (out_sg, in_sg) \<Rightarrow> virtqueue_alloc_element k out_sg in_sg)) (elem_ok rs)"
    for max_num desc j
    by (rule runs_bindI [OF at.runs_collect [OF assms(1), where Q = "\<lambda>r. \<forall>a b. r = Some (a, b) \<longrightarrow>
          mapped rs VIRTQUEUE_MAX_SIZE (a @ b) \<and> a @ b \<noteq> []"]])
      (auto simp: mapped_def virtqueue_alloc_element_def elem_ok_def intro!: runs runs_bind)
  show ?thesis
    unfolding vu_queue_map_desc_def Let_def
    by (intro runs runs_bind at.runs_indirect_table [OF assms] go TrueI) (simp add: elem_ok_def)
qed

section \<open>Pop\<close>

lemma runs_inflight_get [runs]: "(\<And>b. Q b) \<Longrightarrow> runs (queue_at i R rs None) (vu_queue_inflight_get i k) Q"
  unfolding vu_queue_inflight_get_def inflight_op_def
  by (intro runs runs_bind) (auto simp: queue_ok_def)

lemma runs_set_avail_event [runs]: "vr_used R \<noteq> 0 \<Longrightarrow> Q () \<Longrightarrow> runs (queue_at i R rs None) (vring_set_avail_event i v) Q"
  unfolding vring_set_avail_event_def
  by (intro runs) (auto simp: queue_ok_def)

lemma runs_pop_head:
  assumes "\<forall>r\<in>set rs. low_region r" and "length rs \<le> 1" and "vr_avail R \<noteq> 0" and "vr_used R \<noteq> 0" and "vr_num R \<noteq> 0"
  shows "runs (queue_at i R rs None) (pop_head i q) (elem_ok rs)"
  unfolding pop_head_def
  by (rule runs_seq, intro runs TrueI, simp add: queue_ok_def,
      rule runs_bindI [OF runs_get_head [OF assms(3,5), where Q = "\<lambda>_. True"]],
      simp, rule runs_option, rule runs_ret, simp add: elem_ok_def,
      rule runs_bindI [where R = "\<lambda>_. True"], rule runs_has_feature,
      simp add: VIRTIO_RING_F_EVENT_IDX_def, simp, rule runs_seq, intro runs assms TrueI,
      rule runs_bindI [OF runs_queue_map_desc [OF assms(1,2)]])
    (auto simp: queue_ok_def elem_ok_def intro!: runs runs_bind)

text \<open>The resubmit path lowers a counter it has just read: from a known state.\<close>

definition runs_from :: "(vst \<Rightarrow> bool) \<Rightarrow> vst \<Rightarrow> 'a vu \<Rightarrow> ('a \<Rightarrow> bool) \<Rightarrow> bool" where
  "runs_from I s f Q = (case f s of Ret a s' \<Rightarrow> I s' \<and> Q a | Stop e s' \<Rightarrow> \<exists>n. e = Exited n)"

lemma runs_fromI: "I s \<Longrightarrow> runs I f Q \<Longrightarrow> runs_from I s f Q"
  by (simp add: runs_from_def runs_def)

lemma runs_vq_get_from:
  "(\<And>s. queue_at i R rs M s \<Longrightarrow> runs_from (queue_at i R rs M) s (g (d_vq s ! i)) Q) \<Longrightarrow>
   runs (queue_at i R rs M) (vbind (vq_get i) g) Q"
  by (auto simp: runs_def runs_from_def vbind_def vq_get_def dest: queue_at_get)

lemma runs_from_upd:
  "i < length (d_vq s) \<Longrightarrow> I (s\<lparr>d_vq := (d_vq s)[i := f (d_vq s ! i)]\<rparr>) \<Longrightarrow> runs I g Q \<Longrightarrow>
   runs_from I s (vseq (vq_upd i f) g) Q"
  by (simp add: runs_def runs_from_def vseq_def vbind_def vq_upd_def)

lemma runs_from_get: "runs_from I s (g (f s)) Q \<Longrightarrow> runs_from I s (vbind (vget f) g) Q"
  by (simp add: runs_from_def vbind_def vget_def)

lemma runs_from_if: "(b \<Longrightarrow> runs_from I s f Q) \<Longrightarrow> (\<not> b \<Longrightarrow> runs_from I s g Q) \<Longrightarrow> runs_from I s (if b then f else g) Q"
  by simp

lemma runs_pop_resubmit:
  assumes "\<forall>r\<in>set rs. low_region r" and "length rs \<le> 1"
    and s: "queue_at i R rs None s" and n: "vq_resubmit_num (d_vq s ! i) > 0" and l: "vq_resubmit (d_vq s ! i) = Some l"
  shows "runs_from (queue_at i R rs None) s (pop_resubmit i (d_vq s ! i)) (elem_ok rs)"
  unfolding pop_resubmit_def Let_def
proof (rule runs_from_upd)
  have dec: "unat (vq_resubmit_num (d_vq s ! i) - 1) = unat (vq_resubmit_num (d_vq s ! i)) - 1"
    using n by (simp add: unat_minus_one word_neq_0_conv)
  have le: "unat (vq_resubmit_num (d_vq s ! i)) \<le> length l" "0 < unat (vq_resubmit_num (d_vq s ! i))"
    using s l n by (auto simp: queue_at_def word_less_nat_alt)
  then have "\<not> length (the (vq_resubmit (d_vq s ! i))) \<le> unat (vq_resubmit_num (d_vq s ! i) - 1)"
    using dec l by simp
  then show "runs (queue_at i R rs None) (if length (the (vq_resubmit (d_vq s ! i))) \<le> unat (vq_resubmit_num (d_vq s ! i) - 1)
      then vstop (Undef OutOfBounds)
      else vbind (vu_queue_map_desc i (unat (id_index (the (vq_resubmit (d_vq s ! i)) ! unat (vq_resubmit_num (d_vq s ! i) - 1))))) (\<lambda>elem.
        vseq (vwhen (unat (vq_resubmit_num (d_vq s ! i) - 1) = 0) (vq_upd i (\<lambda>q. q\<lparr>vq_resubmit := None\<rparr>))) (vret elem))) (elem_ok rs)"
    by (simp only: if_False)
      (rule runs_bindI [OF runs_queue_map_desc [OF assms(1,2)]], intro runs, auto simp: queue_ok_def)
  show "queue_at i R rs None (s\<lparr>d_vq := (d_vq s)[i := (d_vq s ! i)\<lparr>vq_resubmit_num := vq_resubmit_num (d_vq s ! i) - 1\<rparr>]\<rparr>)"
    using s dec le l by (auto simp: queue_at_def live_regions_def)
qed (use s in \<open>simp add: queue_at_def\<close>)

lemma runs_pop:
  assumes "\<forall>r\<in>set rs. low_region r" and "length rs \<le> 1" and "vr_used R \<noteq> 0"
  shows "runs (queue_at i R rs None) (vu_queue_pop i) (elem_ok rs)"
  unfolding vu_queue_pop_def
proof (rule runs_vq_get_from, rule runs_from_get)
  fix s assume s: "queue_at i R rs None s"
  let ?q = "d_vq s ! i"
  have R: "vq_ring ?q = R" using s by (simp add: queue_at_def)
  have new: "runs (queue_at i R rs None) (vbind (vu_queue_empty i) (\<lambda>empty. if empty then vret None
      else if unat (vr_num (vq_ring ?q)) \<le> unat (vq_inuse ?q) then vseq (vu_panic ''Virtqueue size exceeded'') (vret None)
      else pop_head i ?q)) (elem_ok rs)" if "vr_avail R \<noteq> 0"
    by (intro runs runs_bind runs_pop_head [OF assms(1,2) that assms(3)] TrueI) (auto simp: R elem_ok_def)
  show "runs_from (queue_at i R rs None) s
      (if d_broken s \<or> vr_avail (vq_ring ?q) = 0 then vret None
       else if vq_resubmit ?q \<noteq> None \<and> vq_resubmit_num ?q > 0 then pop_resubmit i ?q
       else vbind (vu_queue_empty i) (\<lambda>empty. if empty then vret None
         else if unat (vr_num (vq_ring ?q)) \<le> unat (vq_inuse ?q) then vseq (vu_panic ''Virtqueue size exceeded'') (vret None)
         else pop_head i ?q)) (elem_ok rs)"
  proof (intro runs_from_if)
    show "runs_from (queue_at i R rs None) s (vret None) (elem_ok rs)"
      by (rule runs_fromI [where I = "queue_at i R rs None", OF s]) (simp add: runs elem_ok_def)
    assume a: "\<not> (d_broken s \<or> vr_avail (vq_ring ?q) = 0)"
    show "runs_from (queue_at i R rs None) s (pop_resubmit i ?q) (elem_ok rs)"
      if "vq_resubmit ?q \<noteq> None \<and> vq_resubmit_num ?q > 0"
      using that runs_pop_resubmit [OF assms(1,2) s] by auto
    show "runs_from (queue_at i R rs None) s (vbind (vu_queue_empty i) (\<lambda>empty. if empty then vret None
         else if unat (vr_num (vq_ring ?q)) \<le> unat (vq_inuse ?q) then vseq (vu_panic ''Virtqueue size exceeded'') (vret None)
         else pop_head i ?q)) (elem_ok rs)"
      by (rule runs_fromI [where I = "queue_at i R rs None", OF s new]) (use a R in simp)
  qed
qed

section \<open>Available bytes\<close>

text \<open>Each round takes one of the heads that the avail index, which does not change, is ahead.\<close>

lemma ucast_Suc: "(ucast (idx + 1 :: u32) :: u16) = ucast idx + 1"
proof transfer
  have c: "k mod 4294967296 mod 65536 = k mod (65536 :: int)" for k
    by (rule mod_mod_cancel) simp
  have "(k + 1) mod 65536 = (k mod 4294967296 + 1) mod (65536 :: int)" for k
    using mod_add_left_eq [of "k mod 4294967296" 65536 1] mod_add_left_eq [of k 65536 1] c [of k] by simp
  then show "take_bit LENGTH(16) (take_bit LENGTH(32) (idx + 1)) = take_bit LENGTH(16) (take_bit LENGTH(32) idx + 1)"
    for idx :: int
    by (simp only: take_bit_eq_mod c len_num1 len_bit0 len_num0 power_numeral, simp add: c)
qed

lemma heads_fall: "x - ucast (idx :: u32) \<noteq> (0 :: u16) \<Longrightarrow> unat (x - ucast (idx + 1) :: u16) = unat (x - ucast idx) - 1"
  unfolding ucast_Suc by (simp add: unat_minus_one flip: diff_diff_eq)

lemma runs_avail_loop:
  assumes "\<forall>r\<in>set rs. low_region r" and "length rs \<le> 1" and "vr_avail R \<noteq> 0"
    and "unat (avail_idx hm (vr_avail R) - ucast idx) < n"
  shows "runs (queue_at i R rs (Some hm)) (avail_bytes_loop n i idx max_in max_out bufs a b) (\<lambda>_. True)"
  using assms(4)
proof (induction n arbitrary: idx bufs a b)
  case 0
  then show ?case by simp
next
  case (Suc n)
  let ?I = "queue_at i R rs (Some hm)" and ?h = "unat (avail_idx hm (vr_avail R) - ucast idx)"
  have rec: "runs ?I (avail_bytes_loop n i (idx + 1) max_in max_out bufs' a' b') (\<lambda>_. True)" if "?h \<noteq> 0" for bufs' a' b'
  proof (rule Suc.IH)
    have "avail_idx hm (vr_avail R) - ucast idx \<noteq> 0" using that by (simp only: unat_eq_0 simp_thms)
    then have "unat (avail_idx hm (vr_avail R) - ucast (idx + 1)) = ?h - 1" by (rule heads_fall)
    then show "unat (avail_idx hm (vr_avail R) - ucast (idx + 1)) < n" using Suc.prems that by linarith
  qed
  have go: "runs ?I (vbind (count_chain (max_num + 2) desc max_num max_in max_out bufs' a b first) (\<lambda>e.
      case e of
        Count_done a b \<Rightarrow> vret (a, b)
      | Count_err \<Rightarrow> vret (0, 0)
      | Count_chain bufs'' a b \<Rightarrow>
          avail_bytes_loop n i (idx + 1) max_in max_out (if ind then bufs + 1 else bufs'') a b)) (\<lambda>_. True)"
    if "?h \<noteq> 0" for ind desc max_num bufs' first
  proof (rule runs_bindI [OF at.runs_count_chain [where Q = "\<lambda>_. True"]])
    show "runs ?I (case e of Count_done a b \<Rightarrow> vret (a, b) | Count_err \<Rightarrow> vret (0, 0)
      | Count_chain bufs'' a b \<Rightarrow>
          avail_bytes_loop n i (idx + 1) max_in max_out (if ind then bufs + 1 else bufs'') a b) (\<lambda>_. True)" for e
      by (cases e) (auto intro: runs rec [OF that])
  qed simp_all
  show ?case
    unfolding avail_bytes_loop.simps(2) Let_def
  proof (rule runs_bindI [OF runs_num_heads [OF assms(3), where Q = "\<lambda>r. \<forall>h. r = Some h \<longrightarrow> h = ?h \<and> h \<le> unat (vr_num R)"]],
      simp, simp, rule runs_option, rule runs_ret, rule TrueI, rule runs_if, rule runs_ret, rule TrueI)
    fix r h assume r: "\<forall>h. r = Some h \<longrightarrow> h = ?h \<and> h \<le> unat (vr_num R)" "r = Some h" "h \<noteq> 0"
    then have h: "?h \<noteq> 0" and num: "vr_num R \<noteq> 0" by auto
    show "runs ?I (vbind (virtqueue_get_head i idx) (\<lambda>h.
           case h of
             None \<Rightarrow> vret (0, 0)
           | Some k \<Rightarrow>
             vbind (vq_get i) (\<lambda>vq. vbind (vget w_mem) (\<lambda>hm.
               if has_flag (desc_at hm (vr_desc (vq_ring vq)) k) VRING_DESC_F_INDIRECT then
                 (if d_dlen (desc_at hm (vr_desc (vq_ring vq)) k) mod of_nat sizeof_vring_desc = 0 \<and> bufs \<ge> unat (vr_num (vq_ring vq)) then
                    vseq (vu_panic ''Looped descriptor'') (vret (0, 0))
                  else vbind (indirect_table (desc_at hm (vr_desc (vq_ring vq)) k)) (\<lambda>t.
                    case t of
                      None \<Rightarrow> vret (0, 0)
                    | Some (desc, max_num) \<Rightarrow> vbind (count_chain (max_num + 2) desc max_num max_in max_out 0 a b 0) (\<lambda>e.
                       case e of
                         Count_done a b \<Rightarrow> vret (a, b)
                       | Count_err \<Rightarrow> vret (0, 0)
                       | Count_chain bufs' a b \<Rightarrow>
                           avail_bytes_loop n i (idx + 1) max_in max_out (if True then bufs + 1 else bufs') a b)))
               else vbind (count_chain (unat (vr_num (vq_ring vq)) + 2) (desc_at hm (vr_desc (vq_ring vq))) (unat (vr_num (vq_ring vq)))
                     max_in max_out bufs a b k) (\<lambda>e.
                       case e of
                         Count_done a b \<Rightarrow> vret (a, b)
                       | Count_err \<Rightarrow> vret (0, 0)
                       | Count_chain bufs' a b \<Rightarrow>
                           avail_bytes_loop n i (idx + 1) max_in max_out (if False then bufs + 1 else bufs') a b))))) (\<lambda>_. True)"
      by (intro runs_option runs_ret runs_vq_get runs_get runs_if runs_seq at.runs_panic runs_prod go [OF h] TrueI
          runs_bindI [OF runs_get_head [OF assms(3) num, where Q = "\<lambda>_. True"]]
          runs_bindI [OF at.runs_indirect_table [OF assms(1,2), where Q = "\<lambda>_. True"]])
  qed
qed

lemma runs_get_avail_bytes:
  assumes "\<forall>r\<in>set rs. low_region r" and "length rs \<le> 1"
  shows "runs (queue_at i R rs (Some hm)) (vu_queue_get_avail_bytes i max_in max_out) (\<lambda>_. True)"
proof -
  have "unat (x :: u16) < 65537" for x
    using unsigned_less [of x, where 'a = nat] by simp
  then show ?thesis
    unfolding vu_queue_get_avail_bytes_def
    by (intro runs_vq_get runs_get runs_if runs_ret runs_avail_loop [OF assms] TrueI) (simp_all add: queue_ok_def)
qed

section \<open>Push\<close>

text \<open>What filling a used element finds while it walks the chain once more for the dirty log: no log.\<close>

definition pushing :: "vu_virtq list \<Rightarrow> hmem \<Rightarrow> u64 \<Rightarrow> vu_region list \<Rightarrow> vst \<Rightarrow> bool" where
  "pushing vqs hm pf rs s = (d_vq s = vqs \<and> w_mem s = hm \<and> d_protocol_features s = pf \<and>
     live_regions s = rs \<and> d_log_table s = 0)"

interpretation push: guest_view "pushing vqs hm pf rs" rs for vqs hm pf rs
  by unfold_locales (auto simp: pushing_def live_regions_def)

lemma runs_no_log [runs]: "Q () \<Longrightarrow> runs (pushing vqs hm pf rs) (vu_log_write a n) Q"
  unfolding vu_log_write_def by (intro runs) (auto simp: pushing_def)

lemma runs_vq_get_pushing:
  "i < length vqs \<Longrightarrow> runs (pushing vqs hm pf rs) (g (vqs ! i)) Q \<Longrightarrow> runs (pushing vqs hm pf rs) (vbind (vq_get i) g) Q"
  by (auto simp: runs_def vbind_def vq_get_def pushing_def)

lemma runs_log_fill:
  "max_num < n + bufs \<Longrightarrow> n \<noteq> 0 \<Longrightarrow>
   runs (pushing vqs hm pf rs) (log_fill_loop n desc max_num bufs len k) (\<lambda>_. True)"
proof (induction n arbitrary: bufs len k)
  case 0
  then show ?case by simp
next
  case (Suc n)
  have next_desc: "runs (pushing vqs hm pf rs) (case r of Desc_more k \<Rightarrow> log_fill_loop n desc max_num (bufs + 1) len1 k
      | _ \<Rightarrow> vret ()) (\<lambda>_. True)" if "\<not> bufs + 1 > max_num" for r len1
    using that Suc.prems(1) by (cases r) (auto intro!: runs Suc.IH)
  show ?case
    unfolding log_fill_loop.simps(2) Let_def
    by (intro runs_if runs_seq runs_when push.runs_panic runs_no_log runs_ret TrueI
        runs_bindI [OF push.runs_read_next [where Q = "\<lambda>_. True"]] next_desc)
qed

lemma runs_log_queue_fill:
  assumes "\<forall>r\<in>set rs. low_region r" and "length rs \<le> 1" and "i < length vqs"
  shows "runs (pushing vqs hm pf rs) (vu_log_queue_fill i k len) (\<lambda>_. True)"
  unfolding vu_log_queue_fill_def Let_def
  by (intro runs_vq_get_pushing assms(3) runs_get runs_if runs_option runs_prod runs_ret TrueI runs_log_fill
      runs_bindI [OF push.runs_indirect_table [OF assms(1,2), where Q = "\<lambda>_. True"]]) simp_all

definition used_slot :: "vu_virtq \<Rightarrow> nat" where
  "used_slot q = unat (ucast (vq_used_idx q) mod vr_num (vq_ring q))"

text \<open>The element is in its slot, the others are as they were; the index announces it, or the
  device is broken and announces nothing.\<close>

definition pushed :: "nat \<Rightarrow> nat \<Rightarrow> u32 \<Rightarrow> vst \<Rightarrow> vst \<Rightarrow> bool" where
  "pushed i k len s s' = (let q = d_vq s ! i; q' = d_vq s' ! i; used = vr_used (vq_ring q) in
     used_id (w_mem s') used (used_slot q) = of_nat k \<and> used_len (w_mem s') used (used_slot q) = len \<and>
     (\<forall>j < unat (vr_num (vq_ring q)). j \<noteq> used_slot q \<longrightarrow>
        used_id (w_mem s') used j = used_id (w_mem s) used j \<and> used_len (w_mem s') used j = used_len (w_mem s) used j) \<and>
     (if d_broken s' then used_idx (w_mem s') used = used_idx (w_mem s) used \<and> q' = q
      else used_idx (w_mem s') used = vq_used_idx q + 1 \<and> vq_used_idx q' = vq_used_idx q + 1 \<and>
        vq_inuse q' = vq_inuse q - 1 \<and> vq_ring q' = vq_ring q))"

lemma push_after_fill:
  fixes k :: nat and len :: u32 and s t :: vst
  assumes "pushing (d_vq s) (w_mem s) (d_protocol_features s) rs t"
    and i: "i < length (d_vq s)" and q: "q = d_vq s ! i" and "vr_used (vq_ring q) \<noteq> 0" and "vr_avail (vq_ring q) \<noteq> 0"
    and "d_protocol_features s AND push_bit (protocol_bit F_INFLIGHT_SHMFD) 1 = 0"
  defines "t' \<equiv> t\<lparr>w_mem := set_used_len (vr_used (vq_ring q)) (used_slot q) len
    (set_used_id (vr_used (vq_ring q)) (used_slot q) (of_nat k) (w_mem s))\<rparr>"
  shows "vseq (vring_used_write i (of_nat k) len (used_slot q))
      (vbind (vu_queue_inflight_pre_put i k) (\<lambda>_. vseq (vu_queue_flush i 1)
        (vbind (vu_queue_inflight_post_put i k) (\<lambda>_. vret ())))) t =
    Ret () (if d_broken t then t'
      else t'\<lparr>w_mem := set_used_idx (vr_used (vq_ring q)) (vq_used_idx q + 1) (w_mem t'),
        d_vq := (d_vq s)[i := q\<lparr>vq_used_idx := vq_used_idx q + 1, vq_inuse := vq_inuse q - 1,
          vq_signalled_valid := vq_signalled_valid q \<and>
            \<not> sint (vq_used_idx q + 1 - vq_signalled_used q) < uint (vq_used_idx q + 1 - vq_used_idx q)\<rparr>]\<rparr>)"
  using assms(1) i q assms(4-6)
  by (simp add: t'_def pushing_def vring_used_write_def vu_queue_inflight_pre_put_def vu_queue_inflight_post_put_def inflight_op_def
     vu_queue_flush_def vring_used_idx_set_def vu_log_write_def need_ptr_def set_mem_def vu_has_protocol_feature_def has_feature_def
     vq_get_def vq_upd_def vu_defs Let_def)

lemma pushed_after_fill:
  fixes k :: nat and len :: u32 and s t :: vst
  assumes t: "pushing (d_vq s) (w_mem s) (d_protocol_features s) rs t"
    and i: "i < length (d_vq s)" and num: "vr_num (vq_ring (d_vq s ! i)) \<noteq> 0"
  defines "q \<equiv> d_vq s ! i" and "t' \<equiv> t\<lparr>w_mem := set_used_len (vr_used (vq_ring (d_vq s ! i))) (used_slot (d_vq s ! i)) len
    (set_used_id (vr_used (vq_ring (d_vq s ! i))) (used_slot (d_vq s ! i)) (of_nat k) (w_mem s))\<rparr>"
  shows "pushed i k len s (if d_broken t then t'
      else t'\<lparr>w_mem := set_used_idx (vr_used (vq_ring q)) (vq_used_idx q + 1) (w_mem t'),
        d_vq := (d_vq s)[i := q\<lparr>vq_used_idx := vq_used_idx q + 1, vq_inuse := vq_inuse q - 1, vq_signalled_valid := b\<rparr>]\<rparr>)"
proof -
  have n: "unat (vr_num (vq_ring q)) < 2 ^ 32"
    using unsigned_less [of "vr_num (vq_ring q)", where 'a = nat] by simp
  have "used_slot q < unat (vr_num (vq_ring q))"
    using num by (simp add: used_slot_def q_def unat_mod_distrib unat_gt_0)
  then have slot: "8 * used_slot q + 12 \<le> 2 ^ 64" using n by simp
  have other: "8 * j + 12 \<le> 2 ^ 64" if "j < unat (vr_num (vq_ring q))" for j using that n by simp
  note same = used_id_set_id [OF slot slot] used_idx_set_id [OF slot] used_id_set_idx [OF slot]
  note diff = used_id_set_id [OF other slot] used_id_set_idx [OF other]
  show ?thesis
    using t i unfolding pushed_def Let_def t'_def pushing_def q_def [symmetric]
    by (simp add: same diff) (simp add: q_def)
qed

section \<open>Any guest\<close>


definition demo_ring :: vu_ring where
  "demo_ring = \<lparr>vr_num = 8, vr_desc = 4096, vr_avail = 8192, vr_used = 12288, vr_log = 0, vr_flags = 0\<rparr>"

definition demo_guest :: vst where
  "demo_guest = demo_dev [vq_init\<lparr>vq_ring := demo_ring, vq_inuse := 1\<rparr>] []
     \<lparr>d_nregions := 1, d_regions := [\<lparr>g_gpa = 0, g_size = 65536, g_qva = 0, g_moff = 0, g_maddr = 4096\<rparr>]\<rparr>"

lemma demo_guest_hyps:
  "live_regions demo_guest = [\<lparr>g_gpa = 0, g_size = 65536, g_qva = 0, g_moff = 0, g_maddr = 4096\<rparr>]"
  "length (d_vq demo_guest) = 1" "vq_ring (d_vq demo_guest ! 0) = demo_ring" "vq_resubmit (d_vq demo_guest ! 0) = None"
  "vr_used demo_ring \<noteq> 0" "vr_avail demo_ring \<noteq> 0" "vr_num demo_ring \<noteq> 0"
  "\<not> d_broken demo_guest" "d_log_table demo_guest = 0" "d_protocol_features demo_guest = 0"
  by (simp_all add: demo_guest_def demo_dev_def demo_ring_def live_regions_def vq_init_def)




text \<open>With two regions an indirect table that straddles them overflows the local copy: after the
  first part the copy goes on \<^verbatim>\<open>read_len\<close> descriptors further, not \<^verbatim>\<open>read_len\<close> bytes.\<close>

lemma straddling_table_overflows:
  "virtqueue_read_indirect_desc buf 0 2048 (s\<lparr>d_nregions := 2, d_regions :=
      [\<lparr>g_gpa = 0, g_size = 1024, g_qva = 0, g_moff = 0, g_maddr = 65536\<rparr>,
       \<lparr>g_gpa = 1024, g_size = 1024, g_qva = 0, g_moff = 0, g_maddr = 131072\<rparr>]\<rparr>) =
     Stop (Undef OutOfBounds) (s\<lparr>d_nregions := 2, d_regions :=
      [\<lparr>g_gpa = 0, g_size = 1024, g_qva = 0, g_moff = 0, g_maddr = 65536\<rparr>,
       \<lparr>g_gpa = 1024, g_size = 1024, g_qva = 0, g_moff = 0, g_maddr = 131072\<rparr>]\<rparr>)"
  (is "_ ?s = Stop _ ?s")
proof -
  have "copy_indirect (Suc (Suc n)) 0 0 2048 buf ?s = Stop (Undef OutOfBounds) ?s" for n
    by (simp add: DESC_BUF_SIZE_def VIRTQUEUE_MAX_SIZE_def sizeof_vring_desc_def vu_gpa_to_va_def live_regions_def vu_defs)
  from this [of 2047] show ?thesis
    by (simp add: virtqueue_read_indirect_desc_def DESC_BUF_SIZE_def VIRTQUEUE_MAX_SIZE_def sizeof_vring_desc_def
        del: copy_indirect.simps)
qed

end
