(* ===== verification/Vu_Inflight.thy ===== *)
theory Vu_Inflight
  imports Vu_Queue_Safe
begin

text \<open>
  Reconnecting: libvhost-user keeps the descriptors it has taken, and not yet returned, in a
  buffer shared with the frontend (\<^verbatim>\<open>VuVirtqInflight\<close>), from which a restarted backend takes
  them again (\<^verbatim>\<open>vu_check_queue_inflights\<close>).  This theory shows what a restart submits again,
  wherever the old process was killed inside \<^verbatim>\<open>vu_queue_push\<close>.
\<close>

section \<open>Memory the two structures share\<close>

text \<open>Two ranges without a common byte; every part of one is apart from every part of the other.\<close>

definition disjoint_ranges :: "u64 \<Rightarrow> nat \<Rightarrow> u64 \<Rightarrow> nat \<Rightarrow> bool" where
  "disjoint_ranges a n b k = (\<forall>i<n. \<forall>j<k. a + of_nat i \<noteq> b + of_nat j)"

lemma disjoint_apart:
  assumes "disjoint_ranges a n b k" and "x + l \<le> n" and "y + m \<le> k"
  shows "apart (a + of_nat x) l (b + of_nat y) m"
proof -
  have "m \<le> unat (a + of_nat x + of_nat i - (b + of_nat y))" if "i < l" for i
  proof (rule ccontr)
    let ?j = "unat (a + of_nat x + of_nat i - (b + of_nat y))"
    assume "\<not> m \<le> ?j"
    then have j: "y + ?j < k" and i: "x + i < n" using assms(2,3) that by auto
    have "a + of_nat (x + i) = b + of_nat (y + ?j)" by (simp add: algebra_simps)
    with assms(1) i j show False unfolding disjoint_ranges_def by blast
  qed
  then show ?thesis by (simp add: apart_def)
qed

lemma disjoint_sym: "disjoint_ranges a n b k \<Longrightarrow> disjoint_ranges b k a n"
  unfolding disjoint_ranges_def by metis

lemma ld16_apart: "apart a 2 b (length bs) \<Longrightarrow> ld16 (st_bytes hm b bs) a = ld16 hm a"
  by (simp add: ld16_def ld_st_apart)

lemma ld64_apart: "apart a 8 b (length bs) \<Longrightarrow> ld64 (st_bytes hm b bs) a = ld64 hm a"
  by (simp add: ld64_def ld_st_apart)

lemma byte_apart: "apart a 1 b (length bs) \<Longrightarrow> st_bytes hm b bs a = hm a"
  by (simp add: apart_def st_bytes_outside)

lemma upd_bytes: "hm(a := b) = st_bytes hm a [b]"
  by (rule ext) (auto simp: st_bytes_def unat_eq_0)

section \<open>The buffer as a value\<close>

text \<open>What the library reads of the buffer at \<open>p\<close> with \<open>n\<close> states, and of the used ring.\<close>

record inflight_view =
  iv_version :: u16
  iv_last :: u16
  iv_used :: u16
  iv_flag :: "nat \<Rightarrow> nat"
  iv_counter :: "nat \<Rightarrow> u64"
  iv_ring :: u16

definition sees :: "u64 \<Rightarrow> nat \<Rightarrow> u64 \<Rightarrow> hmem \<Rightarrow> inflight_view \<Rightarrow> bool" where
  "sees p n used hm v = (if_desc_num hm p = of_nat n \<and> if_version hm p = iv_version v \<and> if_last_batch hm p = iv_last v \<and>
     if_used_idx hm p = iv_used v \<and> used_idx hm used = iv_ring v \<and>
     (\<forall>j<n. if_flag hm p j = iv_flag v j \<and> if_counter hm p j = iv_counter v j))"

lemmas if_defs = if_version_def if_desc_num_def if_last_batch_def if_used_idx_def if_flag_def if_counter_def if_flag_addr_def

lemma if_reads:
  "if_version hm p = ld16 hm (p + of_nat 8)" "if_desc_num hm p = ld16 hm (p + of_nat 10)"
  "if_last_batch hm p = ld16 hm (p + of_nat 12)" "if_used_idx hm p = ld16 hm (p + of_nat 14)"
  "if_flag hm p j = of_char (hm (p + of_nat (16 + 16 * j)))" "if_counter hm p j = ld64 hm (p + of_nat (24 + 16 * j))"
  "used_idx hm used = ld16 hm (used + of_nat 2)"
  by (simp_all add: if_defs used_idx_def algebra_simps)

lemma if_writes:
  "set_used_idx used x hm = st_bytes hm (used + of_nat 2) (le_bytes 2 (unat x))"
  "st16 hm (p + 12) x = st_bytes hm (p + of_nat 12) (le_bytes 2 (unat x))"
  "st16 hm (p + 14) x = st_bytes hm (p + of_nat 14) (le_bytes 2 (unat x))"
  "hm(if_flag_addr p k := c) = st_bytes hm (p + of_nat (16 + 16 * k)) [c]"
  "set_used_id used sl y hm = st_bytes hm (used + of_nat (4 + 8 * sl)) (le_bytes 4 (unat y))"
  "set_used_len used sl y hm = st_bytes hm (used + of_nat (8 + 8 * sl)) (le_bytes 4 (unat y))"
  by (simp_all add: set_used_idx_def st16_def st32_def if_flag_addr_def upd_bytes set_used_id_def set_used_len_def used_elem_def
      algebra_simps)

text \<open>The layout: \<open>n\<close> states in the buffer, apart from a used ring with \<open>num\<close> elements.\<close>

definition if_layout :: "u64 \<Rightarrow> nat \<Rightarrow> u64 \<Rightarrow> nat \<Rightarrow> bool" where
  "if_layout p n used num = (disjoint_ranges p (16 + 16 * n) used (4 + 8 * num) \<and> n < 65536 \<and> num < 2 ^ 32)"

lemma sees_st_bytes:
  assumes "sees p n used hm v"
    and "\<And>x l. x + l \<le> 16 + 16 * n \<Longrightarrow> apart (p + of_nat x) l b (length bs)"
    and "used_idx (st_bytes hm b bs) used = r"
  shows "sees p n used (st_bytes hm b bs) (v\<lparr>iv_ring := r\<rparr>)"
proof -
  have header: "ld16 (st_bytes hm b bs) (p + of_nat x) = ld16 hm (p + of_nat x)" if "x \<le> 14" for x
    by (rule ld16_apart, rule assms(2)) (use that in simp)
  have "st_bytes hm b bs (p + of_nat (16 + 16 * j)) = hm (p + of_nat (16 + 16 * j))"
    "ld64 (st_bytes hm b bs) (p + of_nat (24 + 16 * j)) = ld64 hm (p + of_nat (24 + 16 * j))" if "j < n" for j
    by (rule byte_apart, rule assms(2), use that in simp) (rule ld64_apart, rule assms(2), use that in simp)
  then show ?thesis
    using assms(1,3) unfolding sees_def if_reads(1-6)
    by (simp add: header [of 8] header [of 10] header [of 12] header [of 14] del: of_nat_add of_nat_mult of_nat_numeral)
qed

lemma sees_used_elem:
  assumes "sees p n used hm v" and "if_layout p n used num" and "sl < num"
  shows "sees p n used (set_used_len used sl len (set_used_id used sl y hm)) v"
proof -
  have d: "disjoint_ranges p (16 + 16 * n) used (4 + 8 * num)" using assms(2) by (simp add: if_layout_def)
  have sl: "8 * sl + 12 \<le> 2 ^ 64" using assms(2,3) by (simp add: if_layout_def)
  have ring: "iv_ring v = used_idx hm used" using assms(1) by (simp add: sees_def)
  have 1: "sees p n used (set_used_id used sl y hm) (v\<lparr>iv_ring := iv_ring v\<rparr>)"
    unfolding if_writes
  proof (rule sees_st_bytes [OF assms(1)])
    show "apart (p + of_nat x) l (used + of_nat (4 + 8 * sl)) (length (le_bytes 4 (unat y)))" if "x + l \<le> 16 + 16 * n" for x l
      using assms(3) that by (intro disjoint_apart [OF d]) simp_all
  qed (simp only: if_writes [symmetric] used_idx_set_id [OF sl] ring)
  have "sees p n used (set_used_len used sl len (set_used_id used sl y hm)) (v\<lparr>iv_ring := iv_ring v\<rparr>\<lparr>iv_ring := iv_ring v\<rparr>)"
    unfolding if_writes(6)
  proof (rule sees_st_bytes [OF 1])
    show "apart (p + of_nat x) l (used + of_nat (8 + 8 * sl)) (length (le_bytes 4 (unat len)))" if "x + l \<le> 16 + 16 * n" for x l
      using assms(3) that by (intro disjoint_apart [OF d]) simp_all
  qed (simp only: if_writes(6) [symmetric] used_idx_set_id [OF sl] ring)
  then show ?thesis by simp
qed

lemma sees_ring:
  assumes "sees p n used hm v" and "if_layout p n used num"
  shows "sees p n used (set_used_idx used x hm) (v\<lparr>iv_ring := x\<rparr>)"
proof -
  have d: "disjoint_ranges p (16 + 16 * n) used (4 + 8 * num)" using assms(2) by (simp add: if_layout_def)
  show ?thesis
    unfolding if_writes
  proof (rule sees_st_bytes [OF assms(1)])
    show "apart (p + of_nat y) l (used + of_nat 2) (length (le_bytes 2 (unat x)))" if "y + l \<le> 16 + 16 * n" for y l
      using that by (intro disjoint_apart [OF d]) simp_all
  qed (simp only: if_writes [symmetric] used_idx_set)
qed

lemma if_offsets:
  assumes "x + l \<le> y \<or> y + m \<le> x" and "x + l \<le> 2 ^ 32" and "y + m \<le> 2 ^ 32"
  shows "apart (p + of_nat x) l (p + of_nat y) m"
  using assms by (intro apart_offsets) auto

text \<open>A store at offset \<open>y\<close> of the buffer: what is read elsewhere stays.\<close>

lemma sees_buffer_store:
  assumes "sees p n used hm v" and "if_layout p n used num" and "y + length bs \<le> 16 + 16 * n"
  defines "hm' \<equiv> st_bytes hm (p + of_nat y) bs"
  shows "y = 12 \<or> y = 14 \<or> 16 \<le> y \<Longrightarrow> if_version hm' p = iv_version v \<and> if_desc_num hm' p = of_nat n"
    and "y = 14 \<or> 16 \<le> y \<Longrightarrow> if_last_batch hm' p = iv_last v"
    and "y = 12 \<and> length bs = 2 \<or> 16 \<le> y \<Longrightarrow> if_used_idx hm' p = iv_used v"
    and "used_idx hm' used = iv_ring v"
    and "j < n \<Longrightarrow> y + length bs \<le> 16 + 16 * j \<or> 17 + 16 * j \<le> y \<Longrightarrow> if_flag hm' p j = iv_flag v j"
    and "j < n \<Longrightarrow> y + length bs \<le> 24 + 16 * j \<or> 32 + 16 * j \<le> y \<Longrightarrow> if_counter hm' p j = iv_counter v j"
proof -
  have n: "n < 65536" and d: "disjoint_ranges used (4 + 8 * num) p (16 + 16 * n)"
    using assms(2) disjoint_sym by (auto simp: if_layout_def)
  have y: "y + length bs \<le> 2 ^ 32" using assms(3) n by simp
  note reads = if_reads(1-6) hm'_def ld16_apart ld64_apart byte_apart
  have v: "ld16 hm (p + of_nat 8) = iv_version v" "ld16 hm (p + of_nat 10) = of_nat n" "ld16 hm (p + of_nat 12) = iv_last v"
    "ld16 hm (p + of_nat 14) = iv_used v" "used_idx hm used = iv_ring v"
    "\<And>j. j < n \<Longrightarrow> of_char (hm (p + of_nat (16 + 16 * j))) = iv_flag v j"
    "\<And>j. j < n \<Longrightarrow> ld64 hm (p + of_nat (24 + 16 * j)) = iv_counter v j"
    using assms(1) unfolding sees_def if_reads(1-6) by simp_all
  have h16: "ld16 hm' (p + of_nat x) = ld16 hm (p + of_nat x)" if "x + 2 \<le> y \<or> y + length bs \<le> x" "x \<le> 14" for x
    unfolding hm'_def by (rule ld16_apart, rule if_offsets) (use that y in auto)
  show "if_version hm' p = iv_version v \<and> if_desc_num hm' p = of_nat n" if "y = 12 \<or> y = 14 \<or> 16 \<le> y"
    unfolding if_reads v(1,2) [symmetric] using that by (intro conjI h16) auto
  show "if_last_batch hm' p = iv_last v" if "y = 14 \<or> 16 \<le> y"
    unfolding if_reads v(3) [symmetric] using that by (intro h16) auto
  show "if_used_idx hm' p = iv_used v" if "y = 12 \<and> length bs = 2 \<or> 16 \<le> y"
    unfolding if_reads v(4) [symmetric] using that by (intro h16) auto
  show "used_idx hm' used = iv_ring v"
    unfolding v(5) [symmetric] if_reads(7) hm'_def
    by (rule ld16_apart, rule disjoint_apart [OF d]) (use assms(3) in auto)
  show "if_flag hm' p j = iv_flag v j" if j: "j < n" "y + length bs \<le> 16 + 16 * j \<or> 17 + 16 * j \<le> y"
    unfolding v(6) [OF j(1), symmetric] if_reads(5) hm'_def
    by (rule arg_cong [where f = of_char], rule byte_apart, rule if_offsets) (use j y n in auto)
  show "if_counter hm' p j = iv_counter v j" if j: "j < n" "y + length bs \<le> 24 + 16 * j \<or> 32 + 16 * j \<le> y"
    unfolding v(7) [OF j(1), symmetric] if_reads(6) hm'_def
    by (rule ld64_apart, rule if_offsets) (use j y n in auto)
qed

lemma sees_last:
  assumes "sees p n used hm v" and "if_layout p n used num"
  shows "sees p n used (st16 hm (p + 12) x) (v\<lparr>iv_last := x\<rparr>)"
proof -
  note b = sees_buffer_store [OF assms, of 12 "le_bytes 2 (unat x)", folded if_writes(2), simplified]
  have "if_last_batch (st16 hm (p + 12) x) p = x" by (simp add: if_last_batch_def ld_st_16)
  then show ?thesis using b(1,2,3,4) b(5,6) unfolding sees_def by simp
qed

lemma sees_used:
  assumes "sees p n used hm v" and "if_layout p n used num"
  shows "sees p n used (st16 hm (p + 14) x) (v\<lparr>iv_used := x\<rparr>)"
proof -
  note b = sees_buffer_store [OF assms, of 14 "le_bytes 2 (unat x)", folded if_writes(3), simplified]
  have "if_used_idx (st16 hm (p + 14) x) p = x" by (simp add: if_used_idx_def ld_st_16)
  then show ?thesis using b unfolding sees_def by simp
qed

lemma sees_flag:
  assumes "sees p n used hm v" and "if_layout p n used num" and "k < n"
  shows "sees p n used (hm(if_flag_addr p k := c)) (v\<lparr>iv_flag := (iv_flag v)(k := of_char c)\<rparr>)"
proof -
  note b = sees_buffer_store [OF assms(1,2), of "16 + 16 * k" "[c]", folded if_writes(4), simplified]
  have "if_flag (hm(if_flag_addr p k := c)) p k = of_char c" by (simp add: if_flag_def)
  moreover have "16 + 16 * k + 1 \<le> 16 + 16 * j \<or> 17 + 16 * j \<le> 16 + 16 * k" if "j \<noteq> k" for j using that by presburger
  moreover have "16 + 16 * k + 1 \<le> 24 + 16 * j \<or> 32 + 16 * j \<le> 16 + 16 * k" for j by presburger
  ultimately show ?thesis using b assms(3) unfolding sees_def by auto
qed

section \<open>The order of the resubmit list\<close>

text \<open>Descriptors whose counters differ, by less than the window of the comparison.\<close>

definition near :: "inflight_desc set \<Rightarrow> bool" where
  "near A = (\<forall>x\<in>A. \<forall>y\<in>A. x \<noteq> y \<longrightarrow> id_counter x \<noteq> id_counter y \<and>
     (id_counter x < id_counter y \<longrightarrow> id_counter y - id_counter x < of_nat (VIRTQUEUE_MAX_SIZE * 2)))"

lemma compare_near: "near A \<Longrightarrow> x \<in> A \<Longrightarrow> y \<in> A \<Longrightarrow> inflight_desc_compare x y \<le> 0 \<longleftrightarrow> x \<le> y"
proof (cases "x = y")
  case False
  assume "near A" "x \<in> A" "y \<in> A"
  with False have "id_counter x \<noteq> id_counter y"
    and "id_counter x < id_counter y \<Longrightarrow> id_counter y - id_counter x < of_nat (VIRTQUEUE_MAX_SIZE * 2)"
    by (auto simp only: near_def)
  then show ?thesis
    unfolding inflight_desc_compare_def less_eq_inflight_desc_def by auto
qed (simp add: inflight_desc_compare_def)

lemma insert_by_insort:
  "near A \<Longrightarrow> set (x # xs) \<subseteq> A \<Longrightarrow> insert_by inflight_desc_compare x xs = insort x xs"
  by (induction xs) (simp_all add: compare_near)

lemma qsort_sort: "near A \<Longrightarrow> set xs \<subseteq> A \<Longrightarrow> qsort inflight_desc_compare xs = sort xs"
  by (induction xs) (simp_all add: insert_by_insort [of A])

lemma qsort_unique: "near (set xs) \<Longrightarrow> distinct xs \<Longrightarrow> qsort inflight_desc_compare xs = sorted_list_of_set (set xs)"
  by (simp add: qsort_sort [OF _ order_refl] sorted_list_of_set_sort_remdups distinct_remdups_id)

section \<open>The scan after a restart\<close>

definition in_flight :: "nat \<Rightarrow> inflight_view \<Rightarrow> inflight_desc set" where
  "in_flight n v = (\<lambda>j. Inflight_desc (of_nat j) (iv_counter v j)) ` {j. j < n \<and> iv_flag v j = 1}"

definition flags_ok :: "nat \<Rightarrow> inflight_view \<Rightarrow> bool" where
  "flags_ok n v = (\<forall>j<n. iv_flag v j \<in> {0, 1})"

lemma scan_list:
  assumes "sees p n used hm v" and "flags_ok n v" and "n < 65536"
  shows "set (collect_inflight hm p n) = in_flight n v" and "distinct (collect_inflight hm p n)"
    and "count_inflight hm p n = length (collect_inflight hm p n)"
proof -
  have f: "if_flag hm p j = iv_flag v j" "if_counter hm p j = iv_counter v j" if "j < n" for j
    using assms(1) that by (simp_all add: sees_def)
  have one: "iv_flag v j = 1 \<longleftrightarrow> iv_flag v j \<noteq> 0" if "j < n" for j
    using assms(2) that by (auto simp: flags_ok_def)
  show "set (collect_inflight hm p n) = in_flight n v"
    unfolding collect_inflight_def in_flight_def using f one by (auto intro!: image_eqI)
  have "inj_on (\<lambda>j. Inflight_desc (of_nat j) (if_counter hm p j)) {0..<n}"
    using assms(3) by (auto simp: inj_on_def word_of_nat_eq_iff take_bit_nat_eq_self)
  then show "distinct (collect_inflight hm p n)"
    by (auto simp: collect_inflight_def distinct_map inj_on_def)
  have "filter (\<lambda>j. if_flag hm p j = 1) [0..<n] = filter (\<lambda>j. if_flag hm p j \<noteq> 0) [0..<n]"
    by (rule filter_cong) (use f one in auto)
  then show "count_inflight hm p n = length (collect_inflight hm p n)"
    by (simp add: count_inflight_def collect_inflight_def)
qed

definition resubmitted :: "vu_virtq \<Rightarrow> inflight_desc list" where
  "resubmitted q = case_option [] (\<lambda>l. l) (vq_resubmit q)"

lemma resubmit_spec:
  assumes sees: "sees p n used (w_mem r) v" and "flags_ok n v" and n: "n < 65536" and "near (in_flight n v)"
    and i: "i < length (d_vq r)" and "vq_inuse (d_vq r ! i) = 0" and "vq_resubmit (d_vq r ! i) = None"
    and ok: "w_ok r = True # True # bs"
  shows "\<exists>r'. resubmit_inflights i p r = Ret True r' \<and> resubmitted (d_vq r' ! i) = sorted_list_of_set (in_flight n v)"
proof -
  let ?found = "collect_inflight (w_mem r) p n"
  note scan = scan_list [OF sees assms(2) n]
  have num: "unat (if_desc_num (w_mem r) p) = n" using sees n by (simp add: sees_def)
  have len: "length ?found \<le> n" by (simp add: collect_inflight_def le_trans [OF length_filter_le])
  then have inuse: "unat (of_nat (length ?found) :: u32) = length ?found" using n by (intro unat32) simp
  have sorted: "(if 1 < length ?found then qsort inflight_desc_compare ?found else ?found) = sorted_list_of_set (in_flight n v)"
  proof (cases "1 < length ?found")
    case True
    then show ?thesis using qsort_unique [of ?found] scan assms(4) by simp
  next
    case False
    then have "sort ?found = ?found" by (cases ?found; cases "tl ?found") auto
    then show ?thesis using False scan(1,2) by (simp add: sorted_list_of_set_sort_remdups distinct_remdups_id flip: scan(1))
  qed
  show ?thesis
  proof (cases "?found = []")
    case True
    then have "in_flight n v = {}" using scan(1) by simp
    then show ?thesis using True i assms(6,7) ok num scan(3)
      by (simp add: resubmit_inflights_def vq_get_def vq_upd_def sys_eventfd_def sys_ok_def vu_defs Let_def resubmitted_def)
  next
    case False
    then have nz: "(of_nat (length ?found) :: u32) \<noteq> 0" using inuse by (metis length_0_conv unat_0)
    show ?thesis using False i assms(6,7) ok num scan(3) nz inuse sorted
      by (simp add: resubmit_inflights_def vq_get_def vq_upd_def sys_eventfd_def sys_ok_def vu_defs Let_def resubmitted_def
          split: if_split_asm)
  qed
qed

text \<open>The two scans disagree on a flag that is neither 0 nor 1: the list is allocated for the flags
  that are 1 and filled for those that are not 0, past its end.\<close>

lemma odd_flag_overflows:
  assumes "if_desc_num (w_mem r) p = of_nat n" and n: "n < 65536" and i: "i < length (d_vq r)" and "vq_inuse (d_vq r ! i) = 0"
    and "0 < count_inflight (w_mem r) p n" and "count_inflight (w_mem r) p n < length (collect_inflight (w_mem r) p n)"
    and "w_ok r = True # bs"
  shows "\<exists>t. resubmit_inflights i p r = Stop (Undef OutOfBounds) t"
proof -
  let ?c = "count_inflight (w_mem r) p n"
  have "length (collect_inflight (w_mem r) p n) \<le> n" by (simp add: collect_inflight_def le_trans [OF length_filter_le])
  then have c: "unat (of_nat ?c :: u32) = ?c" using assms(6) n by (intro unat32) simp
  then have "(of_nat ?c :: u32) \<noteq> 0" using assms(5) by (metis less_irrefl unat_0)
  moreover have "unat (if_desc_num (w_mem r) p) = n" using assms(1) n by simp
  ultimately show ?thesis using assms(4-7) i c
    by (simp add: resubmit_inflights_def vq_get_def vq_upd_def sys_ok_def vu_defs Let_def)
qed

text \<open>What the scan makes of the buffer when the used ring is ahead of it: the last element
  returned was announced, so it is not in flight.\<close>

definition settled :: "inflight_view \<Rightarrow> inflight_view" where
  "settled v = (if iv_used v = iv_ring v then v
     else v\<lparr>iv_flag := (iv_flag v)(unat (iv_last v) := 0), iv_used := iv_ring v\<rparr>)"

definition inflight_on :: "vst \<Rightarrow> bool" where
  "inflight_on s = (d_protocol_features s AND push_bit (protocol_bit F_INFLIGHT_SHMFD) 1 \<noteq> 0)"

lemma inflight_on_feature: "inflight_on s \<Longrightarrow> vu_has_protocol_feature F_INFLIGHT_SHMFD s = Ret True s"
  by (simp add: inflight_on_def vu_has_protocol_feature_def has_feature_def vu_defs)

lemma check_spec:
  assumes on: "inflight_on r" and i: "i < length (d_vq r)" and p: "vq_inflight (d_vq r ! i) = p" "p \<noteq> 0"
    and used: "vr_used (vq_ring (d_vq r ! i)) = used" and inuse: "vq_inuse (d_vq r ! i) = 0"
    and sees: "sees p n used (w_mem r) v" and layout: "if_layout p n used num" and "iv_version v \<noteq> 0"
    and last': "iv_used v \<noteq> iv_ring v \<Longrightarrow> unat (iv_last v) < n"
    and flags: "flags_ok n (settled v)" and near: "near (in_flight n (settled v))" and ok: "w_ok r = True # True # bs"
  shows "\<exists>r'. vu_check_queue_inflights i r = Ret True r' \<and>
    resubmitted (d_vq r' ! i) = sorted_list_of_set (in_flight n (settled v))"
proof -
  let ?q = "(d_vq r ! i)\<lparr>vq_used_idx := iv_ring v, vq_resubmit_num := 0, vq_resubmit := None, vq_counter := 0\<rparr>"
  define hm where "hm = (if iv_used v = iv_ring v then w_mem r
    else st16 ((w_mem r)(if_flag_addr p (unat (iv_last v)) := NUL)) (p + 14) (iv_ring v))"
  let ?r = "r\<lparr>d_vq := (d_vq r)[i := ?q], w_mem := hm\<rparr>"
  have hm: "sees p n used hm (settled v)"
  proof (cases "iv_used v = iv_ring v")
    case False
    have "sees p n used ((w_mem r)(if_flag_addr p (unat (iv_last v)) := NUL))
        (v\<lparr>iv_flag := (iv_flag v)(unat (iv_last v) := of_char NUL)\<rparr>)"
      by (rule sees_flag [OF sees layout last' [OF False]])
    from sees_used [OF this layout, of "iv_ring v"] show ?thesis using False by (simp add: hm_def settled_def)
  qed (use sees in \<open>simp add: hm_def settled_def\<close>)
  have reads: "if_version (w_mem r) p = iv_version v" "if_used_idx (w_mem r) p = iv_used v"
    "if_last_batch (w_mem r) p = iv_last v" "used_idx (w_mem r) used = iv_ring v"
    using sees by (simp_all add: sees_def)
  have "vu_check_queue_inflights i r = resubmit_inflights i p ?r"
    using inflight_on_feature [OF on] i p used assms(9) reads
    by (simp add: vu_check_queue_inflights_def vq_get_def vq_upd_def set_flag_def set_mem_def vu_defs Let_def hm_def)
  moreover have "\<exists>r'. resubmit_inflights i p ?r = Ret True r' \<and> resubmitted (d_vq r' ! i) = sorted_list_of_set (in_flight n (settled v))"
    by (rule resubmit_spec [where v = "settled v" and bs = bs, OF _ flags _ near])
      (use hm i inuse ok layout in \<open>simp_all add: if_layout_def\<close>)
  ultimately show ?thesis by simp
qed

section \<open>The steps of a push\<close>

text \<open>\<^verbatim>\<open>vu_queue_push\<close> as the sequence of its writes to shared memory.\<close>

fun vall :: "unit vu list \<Rightarrow> unit vu" where
  "vall [] = vret ()"
| "vall (f # fs) = vseq f (vall fs)"

definition push_steps :: "nat \<Rightarrow> nat \<Rightarrow> u32 \<Rightarrow> unit vu list" where
  "push_steps i k len =
     [vu_queue_fill i k len 0,
      vbind (vu_queue_inflight_pre_put i k) (\<lambda>_. vret ()),
      vu_queue_flush i 1,
      vbind (inflight_op i (\<lambda>p. set_flag p k NUL)) (\<lambda>_. vret ()),
      vbind (inflight_op i (\<lambda>p. vbind (vq_get i) (\<lambda>q. set_mem (\<lambda>hm. st16 hm (p + 14) (vq_used_idx q))))) (\<lambda>_. vret ())]"

lemma vseq_assoc: "vseq (vseq f g) h = vseq f (vseq g h)"
  by (simp add: vseq_def vbind_assoc)

lemma vall_append: "vall (fs @ gs) = vseq (vall fs) (vall gs)"
  by (induction fs) (simp_all add: vseq_assoc, simp add: vseq_def)

lemma push_is_steps: "vu_queue_push i k len = vall (push_steps i k len)"
proof -
  have "vbind (vu_queue_inflight_post_put i k) (\<lambda>_. vret ()) =
    vseq (vbind (inflight_op i (\<lambda>p. set_flag p k NUL)) (\<lambda>_. vret ()))
      (vseq (vbind (inflight_op i (\<lambda>p. vbind (vq_get i) (\<lambda>q. set_mem (\<lambda>hm. st16 hm (p + 14) (vq_used_idx q))))) (\<lambda>_. vret ()))
        (vret ()))"
    by (rule ext) (simp add: vu_queue_inflight_post_put_def inflight_op_def vu_has_protocol_feature_def has_feature_def
        vq_get_def set_flag_def set_mem_def vu_defs)
  then show ?thesis
    unfolding vu_queue_push_def push_steps_def vall.simps by (simp only:) (simp add: vseq_def vbind_assoc)
qed

definition pushable :: "nat \<Rightarrow> vu_ring \<Rightarrow> u64 \<Rightarrow> vst \<Rightarrow> bool" where
  "pushable i R p t = (i < length (d_vq t) \<and> vq_ring (d_vq t ! i) = R \<and> vq_inflight (d_vq t ! i) = p \<and>
     d_log_table t = 0 \<and> inflight_on t \<and> vr_avail R \<noteq> 0 \<and> vr_used R \<noteq> 0 \<and> vr_num R \<noteq> 0 \<and> p \<noteq> 0)"

lemma push_slot: "vr_num (vq_ring q) \<noteq> 0 \<Longrightarrow> used_slot q < unat (vr_num (vq_ring q))"
  by (simp add: used_slot_def unat_mod_distrib unat_gt_0)

lemma fill_step:
  assumes t: "pushable i R p t" and "\<not> d_broken t" and "length (live_regions t) \<le> 1" and "list_all low_region (live_regions t)"
    and run: "vu_queue_fill i k len 0 t = Ret () t'"
  shows "pushable i R p t' \<and> d_vq t' = d_vq t \<and> (let sl = used_slot (d_vq t ! i) in
    w_mem t' = set_used_len (vr_used R) sl len (set_used_id (vr_used R) sl (of_nat k) (w_mem t)))"
proof -
  let ?J = "pushing (d_vq t) (w_mem t) (d_protocol_features t) (live_regions t)"
  have i: "i < length (d_vq t)" and R: "vq_ring (d_vq t ! i) = R" using t by (simp_all add: pushable_def)
  have "runs ?J (vu_log_queue_fill i k len) (\<lambda>_. True)"
    using i assms(3,4) by (intro runs_log_queue_fill) (auto simp: list_all_iff)
  moreover have "?J t" using t by (simp add: pushing_def pushable_def)
  moreover obtain t1 where t1: "vu_log_queue_fill i k len t = Ret () t1" "vring_used_write i (of_nat k) len (used_slot (d_vq t ! i)) t1 = Ret () t'"
    using run t assms(2) by (auto simp: vu_queue_fill_def pushable_def used_slot_def vq_get_def vget_def vbind_def [of "vq_get i"]
        vbind_def [of "vget d_broken"] vseq_def)
  ultimately have J: "?J t1" unfolding runs_def by (metis (no_types, lifting) vres.simps(5))
  with t1(2) t R show ?thesis
    by (auto simp: vring_used_write_def pushing_def pushable_def inflight_on_def vq_get_def need_ptr_def set_mem_def
        vu_log_write_def vu_defs Let_def)
qed

definition published_queue :: "vu_virtq \<Rightarrow> vu_virtq" where
  "published_queue q = q\<lparr>vq_used_idx := vq_used_idx q + 1, vq_inuse := vq_inuse q - 1,
     vq_signalled_valid := vq_signalled_valid q \<and>
       \<not> sint (vq_used_idx q + 1 - vq_signalled_used q) < uint (vq_used_idx q + 1 - vq_used_idx q)\<rparr>"

lemma later_steps:
  assumes t: "pushable i R p t"
  shows "(push_steps i k len ! 1) t = Ret () (t\<lparr>w_mem := st16 (w_mem t) (p + 12) (of_nat k)\<rparr>)"
    and "(push_steps i k len ! 2) t = Ret () (if d_broken t then t
      else t\<lparr>w_mem := set_used_idx (vr_used R) (vq_used_idx (d_vq t ! i) + 1) (w_mem t),
        d_vq := (d_vq t)[i := published_queue (d_vq t ! i)]\<rparr>)"
    and "(push_steps i k len ! 3) t = Ret () (t\<lparr>w_mem := (w_mem t)(if_flag_addr p k := NUL)\<rparr>)"
    and "(push_steps i k len ! 4) t = Ret () (t\<lparr>w_mem := st16 (w_mem t) (p + 14) (vq_used_idx (d_vq t ! i))\<rparr>)"
  using t unfolding pushable_def
  by (auto simp: push_steps_def vu_queue_inflight_pre_put_def inflight_op_def vu_queue_flush_def vring_used_idx_set_def
      vu_log_write_def need_ptr_def set_mem_def set_flag_def inflight_on_feature vq_get_def vq_upd_def published_queue_def vu_defs Let_def)

text \<open>The buffer after the first \<open>m\<close> steps, from \<open>v\<close>.\<close>

definition stage :: "nat \<Rightarrow> nat \<Rightarrow> inflight_view \<Rightarrow> inflight_view" where
  "stage m k v =
     (let v = (if 2 \<le> m then v\<lparr>iv_last := of_nat k\<rparr> else v);
          v = (if 3 \<le> m then v\<lparr>iv_ring := iv_ring v + 1\<rparr> else v);
          v = (if 4 \<le> m then v\<lparr>iv_flag := (iv_flag v)(k := 0)\<rparr> else v)
      in if 5 \<le> m then v\<lparr>iv_used := iv_ring v\<rparr> else v)"

definition at_stage :: "nat \<Rightarrow> nat \<Rightarrow> vu_ring \<Rightarrow> u64 \<Rightarrow> nat \<Rightarrow> nat \<Rightarrow> inflight_view \<Rightarrow> vst \<Rightarrow> bool" where
  "at_stage m i R p n k v t = (pushable i R p t \<and> (d_broken t \<or>
     sees p n (vr_used R) (w_mem t) (stage m k v) \<and> vq_used_idx (d_vq t ! i) = iv_ring (stage m k v)))"

lemma step_stage:
  assumes layout: "if_layout p n (vr_used R) (unat (vr_num R))" and "k < n" and t: "at_stage m i R p n k v t" and "m < 5"
    and first: "m = 0 \<Longrightarrow> \<not> d_broken t \<and> length (live_regions t) \<le> 1 \<and> list_all low_region (live_regions t)"
    and step: "(push_steps i k len ! m) t = Ret () t'"
  shows "at_stage (Suc m) i R p n k v t'"
proof -
  have p: "pushable i R p t" using t by (simp add: at_stage_def)
  have sees: "sees p n (vr_used R) (w_mem t) (stage m k v)" and idx: "vq_used_idx (d_vq t ! i) = iv_ring (stage m k v)" if "\<not> d_broken t"
    using t that by (simp_all add: at_stage_def)
  consider "m = 0" | "m = 1" | "m = 2" | "m = 3" | "m = 4" using assms(4) by linarith
  then show ?thesis
  proof cases
    case 1
    note f = first [OF 1]
    have "vu_queue_fill i k len 0 t = Ret () t'" using step 1 by (simp add: push_steps_def)
    from fill_step [OF p _ _ _ this] f sees idx 1 show ?thesis
      using sees_used_elem [OF sees layout] push_slot [of "d_vq t ! i"]
      by (auto simp: at_stage_def Let_def stage_def pushable_def)
  next
    case 2
    then have "t' = t\<lparr>w_mem := st16 (w_mem t) (p + 12) (of_nat k)\<rparr>" using step later_steps(1) [OF p] by simp
    then show ?thesis using p sees idx 2 sees_last [OF sees layout, of "of_nat k"]
      by (auto simp: at_stage_def pushable_def inflight_on_def stage_def)
  next
    case 3
    then have "t' = (if d_broken t then t
      else t\<lparr>w_mem := set_used_idx (vr_used R) (vq_used_idx (d_vq t ! i) + 1) (w_mem t),
        d_vq := (d_vq t)[i := published_queue (d_vq t ! i)]\<rparr>)" using step later_steps(2) [OF p] by simp
    then show ?thesis using p sees idx 3 sees_ring [OF sees layout, of "vq_used_idx (d_vq t ! i) + 1"]
      by (auto simp: at_stage_def pushable_def inflight_on_def stage_def published_queue_def)
  next
    case 4
    then have "t' = t\<lparr>w_mem := (w_mem t)(if_flag_addr p k := NUL)\<rparr>" using step later_steps(3) [OF p] by simp
    then show ?thesis using p sees idx 4 sees_flag [OF sees layout assms(2), of NUL]
      by (auto simp: at_stage_def pushable_def inflight_on_def stage_def)
  next
    case 5
    then have "t' = t\<lparr>w_mem := st16 (w_mem t) (p + 14) (vq_used_idx (d_vq t ! i))\<rparr>" using step later_steps(4) [OF p] by simp
    then show ?thesis using p sees idx 5 sees_used [OF sees layout, of "vq_used_idx (d_vq t ! i)"]
      by (auto simp: at_stage_def pushable_def inflight_on_def stage_def)
  qed
qed

lemma run_stages:
  assumes layout: "if_layout p n (vr_used R) (unat (vr_num R))" and "k < n" and s: "at_stage 0 i R p n k v s"
    and "\<not> d_broken s" and "length (live_regions s) \<le> 1" and "list_all low_region (live_regions s)"
    and "m \<le> 5" and "vall (take m (push_steps i k len)) s = Ret () t"
  shows "at_stage m i R p n k v t"
  using assms(7,8)
proof (induction m arbitrary: t)
  case 0
  then show ?case using s by (simp add: vret_def)
next
  case (Suc m)
  have "length (push_steps i k len) = 5" by (simp add: push_steps_def)
  then have "take (Suc m) (push_steps i k len) = take m (push_steps i k len) @ [push_steps i k len ! m]"
    using Suc.prems(1) by (intro take_Suc_conv_app_nth) simp
  then obtain t0 where t0: "vall (take m (push_steps i k len)) s = Ret () t0" "(push_steps i k len ! m) t0 = Ret () t"
    using Suc.prems(2) by (auto simp: vall_append vseq_def vret_def)
  have "at_stage m i R p n k v t0" using Suc.IH [OF _ t0(1)] Suc.prems(1) by simp
  then show ?case
    by (rule step_stage [OF layout assms(2) _ _ _ t0(2)]) (use Suc.prems(1) t0(1) assms(4-6) in \<open>auto simp: vret_def\<close>)
qed

section \<open>What is in flight after a crash\<close>

definition view_of :: "hmem \<Rightarrow> u64 \<Rightarrow> u64 \<Rightarrow> inflight_view" where
  "view_of hm p used = \<lparr>iv_version = if_version hm p, iv_last = if_last_batch hm p, iv_used = if_used_idx hm p,
     iv_flag = if_flag hm p, iv_counter = if_counter hm p, iv_ring = used_idx hm used\<rparr>"

text \<open>One descriptor less in flight.\<close>

lemma in_flight_clear:
  assumes "k < n" and "n < 65536" and "flags_ok n v"
  shows "in_flight n (v\<lparr>iv_flag := (iv_flag v)(k := 0)\<rparr>) = in_flight n v - {Inflight_desc (of_nat k) (iv_counter v k)}"
proof -
  have "j = k" if "(of_nat j :: u16) = of_nat k" "j < n" for j
    using that assms(1,2) by (simp add: word_of_nat_eq_iff take_bit_nat_eq_self)
  then show ?thesis using assms(1) by (auto simp: in_flight_def)
qed

lemma in_flight_cong: "iv_flag v = iv_flag w \<Longrightarrow> iv_counter v = iv_counter w \<Longrightarrow> in_flight n v = in_flight n w"
  by (simp add: in_flight_def)

lemma settled_stage:
  assumes "k < n" and "n < 65536" and "flags_ok n v" and "iv_used v = iv_ring v"
  shows "in_flight n (settled (stage m k v)) =
      in_flight n v - (if iv_ring (stage m k v) = iv_ring v then {} else {Inflight_desc (of_nat k) (iv_counter v k)})"
    and "flags_ok n (settled (stage m k v))"
    and "iv_used (stage m k v) \<noteq> iv_ring (stage m k v) \<Longrightarrow> unat (iv_last (stage m k v)) < n"
proof -
  have k: "unat (of_nat k :: u16) = k" using assms(1,2) by (intro unat16) simp
  have flag: "iv_flag (settled (stage m k v)) = (if 3 \<le> m then (iv_flag v)(k := 0) else iv_flag v)"
    and "iv_counter (settled (stage m k v)) = iv_counter v"
    and ring: "iv_ring (stage m k v) = (if 3 \<le> m then iv_ring v + 1 else iv_ring v)"
    using assms(4) k by (auto simp: settled_def stage_def Let_def)
  then have "in_flight n (settled (stage m k v)) =
      in_flight n (if 3 \<le> m then v\<lparr>iv_flag := (iv_flag v)(k := 0)\<rparr> else v)"
    by (intro in_flight_cong) auto
  then show "in_flight n (settled (stage m k v)) =
      in_flight n v - (if iv_ring (stage m k v) = iv_ring v then {} else {Inflight_desc (of_nat k) (iv_counter v k)})"
    using in_flight_clear [OF assms(1-3)] ring by auto
  show "flags_ok n (settled (stage m k v))" using assms(3) flag by (auto simp: flags_ok_def)
  show "unat (iv_last (stage m k v)) < n" if "iv_used (stage m k v) \<noteq> iv_ring (stage m k v)"
    using that assms(1,4) k by (auto simp: stage_def Let_def split: if_splits)
qed

text \<open>A queue in service: the ring is mapped, the buffer has \<open>n\<close> states of which some are set, and
  both the buffer and the queue agree with the used ring.\<close>

definition in_service :: "nat \<Rightarrow> nat \<Rightarrow> vst \<Rightarrow> bool" where
  "in_service i n s = (let q = d_vq s ! i; R = vq_ring q; p = vq_inflight q; v = view_of (w_mem s) p (vr_used R) in
     pushable i R p s \<and> \<not> d_broken s \<and> length (live_regions s) \<le> 1 \<and> list_all low_region (live_regions s) \<and>
     if_layout p n (vr_used R) (unat (vr_num R)) \<and> if_desc_num (w_mem s) p = of_nat n \<and> iv_version v \<noteq> 0 \<and>
     iv_used v = iv_ring v \<and> vq_used_idx q = iv_ring v \<and> flags_ok n v \<and> near (in_flight n v))"

text \<open>The restarted backend: the same memory, and the queue set up again by the frontend.\<close>

definition restarted :: "nat \<Rightarrow> vu_virtq \<Rightarrow> vst \<Rightarrow> vst \<Rightarrow> bool" where
  "restarted i q t r = (w_mem r = w_mem t \<and> inflight_on r \<and> i < length (d_vq r) \<and> vq_inuse (d_vq r ! i) = 0 \<and>
     vq_ring (d_vq r ! i) = vq_ring q \<and> vq_inflight (d_vq r ! i) = vq_inflight q \<and> take 2 (w_ok r) = [True, True])"

text \<open>C10: Crash safety of the buffer of descriptors in flight: kill the backend after any number of the
  writes of \<^verbatim>\<open>vu_queue_push\<close> for element \<open>k\<close>, and restart it on the memory it left.  The restart
  submits again exactly the descriptors that were in flight, by falling counter (so that they are
  popped in the order they were first taken), except \<open>k\<close> as soon as the used ring announces
  it: no element is lost and none is returned twice.\<close>

theorem push_crash_safe:
  assumes s: "in_service i n s" and k: "k < n"
    and run: "vall (take m (push_steps i k len)) s = Ret () t" and "m \<le> 5" and "\<not> d_broken t"
    and r: "restarted i (d_vq s ! i) t r"
  shows "\<exists>r'. vu_check_queue_inflights i r = Ret True r' \<and>
    (let p = vq_inflight (d_vq s ! i); used = vr_used (vq_ring (d_vq s ! i)) in
     resubmitted (d_vq r' ! i) = sorted_list_of_set (in_flight n (view_of (w_mem s) p used) -
       (if used_idx (w_mem t) used = used_idx (w_mem s) used then {} else {Inflight_desc (of_nat k) (if_counter (w_mem s) p k)})))"
proof -
  define q where "q = d_vq s ! i"
  define R where "R = vq_ring q"
  define p where "p = vq_inflight q"
  define v where "v = view_of (w_mem s) p (vr_used R)"
  note defs = q_def [symmetric] R_def [symmetric] p_def [symmetric] v_def [symmetric]
  have S: "pushable i R p s" "\<not> d_broken s" "length (live_regions s) \<le> 1" "list_all low_region (live_regions s)"
    "if_layout p n (vr_used R) (unat (vr_num R))" "if_desc_num (w_mem s) p = of_nat n" "iv_version v \<noteq> 0"
    "iv_used v = iv_ring v" "vq_used_idx q = iv_ring v" "flags_ok n v" "near (in_flight n v)"
    using s unfolding in_service_def Let_def defs by simp_all
  have n: "n < 65536" using S(5) by (simp add: if_layout_def)
  have "at_stage 0 i R p n k v s"
    using S by (simp add: at_stage_def stage_def sees_def v_def view_of_def flip: q_def)
  from run_stages [OF S(5) k this S(2-4) assms(4) run]
  have t: "sees p n (vr_used R) (w_mem t) (stage m k v)" using assms(5) by (simp add: at_stage_def)
  note flight = settled_stage [OF k n S(10,8), of m]
  have r': "w_mem r = w_mem t" "inflight_on r" "i < length (d_vq r)" "vq_inuse (d_vq r ! i) = 0"
    "vq_ring (d_vq r ! i) = R" "vq_inflight (d_vq r ! i) = p"
    using r by (simp_all add: restarted_def defs)
  obtain bs where bs: "w_ok r = True # True # bs"
    using r by (cases "w_ok r"; cases "tl (w_ok r)") (auto simp: restarted_def)
  have near: "near (in_flight n (settled (stage m k v)))"
    using S(11) unfolding flight(1) near_def by auto
  have ver: "iv_version (stage m k v) \<noteq> 0" using S(7) by (simp add: stage_def Let_def)
  have "\<exists>r'. vu_check_queue_inflights i r = Ret True r' \<and>
      resubmitted (d_vq r' ! i) = sorted_list_of_set (in_flight n (settled (stage m k v)))"
    by (rule check_spec [OF r'(2,3,6) _ _ r'(4) _ S(5) ver flight(3) flight(2) near bs])
      (use r' t S(1) in \<open>simp_all add: pushable_def\<close>)
  moreover have "iv_ring (stage m k v) = used_idx (w_mem t) (vr_used R)" "iv_ring v = used_idx (w_mem s) (vr_used R)"
    "iv_counter v k = if_counter (w_mem s) p k"
    using t by (simp_all add: sees_def v_def view_of_def)
  ultimately show ?thesis unfolding Let_def defs flight(1) by (simp only:)
qed

text \<open>An example: descriptor 3 of a queue with 8 is in flight, and the backend is killed right
  after it has announced it.\<close>

definition demo_buffer :: hmem where
  "demo_buffer = (\<lambda>_. NUL)(65544 := CHR 0x01, 65546 := CHR 0x08, 65600 := CHR 0x01)"

definition demo_crash :: vst where
  "demo_crash = demo_guest\<lparr>d_vq := [vq_init\<lparr>vq_ring := demo_ring, vq_inflight := 65536, vq_inuse := 1\<rparr>],
     d_protocol_features := push_bit 12 1, w_mem := demo_buffer, w_ok := [True, True]\<rparr>"

definition demo_restart :: "hmem \<Rightarrow> vst" where
  "demo_restart hm = demo_crash\<lparr>d_vq := [vq_init\<lparr>vq_ring := demo_ring, vq_inflight := 65536\<rparr>], w_mem := hm\<rparr>"

lemma disjoint_intervals:
  assumes "unat b + k \<le> unat a" and "unat a + n \<le> 2 ^ 64"
  shows "disjoint_ranges a n b k"
proof -
  have "a + of_nat i \<noteq> b + of_nat j" if "i < n" "j < k" for i j
  proof
    assume "a + of_nat i = b + of_nat j"
    then have "unat (a + of_nat i) = unat (b + of_nat j)" by simp
    then show False using that assms by (simp add: unat_word_ariths unat_of_nat)
  qed
  then show ?thesis by (simp add: disjoint_ranges_def)
qed

lemma demo_flags: "if_flag demo_buffer 65536 j = (if j = 3 then 1 else 0)" if "j < 8"
proof -
  have "j \<in> {0, 1, 2, 3, 4, 5, 6, 7}" using that by auto
  then show ?thesis by (auto simp: if_flag_def if_flag_addr_def demo_buffer_def)
qed

lemma one_desc_walk:
  assumes "d_flags (desc k) = 0" and "0 < n" and "0 < max_num"
  shows "log_fill_loop n desc max_num 0 len k = vret ()"
  using assms by (cases n) (auto simp: has_flag_def virtqueue_read_next_desc_def vwhen_def vseq_def Let_def)

lemma demo_fill:
  "vu_queue_fill 0 3 17 0 demo_crash = Ret () (demo_crash\<lparr>w_mem := set_used_len 12288 0 17 (set_used_id 12288 0 3 demo_buffer)\<rparr>)"
proof -
  have d: "d_flags (desc_at demo_buffer 4096 3) = 0"
    by (simp add: desc_at_def ld16_def ld_bytes_def upt_rec demo_buffer_def sizeof_vring_desc_def)
  then have "\<not> has_flag (desc_at demo_buffer 4096 3) VRING_DESC_F_INDIRECT" by (simp add: has_flag_def)
  then have "vu_log_queue_fill 0 3 17 demo_crash = Ret () demo_crash"
    by (simp add: vu_log_queue_fill_def demo_crash_def demo_guest_def demo_dev_def demo_ring_def vq_get_def vbind_def vget_def
        one_desc_walk [where desc = "desc_at demo_buffer 4096" and k = 3, OF d] vret_def Let_def)
  then show ?thesis
    by (simp add: vu_queue_fill_def vseq_def vbind_def)
      (simp add: demo_crash_def demo_guest_def demo_dev_def demo_ring_def vq_init_def vq_get_def vget_def
        vring_used_write_def need_ptr_def set_mem_def vu_log_write_def vseq_def vbind_def vmod_def vret_def Let_def)
qed

lemma demo_in_service: "in_service 0 8 demo_crash"
proof -
  have "disjoint_ranges 65536 144 12288 68" by (rule disjoint_intervals) simp_all
  moreover have "{j. j < 8 \<and> if_flag demo_buffer 65536 j = 1} = {3}" by (auto simp: demo_flags split: if_splits)
  then have "in_flight 8 (view_of demo_buffer 65536 12288) = {Inflight_desc 3 (if_counter demo_buffer 65536 3)}"
    by (simp add: in_flight_def view_of_def)
  moreover have "flags_ok 8 (view_of demo_buffer 65536 12288)" by (simp add: flags_ok_def view_of_def demo_flags)
  moreover have "if_desc_num demo_buffer 65536 = 8" "if_version demo_buffer 65536 = 1" "if_used_idx demo_buffer 65536 = 0"
    "used_idx demo_buffer 12288 = 0"
    by (simp_all add: if_defs used_idx_def ld16_def ld_bytes_def upt_rec demo_buffer_def)
  ultimately show ?thesis
    by (simp add: in_service_def Let_def pushable_def demo_crash_def demo_guest_def demo_dev_def demo_ring_def vq_init_def
        live_regions_def low_region_def inflight_on_def if_layout_def near_def view_of_def)
qed

lemma demo_crash_run: "\<exists>t. vall (take 3 (push_steps 0 3 17)) demo_crash = Ret () t \<and> \<not> d_broken t"
proof -
  have p0: "pushable 0 demo_ring 65536 demo_crash" and b0: "\<not> d_broken demo_crash"
    using demo_in_service by (simp_all add: in_service_def Let_def demo_crash_def vq_init_def)
  define t1 where "t1 = demo_crash\<lparr>w_mem := set_used_len 12288 0 17 (set_used_id 12288 0 3 demo_buffer)\<rparr>"
  have p1: "pushable 0 demo_ring 65536 t1" using p0 by (simp add: t1_def pushable_def inflight_on_def)
  define t2 where "t2 = t1\<lparr>w_mem := st16 (w_mem t1) (65536 + 12) (of_nat 3)\<rparr>"
  have p2: "pushable 0 demo_ring 65536 t2" using p1 by (simp add: t2_def pushable_def inflight_on_def)
  have b2: "\<not> d_broken t2" using b0 by (simp add: t1_def t2_def)
  have len: "length (push_steps 0 3 17) = 5" and 0: "(push_steps 0 3 17 ! 0) demo_crash = Ret () t1"
    using demo_fill by (simp_all add: push_steps_def t1_def)
  have "take 3 (push_steps 0 3 17) = [push_steps 0 3 17 ! 0, push_steps 0 3 17 ! 1, push_steps 0 3 17 ! 2]"
    by (simp add: push_steps_def)
  then show ?thesis
    using 0 later_steps(1) [OF p1, of 3 17, folded t2_def] later_steps(2) [OF p2, of 3 17] b2
    by (simp add: vseq_def vbind_def vret_def)
qed

theorem push_crash_safe_witness:
  "\<exists>t r'. vall (take 3 (push_steps 0 3 17)) demo_crash = Ret () t \<and>
    vu_check_queue_inflights 0 (demo_restart (w_mem t)) = Ret True r' \<and>
    resubmitted (d_vq r' ! 0) = sorted_list_of_set (in_flight 8 (view_of demo_buffer 65536 12288) -
       (if used_idx (w_mem t) 12288 = used_idx demo_buffer 12288 then {} else {Inflight_desc 3 (if_counter demo_buffer 65536 3)}))"
proof -
  obtain t where t: "vall (take 3 (push_steps 0 3 17)) demo_crash = Ret () t" "\<not> d_broken t"
    using demo_crash_run by blast
  have q: "vq_inflight (d_vq demo_crash ! 0) = 65536" "vr_used (vq_ring (d_vq demo_crash ! 0)) = 12288" "w_mem demo_crash = demo_buffer"
    by (simp_all add: demo_crash_def demo_ring_def)
  have "restarted 0 (d_vq demo_crash ! 0) t (demo_restart (w_mem t))"
    by (simp add: restarted_def demo_restart_def demo_crash_def inflight_on_def vq_init_def)
  from push_crash_safe [OF demo_in_service _ t(1) _ t(2) this] t(1) show ?thesis
    unfolding Let_def q by auto
qed

end
