(* ===== verification/Vu_Notify.thy ===== *)
theory Vu_Notify
  imports Vu_Inflight
begin

text \<open>
  When libvhost-user interrupts the driver (\<^verbatim>\<open>vring_notify\<close>, \<^verbatim>\<open>vu_queue_notify\<close>), with the event
  index negotiated: exactly when the used index has passed the driver's event since the last
  notification.
\<close>

definition event_idx_on :: "vst \<Rightarrow> bool" where
  "event_idx_on s = (d_features s AND push_bit VIRTIO_RING_F_EVENT_IDX 1 \<noteq> 0 \<and>
     d_features s AND push_bit VIRTIO_F_NOTIFY_ON_EMPTY 1 = 0)"

text \<open>The used event, written by the driver behind its avail ring.\<close>

definition used_event :: "hmem \<Rightarrow> vu_ring \<Rightarrow> u16" where
  "used_event hm R = avail_ring hm (vr_avail R) (unat (vr_num R))"

definition owes_interrupt :: "hmem \<Rightarrow> vu_virtq \<Rightarrow> bool" where
  "owes_interrupt hm q = (vq_signalled_valid q \<longrightarrow> passed (vq_signalled_used q) (vq_used_idx q) (used_event hm (vq_ring q)))"

lemma features_eval:
  assumes "event_idx_on s"
  shows "vu_has_feature VIRTIO_RING_F_EVENT_IDX s = Ret True s" "vu_has_feature VIRTIO_F_NOTIFY_ON_EMPTY s = Ret False s"
  using assms
  by (simp_all add: event_idx_on_def vu_has_feature_def has_feature_def VIRTIO_RING_F_EVENT_IDX_def VIRTIO_F_NOTIFY_ON_EMPTY_def vu_defs)

lemma notify_decides:
  assumes "event_idx_on s" and "i < length (d_vq s)" and "vr_avail (vq_ring (d_vq s ! i)) \<noteq> 0"
  shows "vring_notify i s = Ret (owes_interrupt (w_mem s) (d_vq s ! i))
    (s\<lparr>d_vq := (d_vq s)[i := (d_vq s ! i)\<lparr>vq_signalled_valid := True, vq_signalled_used := vq_used_idx (d_vq s ! i)\<rparr>]\<rparr>)"
  using assms features_eval [OF assms(1)]
  by (simp add: vring_notify_def vbind_def vq_get_def vq_upd_def vseq_def vget_def vret_def vring_get_used_event_def
      vring_avail_ring_def need_ptr_def owes_interrupt_def used_event_def need_event_passed)


definition demo_notify :: vst where
  "demo_notify = demo_guest\<lparr>d_vq := [vq_init\<lparr>vq_ring := demo_ring, vq_used_idx := 1, vq_call_fd := 9\<rparr>],
     d_features := push_bit 29 1, w_ok := [True]\<rparr>"


end
