(* ===== verification/Seccomp.thy ===== *)
theory Seccomp
  imports Prelude
begin

text \<open>
  The system-call filter of the container (\<^verbatim>\<open>container_seccomp\<close> of
  project_2/runtime/container.c): the classic-BPF program the function builds, for either of the
  two architectures the file compiles for, and what it decides.  The instruction encodings and
  the evaluation of a filter are the documented kernel interface (\<^verbatim>\<open>linux/filter.h\<close>,
  \<^verbatim>\<open>linux/seccomp.h\<close>): they are the language the code's data is written in, so \<open>bpf\<close> has no
  entry in the map.
\<close>

section \<open>Filters and their evaluation\<close>

record sock_filter =
  sf_code :: u16
  sf_jt :: u8
  sf_jf :: u8
  sf_k :: u32

text \<open>What a filter reads: the call's number, the ABI it was made through, and the remaining
  32-bit words (instruction pointer and arguments) by their offset.\<close>

record seccomp_data =
  sd_nr :: u32
  sd_arch :: u32
  sd_rest :: "nat \<Rightarrow> u32"

definition BPF_LD :: u16 where "BPF_LD = 0x00"
definition BPF_JMP :: u16 where "BPF_JMP = 0x05"
definition BPF_RET :: u16 where "BPF_RET = 0x06"
definition BPF_W :: u16 where "BPF_W = 0x00"
definition BPF_ABS :: u16 where "BPF_ABS = 0x20"
definition BPF_JEQ :: u16 where "BPF_JEQ = 0x10"
definition BPF_K :: u16 where "BPF_K = 0x00"

definition BPF_STMT :: "u16 \<Rightarrow> u32 \<Rightarrow> sock_filter" where
  "BPF_STMT code k = \<lparr> sf_code = code, sf_jt = 0, sf_jf = 0, sf_k = k \<rparr>"

definition BPF_JUMP :: "u16 \<Rightarrow> u32 \<Rightarrow> u8 \<Rightarrow> u8 \<Rightarrow> sock_filter" where
  "BPF_JUMP code k jt jf = \<lparr> sf_code = code, sf_jt = jt, sf_jf = jf, sf_k = k \<rparr>"

definition sd_load :: "seccomp_data \<Rightarrow> u32 \<Rightarrow> u32" where
  "sd_load d k = (if k = 0 then sd_nr d else if k = 4 then sd_arch d else sd_rest d (unat k))"

text \<open>Evaluation from an instruction on, with the accumulator; \<open>None\<close> where the program falls
  off its end or has an instruction the filter does not use.\<close>

function bpf :: "seccomp_data \<Rightarrow> u32 \<Rightarrow> sock_filter list \<Rightarrow> u32 option" where
  "bpf d a [] = None"
| "bpf d a (i # is) =
    (if sf_code i = BPF_RET OR BPF_K then Some (sf_k i)
     else if sf_code i = BPF_LD OR BPF_W OR BPF_ABS then bpf d (sd_load d (sf_k i)) is
     else if sf_code i = BPF_JMP OR BPF_JEQ OR BPF_K
       then bpf d a (drop (unat (if a = sf_k i then sf_jt i else sf_jf i)) is)
     else None)"
  by pat_completeness auto
termination by (relation "measure (\<lambda>(d, a, is). length is)") auto

section \<open>The filter\<close>

text \<open>The architectures of the \<^verbatim>\<open>#if\<close>, and the numbers their \<^verbatim>\<open>asm/unistd.h\<close> gives the denied
  calls, in the order of the array.\<close>

datatype arch = X86_64 | AARCH64

fun SECCOMP_ARCH :: "arch \<Rightarrow> u32" where
  "SECCOMP_ARCH X86_64 = 0xC000003E"
| "SECCOMP_ARCH AARCH64 = 0xC00000B7"

fun denied :: "arch \<Rightarrow> u32 list" where
  "denied X86_64 = [101, 165, 166, 155, 161, 308, 272, 169, 167, 168, 246, 175, 313, 176]"
| "denied AARCH64 = [117, 40, 39, 41, 51, 268, 97, 142, 224, 225, 104, 105, 273, 106]"

definition SECCOMP_RET_KILL_PROCESS :: u32 where "SECCOMP_RET_KILL_PROCESS = 0x80000000"
definition SECCOMP_RET_ERRNO :: u32 where "SECCOMP_RET_ERRNO = 0x00050000"
definition SECCOMP_RET_ALLOW :: u32 where "SECCOMP_RET_ALLOW = 0x7fff0000"
definition SECCOMP_RET_DATA :: u32 where "SECCOMP_RET_DATA = 0x0000ffff"
definition EPERM :: u32 where "EPERM = 1"

text \<open>The two instructions of one denied call: skip the return unless the number matches.\<close>

definition deny_call :: "u32 \<Rightarrow> sock_filter list" where
  "deny_call n =
    [BPF_JUMP (BPF_JMP OR BPF_JEQ OR BPF_K) n 0 1,
     BPF_STMT (BPF_RET OR BPF_K) (SECCOMP_RET_ERRNO OR (EPERM AND SECCOMP_RET_DATA))]"

definition seccomp_filter :: "arch \<Rightarrow> sock_filter list" where
  "seccomp_filter ar =
    [BPF_STMT (BPF_LD OR BPF_W OR BPF_ABS) 4,
     BPF_JUMP (BPF_JMP OR BPF_JEQ OR BPF_K) (SECCOMP_ARCH ar) 1 0,
     BPF_STMT (BPF_RET OR BPF_K) SECCOMP_RET_KILL_PROCESS,
     BPF_STMT (BPF_LD OR BPF_W OR BPF_ABS) 0]
    @ concat (map deny_call (denied ar))
    @ [BPF_STMT (BPF_RET OR BPF_K) SECCOMP_RET_ALLOW]"

section \<open>What it decides\<close>

text \<open>One evaluation step per kind of instruction.\<close>

lemma bpf_code_values:
  "BPF_LD OR BPF_W OR BPF_ABS = 0x20" "BPF_RET OR BPF_K = 6" "BPF_JMP OR BPF_JEQ OR BPF_K = 0x15"
  by (simp_all add: BPF_LD_def BPF_W_def BPF_ABS_def BPF_RET_def BPF_K_def BPF_JMP_def BPF_JEQ_def)

lemma bpf_ret: "bpf d a (BPF_STMT (BPF_RET OR BPF_K) k # is) = Some k"
  by (simp add: BPF_STMT_def)

lemma bpf_load: "bpf d a (BPF_STMT (BPF_LD OR BPF_W OR BPF_ABS) k # is) = bpf d (sd_load d k) is"
  by (simp add: BPF_STMT_def bpf_code_values)

lemma bpf_jeq: "bpf d a (BPF_JUMP (BPF_JMP OR BPF_JEQ OR BPF_K) k jt jf # is) =
    bpf d a (drop (unat (if a = k then jt else jf)) is)"
  by (simp add: BPF_JUMP_def bpf_code_values)

lemmas bpf_steps = bpf_ret bpf_load bpf_jeq

declare bpf.simps(2) [simp del]

definition deny_errno :: u32 where
  "deny_errno = SECCOMP_RET_ERRNO OR EPERM"

lemma deny_errno_eq: "SECCOMP_RET_ERRNO OR (EPERM AND SECCOMP_RET_DATA) = deny_errno"
  by (simp add: deny_errno_def EPERM_def SECCOMP_RET_DATA_def SECCOMP_RET_ERRNO_def)

text \<open>A chain of denials returns at the first number that matches and otherwise goes on.\<close>

lemma bpf_deny: "bpf d a (concat (map deny_call ns) @ is) =
    (if a \<in> set ns then Some deny_errno else bpf d a is)"
proof (induction ns)
  case (Cons n ns)
  then show ?case by (simp add: deny_call_def bpf_steps deny_errno_eq del: SECCOMP_ARCH.simps)
qed simp

lemma seccomp_decides:
  "bpf d 0 (seccomp_filter ar) = Some
    (if sd_arch d \<noteq> SECCOMP_ARCH ar then SECCOMP_RET_KILL_PROCESS
     else if sd_nr d \<in> set (denied ar) then deny_errno
     else SECCOMP_RET_ALLOW)"
  by (simp add: seccomp_filter_def bpf_steps sd_load_def bpf_deny)

text \<open>C33: The seccomp filter of the container decides every system call, on both architectures:
  one made through a foreign ABI kills the process, one of the fourteen denied numbers fails
  with EPERM, and every other call is allowed; evaluation never leaves the program.\<close>

theorem seccomp_filter_decides:
  "bpf d 0 (seccomp_filter ar) = Some
    (if sd_arch d \<noteq> SECCOMP_ARCH ar then SECCOMP_RET_KILL_PROCESS
     else if sd_nr d \<in> set (denied ar) then deny_errno
     else SECCOMP_RET_ALLOW)"
  by (rule seccomp_decides)

text \<open>The array \<^verbatim>\<open>filter[4 + 2 * N + 1]\<close> is filled exactly.\<close>

lemma seccomp_filter_length: "length (seccomp_filter ar) = 4 + 2 * length (denied ar) + 1"
proof -
  have "length (concat (map deny_call ns)) = 2 * length ns" for ns
    by (induction ns) (simp_all add: deny_call_def)
  then show ?thesis by (simp add: seccomp_filter_def)
qed

lemma denied_fourteen: "length (denied ar) = 14 \<and> distinct (denied ar)"
  by (cases ar) simp_all

text \<open>On x86-64 the kernel also takes the x32 numbering of the same calls: the number with bit
  30 set, through the same \<^verbatim>\<open>AUDIT_ARCH_X86_64\<close>.\<close>

definition x32 :: "u32 \<Rightarrow> u32" where
  "x32 n = n OR 0x40000000"

text \<open>The denylist compares the whole number, so on x86-64 the x32 alias of every denied
  call, which has the same architecture word, is allowed by the filter.\<close>

theorem x32_not_denied:
  assumes "n \<in> set (denied X86_64)" and "sd_arch d = SECCOMP_ARCH X86_64" and "sd_nr d = x32 n"
  shows "bpf d 0 (seccomp_filter X86_64) = Some SECCOMP_RET_ALLOW"
proof -
  have "x32 n \<notin> set (denied X86_64)" using assms(1) by (auto simp: x32_def)
  then show ?thesis using assms(2,3) by (simp add: seccomp_decides del: denied.simps SECCOMP_ARCH.simps)
qed

theorem x32_not_denied_witness:
  "bpf \<lparr> sd_nr = x32 165, sd_arch = SECCOMP_ARCH X86_64, sd_rest = \<lambda>_. 0 \<rparr> 0 (seccomp_filter X86_64)
    = Some SECCOMP_RET_ALLOW"
  by (rule x32_not_denied [of 165]) simp_all

end
