(* ===== verification/Posix.thy ===== *)
theory Posix
  imports Seccomp CText "HOL-Library.State_Monad"
begin

text \<open>
  A process seen from its system calls, for the container runtime and the function runner.  The kernel is not code of
  this repository: its answers are an arbitrary sequence, one per call, and a process state
  records every call with the answer it got.  A theorem about all states is a theorem about
  everything the kernel may answer.  The monad is the library's state monad; \<open>all_ok\<close> is the
  idiom \<^verbatim>\<open>if (step < 0) return -1;\<close> repeated.
\<close>

section \<open>System calls and answers\<close>

text \<open>\<^verbatim>\<open>struct ifreq\<close>: the name, and the union, in which the address family and the interface
  flags are the same two bytes.\<close>

record ifreq =
  ifr_name :: string
  ifr_flags :: u16
  ifr_sin_addr :: u32

record rtentry =
  rt_gateway :: u32
  rt_flags :: u16

text \<open>The calls; a \<^verbatim>\<open>fork\<close> is tagged with the command its child goes on to execute.\<close>

datatype sysc =
    Open string u32
  | Close int
  | Read int nat
  | Write int string
  | Mkdir string u32
  | Rmdir string
  | Getuid
  | Getgid
  | Sethostname string nat
  | Socket
  | Ioctl int u32 ifreq
  | Ioctl_route int u32 rtentry
  | Mount "string option" string "string option" u64
  | Chdir string
  | Pivot_root string string
  | Umount2 string u32
  | Prctl u32 u64
  | Capset u32 "(u32 \<times> u32 \<times> u32) list"
  | Seccomp_filter "sock_filter list"
  | Fork "string list"
  | Clone int u64
  | Execvp string "string list"
  | Waitpid int
  | Pipe
  | Malloc nat
  | Free int
  | Dup2 int int
  | Perror string int
  | Stderr string
  | Stdout string
  | Socket_stream
  | Setsockopt int
  | Fcntl int u32 int
  | Connect int u32 u16
  | Bind int u16
  | Listen int nat
  | Accept int

text \<open>An answer: the value returned (a pointer for \<^verbatim>\<open>malloc\<close>), the error number, and the two words
  the call may store (wait status, interface flags, the descriptors of a pipe), and the bytes read.\<close>

record sysr =
  ret :: int
  err :: int
  out1 :: u32
  out2 :: u32
  data :: string

record kst =
  answers :: "nat \<Rightarrow> sysr"
  calls :: "(sysc \<times> sysr) list"
  errno :: int

type_synonym 'a os = "(kst, 'a) state"

definition sys :: "sysc \<Rightarrow> sysr os" where
  "sys c = State (\<lambda>s. let r = answers s (length (calls s)) in
     (r, s\<lparr>calls := calls s @ [(c, r)], errno := if ret r < 0 then err r else errno s\<rparr>))"

definition get_errno :: "int os" where
  "get_errno = State (\<lambda>s. (errno s, s))"

text \<open>A call whose answer nobody looks at.\<close>

definition emit :: "sysc \<Rightarrow> unit os" where
  "emit c = State (\<lambda>s. ((), s\<lparr>calls := calls s @ [(c, answers s (length (calls s)))]\<rparr>))"

definition perror :: "string \<Rightarrow> unit os" where
  "perror m = do { e \<leftarrow> get_errno; emit (Perror m e) }"

text \<open>A call of which only failure matters, without and with a message.\<close>

definition call :: "sysc \<Rightarrow> int os" where
  "call c = do { r \<leftarrow> sys c; State_Monad.return (if ret r < 0 then -1 else 0) }"

definition call_msg :: "sysc \<Rightarrow> string \<Rightarrow> int os" where
  "call_msg c m = do { r \<leftarrow> sys c;
     if ret r < 0 then do { perror m; State_Monad.return (-1) } else State_Monad.return 0 }"

fun all_ok :: "int os list \<Rightarrow> int os" where
  "all_ok [] = State_Monad.return 0"
| "all_ok (m # ms) = do { r \<leftarrow> m; if r < 0 then State_Monad.return (-1) else all_ok ms }"

section \<open>Library functions and constants\<close>

text \<open>\<^verbatim>\<open>snprintf\<close> into a buffer of \<open>n\<close> bytes cuts the text.\<close>

definition snprintf :: "nat \<Rightarrow> string \<Rightarrow> string" where
  "snprintf n t = take (n - 1) t"

definition WIFEXITED :: "u32 \<Rightarrow> bool" where
  "WIFEXITED st = (st AND 0x7f = 0)"

definition WEXITSTATUS :: "u32 \<Rightarrow> int" where
  "WEXITSTATUS st = uint (drop_bit 8 st AND 0xff)"

definition WIFSIGNALED :: "u32 \<Rightarrow> bool" where
  "WIFSIGNALED st = (st AND 0x7f \<noteq> 0 \<and> st AND 0x7f \<noteq> 0x7f)"

definition WTERMSIG :: "u32 \<Rightarrow> int" where
  "WTERMSIG st = uint (st AND 0x7f)"

text \<open>The status words the kernel stores: of a process that exits with a value, and of one killed
  by a signal.\<close>

definition exit_word :: "int \<Rightarrow> u32" where
  "exit_word v = push_bit 8 (word_of_int v AND 0xff)"

definition signal_word :: "nat \<Rightarrow> u32" where
  "signal_word g = of_nat g"

text \<open>\<^verbatim>\<open>inet_pton(AF_INET)\<close>: four decimal numbers up to 255 without leading zeros; the value is
  the word whose bytes in memory are the four numbers.\<close>

fun pton_octets :: "nat \<Rightarrow> nat \<Rightarrow> bool \<Rightarrow> string \<Rightarrow> nat list option" where
  "pton_octets k v saw [] = (if k = 3 \<and> saw then Some [v] else None)"
| "pton_octets k v saw (c # cs) =
    (if is_digit c then
       (if saw \<and> v = 0 then None
        else if 255 < 10 * v + digit_val c then None
        else pton_octets k (10 * v + digit_val c) True cs)
     else if c = CHR ''.'' \<and> saw then
       (if k = 3 then None else map_option (\<lambda>vs. v # vs) (pton_octets (Suc k) 0 False cs))
     else None)"

definition inet_pton :: "string \<Rightarrow> u32 option" where
  "inet_pton t = map_option (\<lambda>vs. of_nat (foldr (\<lambda>b n. b + 256 * n) vs 0)) (pton_octets 0 0 False t)"

definition htonl :: "u32 \<Rightarrow> u32" where
  "htonl w = push_bit 24 (w AND 0xff) OR push_bit 8 (w AND 0xff00)
    OR drop_bit 8 (w AND 0xff0000) OR drop_bit 24 w"

section \<open>Runs\<close>

named_theorems os_run "evaluation of the process monad"

lemma run_sys [os_run]: "run_state (sys c) s =
    (answers s (length (calls s)),
     s\<lparr>calls := calls s @ [(c, answers s (length (calls s)))],
       errno := if ret (answers s (length (calls s))) < 0 then err (answers s (length (calls s))) else errno s\<rparr>)"
  by (simp add: sys_def Let_def)

lemma run_emit [os_run]: "run_state (emit c) s =
    ((), s\<lparr>calls := calls s @ [(c, answers s (length (calls s)))]\<rparr>)"
  by (simp add: emit_def)

lemma run_get_errno [os_run]: "run_state get_errno s = (errno s, s)"
  by (simp add: get_errno_def)

lemma run_bind [os_run]: "run_state (State_Monad.bind m f) s =
    (case run_state m s of (a, s') \<Rightarrow> run_state (f a) s')"
  by (simp add: State_Monad.bind_def)

declare State_Monad.run_state_return [os_run]

lemma run_if [os_run]: "run_state (if b then m else n) s = (if b then run_state m s else run_state n s)"
  by simp

lemma run_perror [os_run]: "run_state (perror m) s =
    ((), s\<lparr>calls := calls s @ [(Perror m (errno s), answers s (length (calls s)))]\<rparr>)"
  by (simp add: perror_def os_run)

section \<open>Effects\<close>

text \<open>
  What the outside sees of a record of calls: the successful calls that change something, in
  order, a complete write to an opened file as one effect.  The dropping of capabilities is best
  effort in the code, so an attempt counts; a directory that is already there, or already gone,
  counts as made, or removed.
\<close>

definition O_WRONLY :: u32 where "O_WRONLY = 1"
definition O_CREAT :: u32 where "O_CREAT = 0x40"
definition O_CLOEXEC :: u32 where "O_CLOEXEC = 0x80000"
definition ENOENT :: int where "ENOENT = 2"
definition EEXIST :: int where "EEXIST = 17"
definition PR_CAPBSET_DROP :: u32 where "PR_CAPBSET_DROP = 24"
definition PR_SET_NO_NEW_PRIVS :: u32 where "PR_SET_NO_NEW_PRIVS = 38"

datatype effect = Wrote string string | Sent int string | Did sysc

fun opens :: "(int \<rightharpoonup> string) \<Rightarrow> sysc \<times> sysr \<Rightarrow> (int \<rightharpoonup> string)" where
  "opens t (Open p f, a) = (if ret a < 0 then t else t(ret a \<mapsto> p))"
| "opens t (Close fd, a) = t(fd := None)"
| "opens t _ = t"

definition quiet :: "sysc \<Rightarrow> bool" where
  "quiet c = (case c of Open _ _ \<Rightarrow> True | Close _ \<Rightarrow> True | Read _ _ \<Rightarrow> True | Getuid \<Rightarrow> True | Getgid \<Rightarrow> True
     | Socket \<Rightarrow> True | Ioctl _ _ _ \<Rightarrow> True | Ioctl_route _ _ _ \<Rightarrow> True | Malloc _ \<Rightarrow> True | Free _ \<Rightarrow> True
     | Dup2 _ _ \<Rightarrow> True | Perror _ _ \<Rightarrow> True | Stderr _ \<Rightarrow> True | Waitpid _ \<Rightarrow> True | _ \<Rightarrow> False)"

fun effect_of :: "(int \<rightharpoonup> string) \<Rightarrow> sysc \<times> sysr \<Rightarrow> effect list" where
  "effect_of t (Write fd v, a) = (if ret a = int (length v)
     then [case t fd of Some p \<Rightarrow> Wrote p v | None \<Rightarrow> Sent fd v] else [])"
| "effect_of t (Prctl p x, a) = (if p = PR_CAPBSET_DROP \<or> 0 \<le> ret a then [Did (Prctl p x)] else [])"
| "effect_of t (Mkdir p m, a) = (if 0 \<le> ret a \<or> err a = EEXIST then [Did (Mkdir p m)] else [])"
| "effect_of t (Rmdir p, a) = (if 0 \<le> ret a \<or> err a = ENOENT then [Did (Rmdir p)] else [])"
| "effect_of t (c, a) = (if 0 \<le> ret a \<and> \<not> quiet c then [Did c] else [])"

fun effects :: "(int \<rightharpoonup> string) \<Rightarrow> (sysc \<times> sysr) list \<Rightarrow> effect list" where
  "effects t [] = []"
| "effects t (x # xs) = effect_of t x @ effects (opens t x) xs"

lemma effects_append: "effects t (xs @ ys) = effects t xs @ effects (foldl opens t xs) ys"
  by (induction xs arbitrary: t) auto

text \<open>
  What a piece of code does, whatever it is answered: its effects are a beginning of the list
  \<open>es\<close>, all of it when the code returns a nonnegative value, and it closes what it opens.
\<close>

definition does_at :: "kst \<Rightarrow> effect list \<Rightarrow> int os \<Rightarrow> bool" where
  "does_at s es m = (\<exists>xs. calls (snd (run_state m s)) = calls s @ xs
     \<and> foldl opens Map.empty xs = Map.empty
     \<and> (\<exists>fs. es = effects Map.empty xs @ fs)
     \<and> (0 \<le> fst (run_state m s) \<longrightarrow> effects Map.empty xs = es))"

definition does :: "effect list \<Rightarrow> int os \<Rightarrow> bool" where
  "does es m = (\<forall>s. does_at s es m)"

definition silent :: "'a os \<Rightarrow> bool" where
  "silent m = (\<forall>s. \<exists>xs. calls (snd (run_state m s)) = calls s @ xs
     \<and> foldl opens Map.empty xs = Map.empty \<and> effects Map.empty xs = [])"

lemma doesI:
  assumes "\<And>s. \<exists>xs. calls (snd (run_state m s)) = calls s @ xs
     \<and> foldl opens Map.empty xs = Map.empty
     \<and> (\<exists>fs. es = effects Map.empty xs @ fs)
     \<and> (0 \<le> fst (run_state m s) \<longrightarrow> effects Map.empty xs = es)"
  shows "does es m"
  using assms by (simp add: does_def does_at_def)

lemma does_atE:
  assumes "does_at s es m" and "run_state m s = (r, s1)"
  obtains xs fs where "calls s1 = calls s @ xs" "foldl opens Map.empty xs = Map.empty"
    "es = effects Map.empty xs @ fs" "0 \<le> r \<Longrightarrow> effects Map.empty xs = es"
  using assms unfolding does_at_def by (metis fst_conv snd_conv)

lemma does_at: "does es m \<Longrightarrow> does_at s es m"
  by (simp add: does_def)

lemmas doesE = does_atE [OF does_at]

lemma silentE:
  assumes "silent m" and "run_state m s = (r, s1)"
  obtains xs where "calls s1 = calls s @ xs" "foldl opens Map.empty xs = Map.empty"
    "effects Map.empty xs = []"
  using assms unfolding silent_def by (metis snd_conv)

lemma does_bind_ok:
  assumes m: "does es m" and n: "does fs n"
  shows "does (es @ fs) (do { r \<leftarrow> m; if r < 0 then State_Monad.return (-1) else n })"
proof (rule doesI)
  fix s :: kst
  obtain r s1 where r: "run_state m s = (r, s1)" by force
  from doesE [OF m r] obtain xs gs where xs: "calls s1 = calls s @ xs" "foldl opens Map.empty xs = Map.empty"
      "es = effects Map.empty xs @ gs" "0 \<le> r \<Longrightarrow> effects Map.empty xs = es" by blast
  obtain q s2 where q: "run_state n s1 = (q, s2)" by force
  from doesE [OF n q] obtain zs hs where zs: "calls s2 = calls s1 @ zs" "foldl opens Map.empty zs = Map.empty"
      "fs = effects Map.empty zs @ hs" "0 \<le> q \<Longrightarrow> effects Map.empty zs = fs" by blast
  let ?m = "do { r \<leftarrow> m; if r < 0 then State_Monad.return (-1) else n }"
  have run: "run_state ?m s = (if r < 0 then (-1, s1) else (q, s2))"
    by (simp add: os_run r q)
  show "\<exists>xs. calls (snd (run_state ?m s)) = calls s @ xs
     \<and> foldl opens Map.empty xs = Map.empty
     \<and> (\<exists>gs. es @ fs = effects Map.empty xs @ gs)
     \<and> (0 \<le> fst (run_state ?m s) \<longrightarrow> effects Map.empty xs = es @ fs)"
  proof (cases "r < 0")
    case True
    then show ?thesis unfolding run using xs by (intro exI [of _ xs]) auto
  next
    case False
    then have e: "effects Map.empty xs = es" using xs(4) by simp
    have "effects Map.empty (xs @ zs) = es @ effects Map.empty zs"
      by (simp add: effects_append xs(2) e)
    moreover have "foldl opens Map.empty (xs @ zs) = Map.empty" by (simp add: xs(2) zs(2))
    ultimately show ?thesis unfolding run using False xs(1) zs
      by (intro exI [of _ "xs @ zs"]) (simp add: fst_conv snd_conv)
  qed
qed

lemma does_return: "does [] (State_Monad.return r)"
  by (simp add: does_def does_at_def)

lemma does_all_ok:
  "list_all2 does ess ms \<Longrightarrow> does (concat ess) (all_ok ms)"
  by (induction rule: list_all2_induct) (auto intro: does_return does_bind_ok)

lemma silent_bind:
  assumes "silent m" and "\<And>a. silent (f a)"
  shows "silent (State_Monad.bind m f)"
proof (unfold silent_def, rule allI)
  fix s :: kst
  obtain a s1 where r: "run_state m s = (a, s1)" by force
  from silentE [OF assms(1) r] obtain xs where xs: "calls s1 = calls s @ xs"
      "foldl opens Map.empty xs = Map.empty" "effects Map.empty xs = []" by blast
  obtain b s2 where q: "run_state (f a) s1 = (b, s2)" by force
  from silentE [OF assms(2) q] obtain zs where zs: "calls s2 = calls s1 @ zs"
      "foldl opens Map.empty zs = Map.empty" "effects Map.empty zs = []" by blast
  show "\<exists>xs. calls (snd (run_state (State_Monad.bind m f) s)) = calls s @ xs
     \<and> foldl opens Map.empty xs = Map.empty \<and> effects Map.empty xs = []"
    using xs zs by (intro exI [of _ "xs @ zs"]) (auto simp: os_run r q effects_append)
qed

lemma does_after_silent:
  assumes "silent m" and "\<And>a. does es (f a)"
  shows "does es (State_Monad.bind m f)"
proof (rule doesI)
  fix s :: kst
  obtain a s1 where r: "run_state m s = (a, s1)" by force
  from silentE [OF assms(1) r] obtain xs where xs: "calls s1 = calls s @ xs"
      "foldl opens Map.empty xs = Map.empty" "effects Map.empty xs = []" by blast
  obtain q s2 where q: "run_state (f a) s1 = (q, s2)" by force
  from doesE [OF assms(2) q] obtain zs gs where zs: "calls s2 = calls s1 @ zs" "foldl opens Map.empty zs = Map.empty"
      "es = effects Map.empty zs @ gs" "0 \<le> q \<Longrightarrow> effects Map.empty zs = es" by blast
  show "\<exists>xs. calls (snd (run_state (State_Monad.bind m f) s)) = calls s @ xs
     \<and> foldl opens Map.empty xs = Map.empty
     \<and> (\<exists>gs. es = effects Map.empty xs @ gs)
     \<and> (0 \<le> fst (run_state (State_Monad.bind m f) s) \<longrightarrow> effects Map.empty xs = es)"
    using xs zs by (intro exI [of _ "xs @ zs"]) (auto simp: os_run r q effects_append)
qed

lemma silent_does: "silent m \<Longrightarrow> does [] m"
  by (auto simp: silent_def does_def does_at_def)

lemma quiet_effect: "quiet c \<Longrightarrow> effect_of t (c, a) = []"
  by (cases c) (auto simp: quiet_def)

text \<open>A call that is silent opens no file and shows no effect.\<close>

definition mute :: "sysc \<Rightarrow> bool" where
  "mute c = (quiet c \<and> (\<forall>p f. c \<noteq> Open p f))"

lemma mute_opens: "mute c \<Longrightarrow> opens Map.empty (c, a) = Map.empty"
  by (cases c) (auto simp: mute_def)

lemma silent_sys: "mute c \<Longrightarrow> silent (sys c)"
  by (simp add: silent_def os_run mute_opens) (simp add: mute_def quiet_effect)

lemma silent_emit: "mute c \<Longrightarrow> silent (emit c)"
  by (simp add: silent_def os_run mute_opens) (simp add: mute_def quiet_effect)

lemma silent_return: "silent (State_Monad.return a)"
  by (simp add: silent_def)

lemma silent_perror: "silent (perror m)"
  by (simp add: silent_def os_run quiet_def)

lemma silent_errno: "silent get_errno"
  by (simp add: silent_def os_run)

lemma silent_if: "silent m \<Longrightarrow> silent n \<Longrightarrow> silent (if b then m else n)"
  by simp

lemmas silent_intros = silent_bind silent_sys silent_emit silent_return silent_perror silent_errno silent_if

text \<open>A call whose success is one effect.\<close>

definition plain :: "sysc \<Rightarrow> bool" where
  "plain c = (\<forall>t a. effect_of t (c, a) = (if 0 \<le> ret a then [Did c] else []) \<and> opens t (c, a) = t)"

lemma does_call: "plain c \<Longrightarrow> does [Did c] (call c)"
  by (intro doesI) (simp add: call_def os_run plain_def)

lemma does_call_msg: "plain c \<Longrightarrow> does [Did c] (call_msg c m)"
proof (rule doesI)
  fix s :: kst
  assume c: "plain c"
  let ?a = "answers s (length (calls s))"
  let ?xs = "(c, ?a) # (if ret ?a < 0 then [(Perror m (err ?a), answers s (Suc (length (calls s))))] else [])"
  show "\<exists>xs. calls (snd (run_state (call_msg c m) s)) = calls s @ xs
     \<and> foldl opens Map.empty xs = Map.empty
     \<and> (\<exists>fs. [Did c] = effects Map.empty xs @ fs)
     \<and> (0 \<le> fst (run_state (call_msg c m) s) \<longrightarrow> effects Map.empty xs = [Did c])"
    using c by (intro exI [of _ ?xs]) (auto simp: call_msg_def os_run plain_def quiet_def)
qed

text \<open>Code whose effects are all of one kind, whatever it returns.\<close>

definition only :: "(effect \<Rightarrow> bool) \<Rightarrow> 'a os \<Rightarrow> bool" where
  "only P m = (\<forall>s. \<exists>xs. calls (snd (run_state m s)) = calls s @ xs
     \<and> foldl opens Map.empty xs = Map.empty \<and> (\<forall>e \<in> set (effects Map.empty xs). P e))"

lemma onlyE:
  assumes "only P m" and "run_state m s = (r, s1)"
  obtains xs where "calls s1 = calls s @ xs" "foldl opens Map.empty xs = Map.empty"
    "\<forall>e \<in> set (effects Map.empty xs). P e"
  using assms unfolding only_def by (metis snd_conv)

lemma only_silent: "silent m \<Longrightarrow> only P m"
  unfolding silent_def only_def by (metis empty_iff empty_set)

lemma only_bind:
  assumes "only P m" and "\<And>a. only P (f a)"
  shows "only P (State_Monad.bind m f)"
proof (unfold only_def, rule allI)
  fix s :: kst
  obtain a s1 where r: "run_state m s = (a, s1)" by force
  from onlyE [OF assms(1) r] obtain xs where xs: "calls s1 = calls s @ xs"
      "foldl opens Map.empty xs = Map.empty" "\<forall>e \<in> set (effects Map.empty xs). P e" by blast
  obtain b s2 where q: "run_state (f a) s1 = (b, s2)" by force
  from onlyE [OF assms(2) q] obtain zs where zs: "calls s2 = calls s1 @ zs"
      "foldl opens Map.empty zs = Map.empty" "\<forall>e \<in> set (effects Map.empty zs). P e" by blast
  show "\<exists>xs. calls (snd (run_state (State_Monad.bind m f) s)) = calls s @ xs
     \<and> foldl opens Map.empty xs = Map.empty \<and> (\<forall>e \<in> set (effects Map.empty xs). P e)"
    using xs zs by (intro exI [of _ "xs @ zs"]) (auto simp: os_run r q effects_append)
qed

lemma only_plain: "plain c \<Longrightarrow> P (Did c) \<Longrightarrow> only P (sys c)"
  by (simp add: only_def os_run plain_def)

lemma only_if: "only P m \<Longrightarrow> only P n \<Longrightarrow> only P (if b then m else n)"
  by simp

lemma only_return: "only P (State_Monad.return a)"
  by (rule only_silent) (rule silent_return)

lemmas only_intros = only_bind only_plain only_if only_return only_silent [OF silent_sys]
  only_silent [OF silent_emit] only_silent [OF silent_perror]

section \<open>Results\<close>

text \<open>Code whose result satisfies a predicate, whatever the answers.\<close>

definition ensures :: "('a \<Rightarrow> bool) \<Rightarrow> 'a os \<Rightarrow> bool" where
  "ensures P m = (\<forall>s. P (fst (run_state m s)))"

lemma ensuresD: "ensures P m \<Longrightarrow> run_state m s = (r, s') \<Longrightarrow> P r"
  unfolding ensures_def by (metis fst_conv)

lemma ensures_bind: "(\<And>a. ensures P (f a)) \<Longrightarrow> ensures P (State_Monad.bind m f)"
  by (simp add: ensures_def run_bind case_prod_beta)

lemma ensures_then: "ensures Q m \<Longrightarrow> (\<And>a. Q a \<Longrightarrow> ensures P (f a)) \<Longrightarrow> ensures P (State_Monad.bind m f)"
  by (simp add: ensures_def run_bind case_prod_beta)

lemma ensures_return: "P a \<Longrightarrow> ensures P (State_Monad.return a)"
  by (simp add: ensures_def)

lemma ensures_if: "(b \<Longrightarrow> ensures P m) \<Longrightarrow> (\<not> b \<Longrightarrow> ensures P n) \<Longrightarrow> ensures P (if b then m else n)"
  by simp

text \<open>Code only adds to the record of calls.\<close>

definition appends :: "'a os \<Rightarrow> bool" where
  "appends m = (\<forall>s. \<exists>xs. calls (snd (run_state m s)) = calls s @ xs)"

lemma appendsD: "appends m \<Longrightarrow> run_state m s = (r, s') \<Longrightarrow> \<exists>xs. calls s' = calls s @ xs"
  unfolding appends_def by (metis snd_conv)

lemma appends_bind:
  assumes "appends m" and "\<And>a. appends (f a)"
  shows "appends (State_Monad.bind m f)"
proof (unfold appends_def, rule allI)
  fix s :: kst
  obtain a s1 where r: "run_state m s = (a, s1)" by force
  obtain b s2 where q: "run_state (f a) s1 = (b, s2)" by force
  show "\<exists>xs. calls (snd (run_state (State_Monad.bind m f) s)) = calls s @ xs"
    using appendsD [OF assms(1) r] appendsD [OF assms(2) q] by (auto simp: run_bind r q)
qed

lemma appends_return: "appends (State_Monad.return a)"
  by (simp add: appends_def)

lemma appends_sys: "appends (sys c)"
  by (simp add: appends_def run_sys)

lemma appends_errno: "appends get_errno"
  by (simp add: appends_def run_get_errno)

lemma appends_if: "appends m \<Longrightarrow> appends n \<Longrightarrow> appends (if b then m else n)"
  by simp

lemmas appends_intros = appends_bind appends_return appends_sys appends_errno appends_if

section \<open>Evaluation against given answers\<close>

text \<open>Run from the \<open>n\<close>-th answer of \<open>A\<close> on, the code returns \<open>r\<close> and has used \<open>k\<close> answers.\<close>

definition gives :: "(nat \<Rightarrow> sysr) \<Rightarrow> nat \<Rightarrow> 'a os \<Rightarrow> 'a \<Rightarrow> nat \<Rightarrow> bool" where
  "gives A n m r k = (\<forall>s. answers s = A \<and> length (calls s) = n \<longrightarrow>
     (\<exists>s'. run_state m s = (r, s') \<and> answers s' = A \<and> length (calls s') = n + k))"

lemma gives_sys: "gives A n (sys c) (A n) 1"
  by (simp add: gives_def os_run)

lemma gives_emit: "gives A n (emit c) () 1"
  by (simp add: gives_def os_run)

lemma gives_return: "gives A n (State_Monad.return r) r 0"
  by (simp add: gives_def)

lemma gives_bind: "gives A n m a k \<Longrightarrow> gives A (n + k) (f a) r l \<Longrightarrow> gives A n (State_Monad.bind m f) r (k + l)"
  unfolding gives_def by (metis (no_types, lifting) add.assoc run_bind prod.case)

lemma gives_seq: "gives A n m a k \<Longrightarrow> gives A (n + k) m' r l \<Longrightarrow> gives A n (State_Monad.bind m (\<lambda>_. m')) r (k + l)"
  by (rule gives_bind)

lemma gives_cong: "gives A n m r k \<Longrightarrow> r = r' \<Longrightarrow> k = k' \<Longrightarrow> gives A n m r' k'"
  by simp

lemma gives_errno: "(\<And>e. gives A n (f e) r k) \<Longrightarrow> gives A n (State_Monad.bind get_errno f) r k"
  by (simp add: gives_def os_run)

lemma gives_call: "0 \<le> ret (A n) \<Longrightarrow> gives A n (call c) 0 1"
  by (simp add: gives_def call_def os_run)

lemma gives_call_msg: "0 \<le> ret (A n) \<Longrightarrow> gives A n (call_msg c m) 0 1"
  by (simp add: gives_def call_msg_def os_run)

lemma gives_all_ok_Nil: "gives A n (all_ok []) 0 0"
  by (simp add: gives_return)

lemma gives_all_ok_Cons:
  assumes "gives A n m 0 k" and "gives A (n + k) (all_ok ms) 0 l"
  shows "gives A n (all_ok (m # ms)) 0 (k + l)"
  unfolding all_ok.simps by (rule gives_bind [OF assms(1)]) (simp add: assms(2))

lemma givesD: "gives A n m r k \<Longrightarrow> answers s = A \<Longrightarrow> length (calls s) = n \<Longrightarrow>
    \<exists>s'. run_state m s = (r, s') \<and> answers s' = A \<and> length (calls s') = n + k"
  unfolding gives_def by blast

end
