(* ===== verification/Container.thy ===== *)
theory Container
  imports Posix
begin

text \<open>
  The container runtime, project_2/runtime: \<^verbatim>\<open>container.c\<close>, \<^verbatim>\<open>net.c\<close> and \<^verbatim>\<open>util.c\<close>, function by
  function, as code of the process monad; a process that replaces itself or ends is a value of
  \<open>proc_end\<close>.  The effects of the parts are stated as lists (\<open>idmap_effects\<close>, \<open>cgroup_effects\<close>,
  \<open>setup_effects\<close>) and each part is shown to do its list, whatever the kernel answers.
\<close>

section \<open>State and constants\<close>

record container =
  argv :: "string list"
  name :: string
  hostname :: string
  rootfs :: string
  pids_max :: int
  mem_max :: int
  cgroup_base :: string
  net_enabled :: bool
  net_ifname :: string
  net_ip :: string
  net_prefix :: int
  net_gw :: string
  sync_r :: int
  sync_w :: int
  cg_path :: string
  net_host_if :: string

definition CONTAINER_STACK_SIZE :: nat where "CONTAINER_STACK_SIZE = 2 ^ 20"
definition CONTAINER_BRIDGE :: string where "CONTAINER_BRIDGE = ''cvbr0''"
definition CONTAINER_BRIDGE_GW :: string where "CONTAINER_BRIDGE_GW = ''10.44.0.1''"
definition PATH_MAX :: nat where "PATH_MAX = 4096"
definition IFNAMSIZ :: nat where "IFNAMSIZ = 16"

definition CLONE_NEWNS :: u64 where "CLONE_NEWNS = 0x00020000"
definition CLONE_NEWUTS :: u64 where "CLONE_NEWUTS = 0x04000000"
definition CLONE_NEWUSER :: u64 where "CLONE_NEWUSER = 0x10000000"
definition CLONE_NEWPID :: u64 where "CLONE_NEWPID = 0x20000000"
definition CLONE_NEWNET :: u64 where "CLONE_NEWNET = 0x40000000"
definition SIGCHLD :: u64 where "SIGCHLD = 17"
definition MS_RDONLY :: u64 where "MS_RDONLY = 1"
definition MS_REMOUNT :: u64 where "MS_REMOUNT = 32"
definition MS_BIND :: u64 where "MS_BIND = 4096"
definition MS_REC :: u64 where "MS_REC = 16384"
definition MS_PRIVATE :: u64 where "MS_PRIVATE = 0x40000"
definition MNT_DETACH :: u32 where "MNT_DETACH = 2"
definition CAP_LAST_CAP :: nat where "CAP_LAST_CAP = 40"
definition CAP_VERSION_3 :: u32 where "CAP_VERSION_3 = 0x20080522"
definition AF_INET :: u16 where "AF_INET = 2"
definition SIOCADDRT :: u32 where "SIOCADDRT = 0x890B"
definition SIOCGIFFLAGS :: u32 where "SIOCGIFFLAGS = 0x8913"
definition SIOCSIFFLAGS :: u32 where "SIOCSIFFLAGS = 0x8914"
definition SIOCSIFADDR :: u32 where "SIOCSIFADDR = 0x8916"
definition SIOCSIFNETMASK :: u32 where "SIOCSIFNETMASK = 0x891C"
definition IFF_UP :: u16 where "IFF_UP = 0x1"
definition IFF_RUNNING :: u16 where "IFF_RUNNING = 0x40"
definition RTF_UP :: u16 where "RTF_UP = 1"
definition RTF_GATEWAY :: u16 where "RTF_GATEWAY = 2"

datatype proc_end = Returns int | Execs string "string list" | Exits int

section \<open>util.c\<close>

definition write_file :: "string \<Rightarrow> string \<Rightarrow> int os" where
  "write_file path v = do {
     fd \<leftarrow> sys (Open path (O_WRONLY OR O_CLOEXEC));
     if ret fd < 0 then do {
       perror (''container: open '' @ [CHR 0x27] @ path @ [CHR 0x27]);
       State_Monad.return (-1)
     } else do {
       w \<leftarrow> sys (Write (ret fd) v);
       e \<leftarrow> get_errno;
       emit (Close (ret fd));
       if ret w < 0 \<or> ret w \<noteq> int (length v) then do {
         emit (Perror (''container: write '' @ [CHR 0x27] @ path @ [CHR 0x27]) e);
         State_Monad.return (-1)
       } else State_Monad.return 0
     }
   }"

section \<open>Namespaces, id maps and the cgroup\<close>

definition container_namespaces :: u64 where
  "container_namespaces = CLONE_NEWUSER OR CLONE_NEWPID OR CLONE_NEWNS OR CLONE_NEWUTS OR CLONE_NEWNET"

definition proc_file :: "int \<Rightarrow> string \<Rightarrow> string" where
  "proc_file child f = ''/proc/'' @ dec_int child @ ''/'' @ f"

definition idmap_line :: "int \<Rightarrow> string" where
  "idmap_line i = ''0 '' @ dec_int i @ '' 1''"

definition container_write_idmaps :: "int \<Rightarrow> int os" where
  "container_write_idmaps child = do {
     uid \<leftarrow> sys Getuid;
     gid \<leftarrow> sys Getgid;
     all_ok [write_file (proc_file child ''uid_map'') (idmap_line (ret uid)),
             write_file (proc_file child ''setgroups'') ''deny'',
             write_file (proc_file child ''gid_map'') (idmap_line (ret gid))]
   }"

definition make_cgroup_dir :: "string \<Rightarrow> int os" where
  "make_cgroup_dir p = do {
     r \<leftarrow> sys (Mkdir p 0x1ED);
     if ret r < 0 then do {
       e \<leftarrow> get_errno;
       if e \<noteq> EEXIST then do { perror ''container: mkdir cgroup''; State_Monad.return (-1) }
       else State_Monad.return 0
     } else State_Monad.return 0
   }"

definition limit_text :: "int \<Rightarrow> string" where
  "limit_text v = (if v < 0 then ''max'' else snprintf 64 (dec_int v))"

definition cg_file :: "string \<Rightarrow> string \<Rightarrow> string" where
  "cg_file dir f = snprintf (PATH_MAX + 64) (dir @ ''/'' @ f)"

definition container_cgroup_init :: "container \<Rightarrow> (int \<times> container) os" where
  "container_cgroup_init c = do {
     r \<leftarrow> write_file (cg_file (cgroup_base c) ''cgroup.subtree_control'') ''+pids +memory'';
     if r < 0 then State_Monad.return (-1, c)
     else do {
       let c = c\<lparr>cg_path := snprintf PATH_MAX (cgroup_base c @ ''/'' @ name c)\<rparr>;
       r \<leftarrow> all_ok [make_cgroup_dir (cg_path c),
                   write_file (cg_file (cg_path c) ''pids.max'') (limit_text (pids_max c)),
                   write_file (cg_file (cg_path c) ''memory.max'') (limit_text (mem_max c)),
                   write_file (cg_file (cg_path c) ''memory.swap.max'') ''0''];
       State_Monad.return (r, c)
     }
   }"

definition container_cgroup_enter :: "container \<Rightarrow> int \<Rightarrow> int os" where
  "container_cgroup_enter c child =
     all_ok [write_file (cg_file (cg_path c) ''cgroup.procs'') (snprintf 32 (dec_int child))]"

definition container_cleanup :: "container \<Rightarrow> int os" where
  "container_cleanup c = do {
     r \<leftarrow> sys (Rmdir (cg_path c));
     if ret r < 0 then do {
       e \<leftarrow> get_errno;
       if e \<noteq> ENOENT then do { perror ''container: rmdir cgroup''; State_Monad.return (-1) }
       else State_Monad.return 0
     } else State_Monad.return 0
   }"

section \<open>The network of the container\<close>

definition ifreq_for :: "string \<Rightarrow> ifreq" where
  "ifreq_for n = \<lparr> ifr_name = take (IFNAMSIZ - 1) n, ifr_flags = 0, ifr_sin_addr = 0 \<rparr>"

definition container_network :: "int os" where
  "container_network = do {
     sock \<leftarrow> sys Socket;
     if ret sock < 0 then do { perror ''container: loopback''; State_Monad.return 0 }
     else do {
       let f = ifreq_for ''lo'';
       g \<leftarrow> sys (Ioctl (ret sock) SIOCGIFFLAGS f);
       if ret g < 0 then do {
         perror ''container: loopback''; emit (Close (ret sock)); State_Monad.return 0 }
       else do {
         let f = f\<lparr>ifr_flags := ucast (out1 g) OR (IFF_UP OR IFF_RUNNING)\<rparr>;
         r \<leftarrow> sys (Ioctl (ret sock) SIOCSIFFLAGS f);
         if ret r < 0 then do {
           perror ''container: loopback''; emit (Close (ret sock)); State_Monad.return 0 }
         else do { emit (Close (ret sock)); State_Monad.return 0 }
       }
     }
   }"

text \<open>The mask of a prefix length, in network order; the shift is defined for lengths 0 to 32
  (the program only uses 24).\<close>

definition netmask :: "int \<Rightarrow> u32" where
  "netmask p = (if p \<noteq> 0 then htonl (push_bit (nat (32 - p)) (- 1)) else 0)"

definition container_net_config :: "container \<Rightarrow> int os" where
  "container_net_config c = do {
     sock \<leftarrow> sys Socket;
     if ret sock < 0 then State_Monad.return (-1)
     else do {
       let fail = do { emit (Close (ret sock)); State_Monad.return (-1) };
       let f = (ifreq_for (net_ifname c))\<lparr>ifr_flags := AF_INET\<rparr>;
       case inet_pton (net_ip c) of None \<Rightarrow> fail
       | Some a \<Rightarrow> do {
         let f = f\<lparr>ifr_sin_addr := a\<rparr>;
         r \<leftarrow> sys (Ioctl (ret sock) SIOCSIFADDR f);
         if ret r < 0 then fail else do {
         let f = f\<lparr>ifr_sin_addr := netmask (net_prefix c)\<rparr>;
         r \<leftarrow> sys (Ioctl (ret sock) SIOCSIFNETMASK f);
         if ret r < 0 then fail else do {
         g \<leftarrow> sys (Ioctl (ret sock) SIOCGIFFLAGS f);
         if ret g < 0 then fail else do {
         let f = f\<lparr>ifr_flags := ucast (out1 g) OR (IFF_UP OR IFF_RUNNING)\<rparr>;
         r \<leftarrow> sys (Ioctl (ret sock) SIOCSIFFLAGS f);
         if ret r < 0 then fail else do {
         case inet_pton (net_gw c) of None \<Rightarrow> fail
         | Some g \<Rightarrow> do {
           r \<leftarrow> sys (Ioctl_route (ret sock) SIOCADDRT
                 \<lparr> rt_gateway = g, rt_flags = RTF_UP OR RTF_GATEWAY \<rparr>);
           if ret r < 0 then fail
           else do { emit (Close (ret sock)); State_Monad.return 0 } } } } } }
       }
     }
   }"

section \<open>Inside the container: setup\<close>

definition container_seccomp :: "arch \<Rightarrow> int os" where
  "container_seccomp ar = all_ok
     [call (Prctl PR_SET_NO_NEW_PRIVS 1), call (Seccomp_filter (seccomp_filter ar))]"

text \<open>The empty files the devices are bound to; a failure to create one shows in the bind.\<close>

definition touch :: "string \<Rightarrow> unit os" where
  "touch p = do {
     fd \<leftarrow> sys (Open p (O_CREAT OR O_WRONLY));
     if 0 \<le> ret fd then emit (Close (ret fd)) else State_Monad.return ()
   }"

definition in_root :: "container \<Rightarrow> string \<Rightarrow> string" where
  "in_root c f = snprintf PATH_MAX (rootfs c @ f)"

fun drop_caps :: "nat list \<Rightarrow> unit os" where
  "drop_caps [] = State_Monad.return ()"
| "drop_caps (k # ks) = do { emit (Prctl PR_CAPBSET_DROP (of_nat k)); drop_caps ks }"

definition container_setup :: "arch \<Rightarrow> container \<Rightarrow> int os" where
  "container_setup ar c = all_ok (
     [call (Sethostname (hostname c) (length (hostname c))), container_network]
     @ (if net_enabled c then [container_net_config c] else [])
     @ [call_msg (Mount None ''/'' None (MS_REC OR MS_PRIVATE)) ''mount private'',
        call (Mount (Some (rootfs c)) (rootfs c) None (MS_BIND OR MS_REC)),
        call (Mount (Some (rootfs c)) (rootfs c) None (MS_BIND OR MS_REMOUNT OR MS_RDONLY)),
        call (Mount (Some ''tmpfs'') (in_root c ''/tmp'') (Some ''tmpfs'') 0),
        call (Mount (Some ''tmpfs'') (in_root c ''/dev'') (Some ''tmpfs'') 0),
        do { touch (in_root c ''/dev/null'');
             call (Mount (Some ''/dev/null'') (in_root c ''/dev/null'') None MS_BIND) },
        do { touch (in_root c ''/dev/zero'');
             call (Mount (Some ''/dev/zero'') (in_root c ''/dev/zero'') None MS_BIND) },
        call (Mount (Some ''proc'') (in_root c ''/proc'') (Some ''proc'') 0),
        call (Chdir (rootfs c)),
        call_msg (Pivot_root ''.'' ''.'') ''pivot_root'',
        call (Umount2 ''.'' MNT_DETACH),
        call (Chdir ''/''),
        do { drop_caps [0..<Suc CAP_LAST_CAP];
             call_msg (Capset CAP_VERSION_3 [(0, 0, 0), (0, 0, 0)]) ''capset'' },
        container_seccomp ar])"

section \<open>Inside the container: init\<close>

definition status_code :: "u32 \<Rightarrow> int" where
  "status_code st = (if WIFEXITED st then WEXITSTATUS st
     else if WIFSIGNALED st then 128 + WTERMSIG st else -1)"

text \<open>The loop that collects every child until the command itself is collected; it need not end.\<close>

partial_function (option) reap :: "int \<Rightarrow> kst \<Rightarrow> (int \<times> kst) option" where
  "reap cmd s = (case run_state (sys (Waitpid (-1))) s of (r, s1) \<Rightarrow>
     if 0 < ret r then
       (if ret r = cmd then Some (status_code (out1 r), s1) else reap cmd s1)
     else Some (-1, s1))"

text \<open>Fork; the child becomes the command, init collects.\<close>

definition container_launch :: "container \<Rightarrow> kst \<Rightarrow> (proc_end \<times> kst) option" where
  "container_launch c s =
    (case run_state (sys (Fork (argv c))) s of (p, s1) \<Rightarrow>
     if ret p < 0 then
       Some (Returns (-1), snd (run_state (perror ''container init: fork'') s1))
     else if ret p = 0 then
       (case run_state (sys (Execvp (hd (argv c)) (argv c))) s1 of (x, s2) \<Rightarrow>
        if 0 \<le> ret x then Some (Execs (hd (argv c)) (argv c), s2)
        else Some (Exits 127, snd (run_state (perror ''container init: execvp'') s2)))
     else map_option (apfst Returns) (reap (ret p) s1))"

definition container_init :: "arch \<Rightarrow> container \<Rightarrow> kst \<Rightarrow> (proc_end \<times> kst) option" where
  "container_init ar c s =
    (case run_state (do { emit (Close (sync_w c)); sys (Read (sync_r c) 1) }) s of (r, s1) \<Rightarrow>
     if ret r \<noteq> 1 then
       Some (Returns (-1), snd (run_state (perror ''container init: read sync'') s1))
     else
       (case run_state (do { emit (Close (sync_r c)); container_setup ar c }) s1 of (q, s2) \<Rightarrow>
        if q < 0 then Some (Returns (-1), s2) else container_launch c s2))"

section \<open>net.c\<close>

text \<open>\<^verbatim>\<open>run_ip\<close> as its caller sees it (the answer to \<^verbatim>\<open>fork\<close> is the new pid), and the process it
  makes.\<close>

definition run_ip_child :: "string list \<Rightarrow> kst \<Rightarrow> proc_end \<times> kst" where
  "run_ip_child av s =
    (case run_state (do {
       null \<leftarrow> sys (Open ''/dev/null'' O_WRONLY);
       (if 0 \<le> ret null then do { emit (Dup2 (ret null) 2); emit (Close (ret null)) }
        else State_Monad.return ());
       sys (Execvp ''ip'' av) }) s of (x, s1) \<Rightarrow>
     if 0 \<le> ret x then (Execs ''ip'' av, s1) else (Exits 127, s1))"

definition run_ip :: "string list \<Rightarrow> int os" where
  "run_ip av = do {
     p \<leftarrow> sys (Fork av);
     if ret p < 0 then State_Monad.return (-1)
     else do {
       w \<leftarrow> sys (Waitpid (ret p));
       if ret w < 0 then State_Monad.return (-1)
       else State_Monad.return (if WIFEXITED (out1 w) then WEXITSTATUS (out1 w) else -1)
     }
   }"

definition ip :: "string list \<Rightarrow> int os" where
  "ip args = run_ip (''ip'' # args)"

definition container_net_host_setup :: "container \<Rightarrow> int \<Rightarrow> (int \<times> container) os" where
  "container_net_host_setup c child = do {
     let cidr = snprintf 64 (CONTAINER_BRIDGE_GW @ ''/'' @ dec_int (net_prefix c));
     let pid = snprintf 16 (dec_int child);
     let c = c\<lparr>net_host_if := snprintf 16 (''vh'' @ dec_int child)\<rparr>;
     let tmp = snprintf 16 (''vc'' @ dec_int child);
     _ \<leftarrow> ip [''link'', ''add'', CONTAINER_BRIDGE, ''type'', ''bridge''];
     _ \<leftarrow> ip [''addr'', ''add'', cidr, ''dev'', CONTAINER_BRIDGE];
     r \<leftarrow> ip [''link'', ''set'', CONTAINER_BRIDGE, ''up''];
     if r \<noteq> 0 then do {
       emit (Stderr (''container: could not bring up bridge '' @ CONTAINER_BRIDGE));
       State_Monad.return (-1, c) }
     else do {
       r \<leftarrow> ip [''link'', ''add'', net_host_if c, ''type'', ''veth'', ''peer'', ''name'', tmp];
       if r \<noteq> 0 then do {
         emit (Stderr ''container: could not create veth pair'');
         State_Monad.return (-1, c) }
       else do {
         _ \<leftarrow> ip [''link'', ''set'', net_host_if c, ''master'', CONTAINER_BRIDGE];
         _ \<leftarrow> ip [''link'', ''set'', net_host_if c, ''up''];
         r \<leftarrow> ip [''link'', ''set'', tmp, ''netns'', pid, ''name'', net_ifname c];
         if r \<noteq> 0 then do {
           emit (Stderr ''container: could not move veth into the container'');
           _ \<leftarrow> ip [''link'', ''del'', net_host_if c];
           State_Monad.return (-1, c) }
         else State_Monad.return (0, c)
       }
     }
   }"

definition container_net_host_teardown :: "container \<Rightarrow> int os" where
  "container_net_host_teardown c = do {
     (if net_host_if c \<noteq> [] then do { _ \<leftarrow> ip [''link'', ''del'', net_host_if c]; State_Monad.return () }
      else State_Monad.return ());
     State_Monad.return 0
   }"

section \<open>The whole lifecycle\<close>

text \<open>From the parent's side; the cloned child runs \<open>container_init\<close> on a copy of the struct.\<close>

definition container_release :: "container \<Rightarrow> int os" where
  "container_release c = do {
     emit (Close (sync_r c));
     w \<leftarrow> sys (Write (sync_w c) [CHR 0x01]);
     if ret w \<noteq> 1 then do { perror ''container: sync write''; State_Monad.return (-1) }
     else do { emit (Close (sync_w c)); State_Monad.return 0 }
   }"

definition container_wait :: "container \<Rightarrow> int \<Rightarrow> int \<Rightarrow> int os" where
  "container_wait c stack child = do {
     w \<leftarrow> sys (Waitpid child);
     if ret w < 0 then do { perror ''container: waitpid''; State_Monad.return (-1) }
     else do {
       let exit_status = status_code (out1 w);
       _ \<leftarrow> (if net_enabled c then container_net_host_teardown c else State_Monad.return 0);
       _ \<leftarrow> container_cleanup c;
       emit (Free stack);
       State_Monad.return exit_status
     }
   }"

definition container_parent :: "container \<Rightarrow> int \<Rightarrow> int \<Rightarrow> int os" where
  "container_parent c stack child = do {
     r \<leftarrow> all_ok [container_write_idmaps child, container_cgroup_enter c child];
     if r < 0 then State_Monad.return (-1)
     else do {
       (r, c) \<leftarrow> (if net_enabled c then container_net_host_setup c child
                 else State_Monad.return (0, c));
       if r < 0 then State_Monad.return (-1)
       else do {
         r \<leftarrow> container_release c;
         if r < 0 then State_Monad.return (-1) else container_wait c stack child
       }
     }
   }"

definition container_run :: "container \<Rightarrow> int os" where
  "container_run c = do {
     (r, c) \<leftarrow> container_cgroup_init c;
     if r < 0 then State_Monad.return (-1)
     else do {
       p \<leftarrow> sys Pipe;
       if ret p < 0 then do { perror ''container: pipe''; State_Monad.return (-1) }
       else do {
         let c = c\<lparr>sync_r := sint (out1 p), sync_w := sint (out2 p)\<rparr>;
         stack \<leftarrow> sys (Malloc CONTAINER_STACK_SIZE);
         if ret stack = 0 then do { perror ''container: malloc stack''; State_Monad.return (-1) }
         else do {
           child \<leftarrow> sys (Clone (ret stack + int CONTAINER_STACK_SIZE) (container_namespaces OR SIGCHLD));
           if ret child < 0 then do {
             perror ''container: clone''; emit (Free (ret stack)); State_Monad.return (-1) }
           else container_parent c (ret stack) (ret child)
         }
       }
     }
   }"

end
