(* ===== verification/Container_Spec.thy ===== *)
theory Container_Spec
  imports Container
begin

text \<open>
  What the container runtime guarantees.  Each part of \<open>Container\<close> is shown to do a list of
  effects; from these lists follow the order of confinement (the command is executed only behind
  every mount, the capability drop and the filter), the order of release (the child is let go only
  when its id maps, limits and cgroup membership are in place), the way of the exit status from the
  command to the caller, and what a failed start leaves behind.
\<close>

section \<open>Files, directories, limits\<close>

lemma does_write_file: "does [Wrote p v] (write_file p v)"
proof (rule doesI)
  fix s :: kst
  let ?n = "length (calls s)"
  let ?a = "answers s ?n" and ?b = "answers s (Suc ?n)" and ?d = "answers s (Suc (Suc ?n))"
  let ?q = "[CHR 0x27] @ p @ [CHR 0x27]"
  let ?e = "if ret ?b < 0 then err ?b else errno s"
  let ?xs = "(Open p (O_WRONLY OR O_CLOEXEC), ?a) #
     (if ret ?a < 0 then [(Perror (''container: open '' @ ?q) (err ?a), ?b)]
      else (Write (ret ?a) v, ?b) # (Close (ret ?a), ?d) #
        (if ret ?b \<noteq> int (length v) then [(Perror (''container: write '' @ ?q) ?e, answers s (Suc (Suc (Suc ?n))))] else []))"
  show "\<exists>xs. calls (snd (run_state (write_file p v) s)) = calls s @ xs
     \<and> foldl opens Map.empty xs = Map.empty
     \<and> (\<exists>fs. [Wrote p v] = effects Map.empty xs @ fs)
     \<and> (0 \<le> fst (run_state (write_file p v) s) \<longrightarrow> effects Map.empty xs = [Wrote p v])"
    by (rule exI [of _ ?xs]) (simp add: write_file_def os_run quiet_def fun_upd_idem_iff)
qed


definition idmap_effects :: "int \<Rightarrow> int \<Rightarrow> int \<Rightarrow> effect list" where
  "idmap_effects child uid gid =
    [Wrote (proc_file child ''uid_map'') (idmap_line uid),
     Wrote (proc_file child ''setgroups'') ''deny'',
     Wrote (proc_file child ''gid_map'') (idmap_line gid)]"

definition cgroup_effects :: "container \<Rightarrow> effect list" where
  "cgroup_effects c = (let dir = snprintf PATH_MAX (cgroup_base c @ ''/'' @ name c) in
    [Wrote (cg_file (cgroup_base c) ''cgroup.subtree_control'') ''+pids +memory'',
     Did (Mkdir dir 0x1ED),
     Wrote (cg_file dir ''pids.max'') (limit_text (pids_max c)),
     Wrote (cg_file dir ''memory.max'') (limit_text (mem_max c)),
     Wrote (cg_file dir ''memory.swap.max'') ''0''])"

definition enter_effects :: "container \<Rightarrow> int \<Rightarrow> effect list" where
  "enter_effects c child = [Wrote (cg_file (cg_path c) ''cgroup.procs'') (snprintf 32 (dec_int child))]"

lemma does_make_cgroup_dir: "does [Did (Mkdir p 0x1ED)] (make_cgroup_dir p)"
proof (rule doesI)
  fix s :: kst
  let ?n = "length (calls s)"
  let ?a = "answers s ?n"
  let ?xs = "(Mkdir p 0x1ED, ?a) # (if ret ?a < 0 \<and> err ?a \<noteq> EEXIST
      then [(Perror ''container: mkdir cgroup'' (err ?a), answers s (Suc ?n))] else [])"
  show "\<exists>xs. calls (snd (run_state (make_cgroup_dir p) s)) = calls s @ xs
     \<and> foldl opens Map.empty xs = Map.empty
     \<and> (\<exists>fs. [Did (Mkdir p 0x1ED)] = effects Map.empty xs @ fs)
     \<and> (0 \<le> fst (run_state (make_cgroup_dir p) s) \<longrightarrow> effects Map.empty xs = [Did (Mkdir p 0x1ED)])"
    by (rule exI [of _ ?xs]) (simp add: make_cgroup_dir_def os_run quiet_def)
qed

lemma does_cleanup: "does [Did (Rmdir (cg_path c))] (container_cleanup c)"
proof (rule doesI)
  fix s :: kst
  let ?n = "length (calls s)"
  let ?a = "answers s ?n"
  let ?xs = "(Rmdir (cg_path c), ?a) # (if ret ?a < 0 \<and> err ?a \<noteq> ENOENT
      then [(Perror ''container: rmdir cgroup'' (err ?a), answers s (Suc ?n))] else [])"
  show "\<exists>xs. calls (snd (run_state (container_cleanup c) s)) = calls s @ xs
     \<and> foldl opens Map.empty xs = Map.empty
     \<and> (\<exists>fs. [Did (Rmdir (cg_path c))] = effects Map.empty xs @ fs)
     \<and> (0 \<le> fst (run_state (container_cleanup c) s) \<longrightarrow> effects Map.empty xs = [Did (Rmdir (cg_path c))])"
    by (rule exI [of _ ?xs]) (simp add: container_cleanup_def os_run quiet_def)
qed

text \<open>The uid and gid of the id maps are what the kernel answers first.\<close>

lemma does_write_idmaps:
  "does_at s (idmap_effects child (ret (answers s (length (calls s)))) (ret (answers s (Suc (length (calls s))))))
     (container_write_idmaps child)"
proof -
  let ?u = "ret (answers s (length (calls s)))" and ?g = "ret (answers s (Suc (length (calls s))))"
  let ?files = "all_ok [write_file (proc_file child ''uid_map'') (idmap_line ?u),
      write_file (proc_file child ''setgroups'') ''deny'',
      write_file (proc_file child ''gid_map'') (idmap_line ?g)]"
  have "does (concat (map (\<lambda>e. [e]) (idmap_effects child ?u ?g))) ?files"
    by (rule does_all_ok) (simp add: idmap_effects_def does_write_file del: all_ok.simps)
  then have d: "does (idmap_effects child ?u ?g) ?files" by (simp add: idmap_effects_def)
  let ?s1 = "snd (run_state (do { a \<leftarrow> sys Getuid; sys Getgid }) s)"
  obtain r s2 where r: "run_state ?files ?s1 = (r, s2)" by force
  have run: "run_state (container_write_idmaps child) s = (r, s2)"
    using r by (simp add: container_write_idmaps_def os_run del: all_ok.simps)
  from doesE [OF d r] obtain xs fs where xs: "calls s2 = calls ?s1 @ xs" "foldl opens Map.empty xs = Map.empty"
      "idmap_effects child ?u ?g = effects Map.empty xs @ fs"
      "0 \<le> r \<Longrightarrow> effects Map.empty xs = idmap_effects child ?u ?g" by blast
  let ?ys = "[(Getuid, answers s (length (calls s))), (Getgid, answers s (Suc (length (calls s))))]"
  have "calls ?s1 = calls s @ ?ys" by (simp add: os_run)
  then show ?thesis using xs unfolding does_at_def run
    by (intro exI [of _ "?ys @ xs"]) (auto simp: quiet_def)
qed

lemma does_enter: "does (enter_effects c child) (container_cgroup_enter c child)"
  unfolding enter_effects_def container_cgroup_enter_def
  using does_all_ok [of "[[_]]" "[_]"] does_write_file by fastforce

text \<open>The cgroup is made with its limits, and its path is remembered.\<close>

lemma cgroup_init_run:
  assumes "run_state (container_cgroup_init c) s = ((r, c'), s1)"
  obtains xs fs where "calls s1 = calls s @ xs" "foldl opens Map.empty xs = Map.empty"
    "cgroup_effects c = effects Map.empty xs @ fs"
    "0 \<le> r \<Longrightarrow> effects Map.empty xs = cgroup_effects c
       \<and> c' = c\<lparr>cg_path := snprintf PATH_MAX (cgroup_base c @ ''/'' @ name c)\<rparr>"
proof -
  let ?c = "c\<lparr>cg_path := snprintf PATH_MAX (cgroup_base c @ ''/'' @ name c)\<rparr>"
  let ?f = "write_file (cg_file (cgroup_base c) ''cgroup.subtree_control'') ''+pids +memory''"
  let ?rest = "[make_cgroup_dir (cg_path ?c),
                   write_file (cg_file (cg_path ?c) ''pids.max'') (limit_text (pids_max ?c)),
                   write_file (cg_file (cg_path ?c) ''memory.max'') (limit_text (mem_max ?c)),
                   write_file (cg_file (cg_path ?c) ''memory.swap.max'') ''0'']"
  have "does (concat (map (\<lambda>e. [e]) (cgroup_effects c))) (all_ok (?f # ?rest))"
    by (rule does_all_ok) (simp add: cgroup_effects_def Let_def does_write_file does_make_cgroup_dir del: all_ok.simps)
  then have d: "does (cgroup_effects c) (all_ok (?f # ?rest))" by (simp add: cgroup_effects_def Let_def)
  have run: "run_state (all_ok (?f # ?rest)) s = (if fst (run_state ?f s) < 0 then (-1, snd (run_state ?f s))
      else run_state (all_ok ?rest) (snd (run_state ?f s)))"
    by (subst all_ok.simps(2)) (simp add: os_run case_prod_beta)
  have init: "run_state (container_cgroup_init c) s = (if fst (run_state ?f s) < 0 then ((-1, c), snd (run_state ?f s))
      else (case run_state (all_ok ?rest) (snd (run_state ?f s)) of (r, s1) \<Rightarrow> ((r, ?c), s1)))"
    by (simp add: container_cgroup_init_def os_run case_prod_beta Let_def del: all_ok.simps)
  have *: "run_state (all_ok (?f # ?rest)) s = (r, s1)" and c': "0 \<le> r \<Longrightarrow> c' = ?c"
    using assms unfolding run init by (auto split: if_splits prod.splits)
  from doesE [OF d *] show ?thesis using c' that by metis
qed

section \<open>The confinement of the command\<close>

text \<open>The effects of a complete setup, in the order the specification asks for.\<close>

definition setup_effects :: "arch \<Rightarrow> container \<Rightarrow> effect list" where
  "setup_effects ar c = map Did (
     [Sethostname (hostname c) (length (hostname c)),
      Mount None ''/'' None (MS_REC OR MS_PRIVATE),
      Mount (Some (rootfs c)) (rootfs c) None (MS_BIND OR MS_REC),
      Mount (Some (rootfs c)) (rootfs c) None (MS_BIND OR MS_REMOUNT OR MS_RDONLY),
      Mount (Some ''tmpfs'') (in_root c ''/tmp'') (Some ''tmpfs'') 0,
      Mount (Some ''tmpfs'') (in_root c ''/dev'') (Some ''tmpfs'') 0,
      Mount (Some ''/dev/null'') (in_root c ''/dev/null'') None MS_BIND,
      Mount (Some ''/dev/zero'') (in_root c ''/dev/zero'') None MS_BIND,
      Mount (Some ''proc'') (in_root c ''/proc'') (Some ''proc'') 0,
      Chdir (rootfs c), Pivot_root ''.'' ''.'', Umount2 ''.'' MNT_DETACH, Chdir ''/'']
     @ map (\<lambda>k. Prctl PR_CAPBSET_DROP (of_nat k)) [0..<Suc CAP_LAST_CAP]
     @ [Capset CAP_VERSION_3 [(0, 0, 0), (0, 0, 0)],
        Prctl PR_SET_NO_NEW_PRIVS 1, Seccomp_filter (seccomp_filter ar)])"

lemma mutes [simp]:
  "mute (Close fd)" "mute Socket" "mute (Ioctl fd q f)" "mute (Ioctl_route fd q g)" "mute (Perror m e)"
  "mute (Stderr m)" "mute (Read fd n)" "mute (Waitpid p)" "mute (Free p)" "mute (Malloc n)" "mute (Dup2 a b)"
  by (simp_all add: mute_def quiet_def)

lemma plains [simp]:
  "plain (Sethostname h n)" "plain (Mount a b g e)" "plain (Chdir p)" "plain (Pivot_root p q)"
  "plain (Umount2 p f)" "plain (Capset v d)" "plain (Seccomp_filter fl)" "plain (Prctl PR_SET_NO_NEW_PRIVS x)"
  "plain (Fork av)" "plain (Execvp p av)" "plain Pipe" "plain (Clone st cl)"
  by (simp_all add: plain_def quiet_def PR_SET_NO_NEW_PRIVS_def PR_CAPBSET_DROP_def)

lemma silent_network: "silent container_network"
  unfolding container_network_def Let_def by (intro silent_intros) simp_all

lemma silent_net_config: "silent (container_net_config c)"
  unfolding container_net_config_def Let_def
  by (intro silent_intros; simp?; split option.split; intro conjI allI impI silent_intros; simp?;
      split option.split; intro conjI allI impI silent_intros; simp?)

lemma silent_touch: "silent (touch p)"
proof (unfold silent_def, rule allI)
  fix s :: kst
  let ?a = "answers s (length (calls s))"
  let ?xs = "(Open p (O_CREAT OR O_WRONLY), ?a) # (if 0 \<le> ret ?a
      then [(Close (ret ?a), answers s (Suc (length (calls s))))] else [])"
  show "\<exists>xs. calls (snd (run_state (touch p) s)) = calls s @ xs
     \<and> foldl opens Map.empty xs = Map.empty \<and> effects Map.empty xs = []"
    by (rule exI [of _ ?xs]) (simp add: touch_def os_run quiet_def fun_upd_idem_iff)
qed

lemma does_prctl_drop: "does es m \<Longrightarrow>
    does (Did (Prctl PR_CAPBSET_DROP x) # es) (do { emit (Prctl PR_CAPBSET_DROP x); m })"
proof (rule doesI)
  fix s :: kst
  assume m: "does es m"
  let ?x = "(Prctl PR_CAPBSET_DROP x, answers s (length (calls s)))"
  let ?s1 = "s\<lparr>calls := calls s @ [?x]\<rparr>"
  obtain r s2 where r: "run_state m ?s1 = (r, s2)" by force
  from doesE [OF m r] obtain xs fs where xs: "calls s2 = calls ?s1 @ xs" "foldl opens Map.empty xs = Map.empty"
      "es = effects Map.empty xs @ fs" "0 \<le> r \<Longrightarrow> effects Map.empty xs = es" by blast
  have run: "run_state (do { emit (Prctl PR_CAPBSET_DROP x); m }) s = (r, s2)"
    using r by (simp add: os_run)
  show "\<exists>xs. calls (snd (run_state (do { emit (Prctl PR_CAPBSET_DROP x); m }) s)) = calls s @ xs
     \<and> foldl opens Map.empty xs = Map.empty
     \<and> (\<exists>fs. Did (Prctl PR_CAPBSET_DROP x) # es = effects Map.empty xs @ fs)
     \<and> (0 \<le> fst (run_state (do { emit (Prctl PR_CAPBSET_DROP x); m }) s) \<longrightarrow>
        effects Map.empty xs = Did (Prctl PR_CAPBSET_DROP x) # es)"
    unfolding run using xs by (intro exI [of _ "?x # xs"]) auto
qed

lemma does_drop_caps: "does es m \<Longrightarrow>
    does (map (\<lambda>k. Did (Prctl PR_CAPBSET_DROP (of_nat k))) ks @ es) (do { drop_caps ks; m })"
proof (induction ks)
  case (Cons k ks)
  have "do { drop_caps (k # ks); m } = do { emit (Prctl PR_CAPBSET_DROP (of_nat k)); drop_caps ks; m }"
    by (rule state_ext) (simp add: os_run case_prod_beta)
  then show ?case using does_prctl_drop [OF Cons.IH [OF Cons.prems]] by simp
qed (simp add: state_ext os_run)

lemma does_seccomp: "does [Did (Prctl PR_SET_NO_NEW_PRIVS 1), Did (Seccomp_filter (seccomp_filter ar))]
    (container_seccomp ar)"
proof -
  have "does (concat [[Did (Prctl PR_SET_NO_NEW_PRIVS 1)], [Did (Seccomp_filter (seccomp_filter ar))]])
      (container_seccomp ar)"
    unfolding container_seccomp_def by (rule does_all_ok) (simp add: does_call)
  then show ?thesis by simp
qed

lemma list_all2_app: "list_all2 P as xs \<Longrightarrow> list_all2 P bs ys \<Longrightarrow> list_all2 P (as @ bs) (xs @ ys)"
  by (rule list_all2_appendI)

lemma does_setup: "does (setup_effects ar c) (container_setup ar c)"
proof -
  let ?caps = "map (\<lambda>k. Did (Prctl PR_CAPBSET_DROP (of_nat k))) [0..<Suc CAP_LAST_CAP]
      @ [Did (Capset CAP_VERSION_3 [(0, 0, 0), (0, 0, 0)])]"
  let ?a = "[[Did (Sethostname (hostname c) (length (hostname c)))], []]"
  let ?n = "if net_enabled c then [[]] else []"
  let ?b = "[[Did (Mount None ''/'' None (MS_REC OR MS_PRIVATE))],
      [Did (Mount (Some (rootfs c)) (rootfs c) None (MS_BIND OR MS_REC))],
      [Did (Mount (Some (rootfs c)) (rootfs c) None (MS_BIND OR MS_REMOUNT OR MS_RDONLY))],
      [Did (Mount (Some ''tmpfs'') (in_root c ''/tmp'') (Some ''tmpfs'') 0)],
      [Did (Mount (Some ''tmpfs'') (in_root c ''/dev'') (Some ''tmpfs'') 0)],
      [Did (Mount (Some ''/dev/null'') (in_root c ''/dev/null'') None MS_BIND)],
      [Did (Mount (Some ''/dev/zero'') (in_root c ''/dev/zero'') None MS_BIND)],
      [Did (Mount (Some ''proc'') (in_root c ''/proc'') (Some ''proc'') 0)],
      [Did (Chdir (rootfs c))], [Did (Pivot_root ''.'' ''.'')], [Did (Umount2 ''.'' MNT_DETACH)],
      [Did (Chdir ''/'')], ?caps,
      [Did (Prctl PR_SET_NO_NEW_PRIVS 1), Did (Seccomp_filter (seccomp_filter ar))]]"
  have eq: "setup_effects ar c = concat (?a @ ?n @ ?b)"
    by (simp add: setup_effects_def comp_def del: upt_Suc)
  note parts = does_call does_call_msg does_seccomp does_after_silent [OF silent_touch]
    does_drop_caps silent_does silent_network silent_net_config
  show ?thesis unfolding eq container_setup_def
    by (rule does_all_ok, intro list_all2_app) (simp_all add: parts del: upt_Suc)
qed


text \<open>The process that executes the command.\<close>

lemma init_confines:
  assumes "container_init ar c s = Some (Execs p av, s')"
  shows "p = hd (argv c) \<and> av = argv c \<and> (\<exists>a b xs. calls s' = calls s @ (Close (sync_w c), a) # (Read (sync_r c) 1, b) # xs
    \<and> ret b = 1
    \<and> effects Map.empty xs = setup_effects ar c @ [Did (Fork (argv c)), Did (Execvp (hd (argv c)) (argv c))])"
proof -
  let ?r = "run_state (do { emit (Close (sync_w c)); sys (Read (sync_r c) 1) }) s"
  obtain b s1 where r: "?r = (b, s1)" by force
  then have s1: "\<exists>a. calls s1 = calls s @ [(Close (sync_w c), a), (Read (sync_r c) 1, b)]"
    by (auto simp: os_run)
  obtain q s2 where q: "run_state (do { emit (Close (sync_r c)); container_setup ar c }) s1 = (q, s2)" by force
  obtain f s3 where f: "run_state (sys (Fork (argv c))) s2 = (f, s3)" by force
  obtain x s4 where x: "run_state (sys (Execvp (hd (argv c)) (argv c))) s3 = (x, s4)" by force
  have b1: "ret b = 1" and q0: "\<not> q < 0" and f0: "ret f = 0" and x0: "0 \<le> ret x" and
    res: "p = hd (argv c)" "av = argv c" "s' = s4"
    using assms unfolding container_init_def container_launch_def r q f x prod.case
    by (auto split: if_splits)
  have d: "does (setup_effects ar c) (do { emit (Close (sync_r c)); container_setup ar c })"
    by (rule does_after_silent) (simp_all add: silent_emit does_setup)
  from doesE [OF d q] obtain xs where xs: "calls s2 = calls s1 @ xs" "foldl opens Map.empty xs = Map.empty"
      "effects Map.empty xs = setup_effects ar c" using q0 by (metis linorder_not_less)
  have s4: "calls s4 = calls s2 @ [(Fork (argv c), f), (Execvp (hd (argv c)) (argv c), x)]"
    using f x by (auto simp: os_run)
  show ?thesis using s1 b1 f0 x0
    by (auto simp: res s4 xs effects_append quiet_def)
qed

section \<open>The release of the child\<close>

definition forks :: "effect \<Rightarrow> bool" where
  "forks e = (\<exists>av. e = Did (Fork av))"

lemma only_forks_ip: "only forks (ip av)"
  unfolding ip_def run_ip_def by (intro only_intros) (simp_all add: forks_def)

lemma only_forks_net: "only forks (container_net_host_setup c child)" "only forks (container_net_host_teardown c)"
  unfolding container_net_host_setup_def container_net_host_teardown_def Let_def
  by (intro only_intros only_forks_ip; simp)+

definition confined :: "container \<Rightarrow> int \<Rightarrow> int \<Rightarrow> int \<Rightarrow> effect list \<Rightarrow> bool" where
  "confined c child uid gid es = (\<exists>ns fd v rest.
     es = idmap_effects child uid gid @ enter_effects c child @ ns @ Sent fd v # rest
     \<and> list_all forks ns \<and> (\<not> net_enabled c \<longrightarrow> ns = []))"

definition no_sent :: "effect list \<Rightarrow> bool" where
  "no_sent es = (\<forall>fd v. Sent fd v \<notin> set es)"

lemma no_sent_prefix: "no_sent (es @ fs) \<Longrightarrow> no_sent es"
  by (simp add: no_sent_def)

lemma no_sents [simp]: "no_sent (idmap_effects child uid gid)" "no_sent (enter_effects c child)"
    "no_sent (cgroup_effects c)"
  by (simp_all add: no_sent_def idmap_effects_def enter_effects_def cgroup_effects_def Let_def)

lemma no_sent_forks: "\<forall>e \<in> set es. forks e \<Longrightarrow> no_sent es"
  by (auto simp: no_sent_def forks_def)

lemma no_sent_append: "no_sent (es @ fs) \<longleftrightarrow> no_sent es \<and> no_sent fs"
  by (auto simp: no_sent_def)

lemma does_all_ok_at:
  assumes "does_at s es m" and "does fs n"
  shows "does_at s (es @ fs) (all_ok [m, n])"
proof -
  obtain r s1 where r: "run_state m s = (r, s1)" by force
  from does_atE [OF assms(1) r] obtain xs gs where xs: "calls s1 = calls s @ xs" "foldl opens Map.empty xs = Map.empty"
      "es = effects Map.empty xs @ gs" "0 \<le> r \<Longrightarrow> effects Map.empty xs = es" by blast
  obtain q s2 where q: "run_state n s1 = (q, s2)" by force
  from doesE [OF assms(2) q] obtain zs hs where zs: "calls s2 = calls s1 @ zs" "foldl opens Map.empty zs = Map.empty"
      "fs = effects Map.empty zs @ hs" "0 \<le> q \<Longrightarrow> effects Map.empty zs = fs" by blast
  have run: "run_state (all_ok [m, n]) s = (if r < 0 then (-1, s1) else (if q < 0 then -1 else 0, s2))"
    by (simp add: os_run r q)
  show ?thesis
  proof (cases "r < 0")
    case True
    then show ?thesis unfolding does_at_def run using xs by (intro exI [of _ xs]) auto
  next
    case False
    then have e: "effects Map.empty xs = es" using xs(4) by simp
    show ?thesis unfolding does_at_def run using False xs(1,2) zs e
      by (intro exI [of _ "xs @ zs"]) (auto simp: effects_append)
  qed
qed


lemma does_release: "does [Sent (sync_w c) [CHR 0x01]] (container_release c)"
proof (rule doesI)
  fix s :: kst
  let ?n = "length (calls s)"
  let ?a = "answers s ?n" and ?b = "answers s (Suc ?n)" and ?d = "answers s (Suc (Suc ?n))"
  let ?e = "if ret ?b < 0 then err ?b else errno s"
  let ?xs = "[(Close (sync_r c), ?a), (Write (sync_w c) [CHR 0x01], ?b),
     (if ret ?b \<noteq> 1 then (Perror ''container: sync write'' ?e, ?d) else (Close (sync_w c), ?d))]"
  show "\<exists>xs. calls (snd (run_state (container_release c) s)) = calls s @ xs
     \<and> foldl opens Map.empty xs = Map.empty
     \<and> (\<exists>fs. [Sent (sync_w c) [CHR 0x01]] = effects Map.empty xs @ fs)
     \<and> (0 \<le> fst (run_state (container_release c) s) \<longrightarrow> effects Map.empty xs = [Sent (sync_w c) [CHR 0x01]])"
    by (rule exI [of _ ?xs]) (simp add: container_release_def os_run quiet_def)
qed

lemma only_does: "does es m \<Longrightarrow> only (\<lambda>e. e \<in> set es) m"
  unfolding does_def does_at_def only_def by (metis UnCI set_append)

lemma only_mono: "only P m \<Longrightarrow> (\<And>e. P e \<Longrightarrow> Q e) \<Longrightarrow> only Q m"
  unfolding only_def by metis

lemma only_wait: "only (\<lambda>e. forks e \<or> e = Did (Rmdir (cg_path c))) (container_wait c stack child)"
proof -
  have t: "only (\<lambda>e. forks e \<or> e = Did (Rmdir (cg_path c))) (container_net_host_teardown c)"
    by (rule only_mono [OF only_forks_net(2)]) simp
  have d: "only (\<lambda>e. forks e \<or> e = Did (Rmdir (cg_path c))) (container_cleanup c)"
    by (rule only_mono [OF only_does [OF does_cleanup]]) simp
  show ?thesis unfolding container_wait_def Let_def
    by (intro only_intros t d) simp_all
qed

lemma parent_confines:
  assumes "run_state (container_parent c stack child) s = (r, s1)"
  shows "\<exists>xs. calls s1 = calls s @ xs \<and> foldl opens Map.empty xs = Map.empty
    \<and> (r = -1 \<and> no_sent (effects Map.empty xs) \<or> confined c child
        (ret (answers s (length (calls s)))) (ret (answers s (Suc (length (calls s))))) (effects Map.empty xs))"
proof -
  let ?u = "ret (answers s (length (calls s)))" and ?g = "ret (answers s (Suc (length (calls s))))"
  let ?pre = "idmap_effects child ?u ?g @ enter_effects c child"
  obtain q a where q: "run_state (all_ok [container_write_idmaps child, container_cgroup_enter c child]) s = (q, a)"
    by force
  from does_atE [OF does_all_ok_at [OF does_write_idmaps does_enter] q]
  obtain xs fs where xs: "calls a = calls s @ xs" "foldl opens Map.empty xs = Map.empty"
      "?pre = effects Map.empty xs @ fs" "0 \<le> q \<Longrightarrow> effects Map.empty xs = ?pre" by blast
  have nx: "no_sent (effects Map.empty xs)"
    by (rule no_sent_prefix [of _ fs]) (simp flip: xs(3) add: no_sent_append)
  let ?net = "if net_enabled c then container_net_host_setup c child else State_Monad.return (0, c)"
  obtain q2 c2 b where b: "run_state ?net a = ((q2, c2), b)" by (metis prod.exhaust)
  have on: "only forks ?net" by (intro only_if only_forks_net only_return)
  from onlyE [OF on b] obtain ys where ys: "calls b = calls a @ ys" "foldl opens Map.empty ys = Map.empty"
      "\<forall>e \<in> set (effects Map.empty ys). forks e" by blast
  have ysnil: "effects Map.empty ys = []" if "\<not> net_enabled c" using that b ys(1) by simp
  obtain q3 d where d: "run_state (container_release c2) b = (q3, d)" by force
  from doesE [OF does_release d] obtain zs gs where zs: "calls d = calls b @ zs" "foldl opens Map.empty zs = Map.empty"
      "[Sent (sync_w c2) [CHR 0x01]] = effects Map.empty zs @ gs"
      "0 \<le> q3 \<Longrightarrow> effects Map.empty zs = [Sent (sync_w c2) [CHR 0x01]]" by blast
  obtain q4 e where e: "run_state (container_wait c2 stack child) d = (q4, e)" by force
  from onlyE [OF only_wait e] obtain ws where ws: "calls e = calls d @ ws" "foldl opens Map.empty ws = Map.empty"
    by blast
  have run: "run_state (container_parent c stack child) s =
      (if q < 0 then (-1, a) else if q2 < 0 then (-1, b) else if q3 < 0 then (-1, d) else (q4, e))"
    by (simp add: container_parent_def run_bind q b d e del: all_ok.simps)
  note ns = no_sent_forks [OF ys(3)]
  consider "q < 0" | "\<not> q < 0" "q2 < 0" | "\<not> q < 0" "\<not> q2 < 0" "q3 < 0" | "\<not> q < 0" "\<not> q2 < 0" "\<not> q3 < 0"
    by blast
  then show ?thesis
  proof cases
    case 1
    then show ?thesis using assms run xs nx by (intro exI [of _ xs]) auto
  next
    case 2
    then show ?thesis using assms run xs ys nx ns
      by (intro exI [of _ "xs @ ys"]) (auto simp: effects_append no_sent_append)
  next
    case 3
    then have "effects Map.empty zs = [] \<or> effects Map.empty zs = [Sent (sync_w c2) [CHR 0x01]]"
      using zs(3) by (cases "effects Map.empty zs") auto
    then show ?thesis
    proof
      assume "effects Map.empty zs = []"
      then show ?thesis using 3 assms run xs ys zs nx ns
        by (intro exI [of _ "xs @ ys @ zs"]) (auto simp: effects_append no_sent_append)
    next
      assume z: "effects Map.empty zs = [Sent (sync_w c2) [CHR 0x01]]"
      have "confined c child ?u ?g (effects Map.empty (xs @ ys @ zs))"
        unfolding confined_def using 3 xs ys z ysnil
        by (intro exI [of _ "effects Map.empty ys"] exI [of _ "sync_w c2"] exI [of _ "[CHR 0x01]"] exI [of _ "[]"])
          (auto simp: effects_append list_all_iff)
      then show ?thesis using 3 assms run xs ys zs by (intro exI [of _ "xs @ ys @ zs"]) auto
    qed
  next
    case 4
    have "confined c child ?u ?g (effects Map.empty (xs @ ys @ zs @ ws))"
      unfolding confined_def using 4 xs ys zs ysnil
      by (intro exI [of _ "effects Map.empty ys"] exI [of _ "sync_w c2"] exI [of _ "[CHR 0x01]"]
          exI [of _ "effects Map.empty ws"])
        (auto simp: effects_append list_all_iff)
    then show ?thesis using 4 assms run xs ys zs ws by (intro exI [of _ "xs @ ys @ zs @ ws"]) auto
  qed
qed

text \<open>The effects of a whole run, up to the release and beyond it.\<close>

definition released :: "container \<Rightarrow> int \<Rightarrow> int \<Rightarrow> int \<Rightarrow> effect list \<Rightarrow> bool" where
  "released c child uid gid es = (\<exists>st es'.
     es = cgroup_effects c @ [Did Pipe, Did (Clone st (container_namespaces OR SIGCHLD))] @ es'
     \<and> confined (c\<lparr>cg_path := snprintf PATH_MAX (cgroup_base c @ ''/'' @ name c)\<rparr>) child uid gid es')"

lemma confined_sync: "confined (c\<lparr>cg_path := p, sync_r := x, sync_w := y\<rparr>) child uid gid es =
    confined (c\<lparr>cg_path := p\<rparr>) child uid gid es"
  by (simp add: confined_def enter_effects_def)

lemma run_releases:
  assumes "run_state (container_run c) s = (r, s')"
  shows "\<exists>xs. calls s' = calls s @ xs \<and> (r = -1 \<and> no_sent (effects Map.empty xs)
    \<or> (\<exists>uid gid a st. (Clone st (container_namespaces OR SIGCHLD), a) \<in> set xs
        \<and> released c (ret a) uid gid (effects Map.empty xs)))"
proof -
  let ?p = "snprintf PATH_MAX (cgroup_base c @ ''/'' @ name c)"
  obtain q c1 s1 where q: "run_state (container_cgroup_init c) s = ((q, c1), s1)" by (metis prod.exhaust)
  from cgroup_init_run [OF q] obtain xs fs where xs: "calls s1 = calls s @ xs" "foldl opens Map.empty xs = Map.empty"
      "cgroup_effects c = effects Map.empty xs @ fs"
      "0 \<le> q \<Longrightarrow> effects Map.empty xs = cgroup_effects c \<and> c1 = c\<lparr>cg_path := ?p\<rparr>" by blast
  have nx: "no_sent (effects Map.empty xs)"
    by (rule no_sent_prefix [of _ fs]) (simp flip: xs(3))
  obtain p s2 where p: "run_state (sys Pipe) s1 = (p, s2)" by force
  then have s2: "calls s2 = calls s1 @ [(Pipe, p)]" by (auto simp: os_run)
  let ?c = "c1\<lparr>sync_r := sint (out1 p), sync_w := sint (out2 p)\<rparr>"
  obtain m s3 where m: "run_state (sys (Malloc CONTAINER_STACK_SIZE)) s2 = (m, s3)" by force
  then have s3: "calls s3 = calls s2 @ [(Malloc CONTAINER_STACK_SIZE, m)]" by (auto simp: os_run)
  let ?cl = "Clone (ret m + int CONTAINER_STACK_SIZE) (container_namespaces OR SIGCHLD)"
  obtain k s4 where k: "run_state (sys ?cl) s3 = (k, s4)" by force
  then have s4: "calls s4 = calls s3 @ [(?cl, k)]" by (auto simp: os_run)
  obtain q5 s5 where par: "run_state (container_parent ?c (ret m) (ret k)) s4 = (q5, s5)" by force
  from parent_confines [OF par] obtain ys where ys: "calls s5 = calls s4 @ ys"
      "q5 = -1 \<and> no_sent (effects Map.empty ys) \<or> confined ?c (ret k)
        (ret (answers s4 (length (calls s4)))) (ret (answers s4 (Suc (length (calls s4))))) (effects Map.empty ys)"
    by blast
  have run: "run_state (container_run c) s =
    (if q < 0 then (-1, s1)
     else if ret p < 0 then (-1, snd (run_state (perror ''container: pipe'') s2))
     else if ret m = 0 then (-1, snd (run_state (perror ''container: malloc stack'') s3))
     else if ret k < 0 then (-1, snd (run_state (do { perror ''container: clone''; emit (Free (ret m)) }) s4))
     else (q5, s5))"
    by (simp add: container_run_def run_bind q p m k par Let_def run_perror run_emit)
  let ?l = "[(Pipe, p), (Malloc CONTAINER_STACK_SIZE, m), (?cl, k)]"
  consider "q < 0" | "\<not> q < 0" "ret p < 0" | "\<not> q < 0" "\<not> ret p < 0" "ret m = 0"
    | "\<not> q < 0" "\<not> ret p < 0" "ret m \<noteq> 0" "ret k < 0"
    | "\<not> q < 0" "\<not> ret p < 0" "ret m \<noteq> 0" "\<not> ret k < 0"
    by blast
  then show ?thesis
  proof cases
    case 1
    then show ?thesis using assms run xs nx by auto
  next
    case 2
    then show ?thesis using assms run xs nx
      by (auto simp: run_perror s2 effects_append no_sent_append quiet_def no_sent_def)
  next
    case 3
    then show ?thesis using assms run xs nx
      by (auto simp: run_perror s2 s3 effects_append no_sent_append quiet_def no_sent_def)
  next
    case 4
    then show ?thesis using assms run xs nx
      by (auto simp: os_run s2 s3 s4 effects_append no_sent_append quiet_def no_sent_def)
  next
    case 5
    then have c1: "c1 = c\<lparr>cg_path := ?p\<rparr>" and ex: "effects Map.empty xs = cgroup_effects c" using xs(4) by auto
    have s': "s' = s5" using 5 assms run by simp
    have calls: "calls s' = calls s @ (xs @ ?l @ ys)" by (simp add: s' ys(1) s4 s3 s2 xs(1))
    have eff: "effects Map.empty (xs @ ?l @ ys) = cgroup_effects c @ [Did Pipe, Did ?cl] @ effects Map.empty ys"
      using 5 by (simp add: effects_append xs(2) ex quiet_def)
    from ys(2) show ?thesis
    proof
      assume n: "q5 = -1 \<and> no_sent (effects Map.empty ys)"
      then have "no_sent (effects Map.empty (xs @ ?l @ ys))"
        unfolding eff by (simp add: no_sent_append) (simp add: no_sent_def)
      moreover have "r = -1" using n 5 assms run by simp
      ultimately show ?thesis using calls by blast
    next
      assume "confined ?c (ret k) (ret (answers s4 (length (calls s4)))) (ret (answers s4 (Suc (length (calls s4))))) (effects Map.empty ys)"
      then have "released c (ret k) (ret (answers s4 (length (calls s4)))) (ret (answers s4 (Suc (length (calls s4)))))
          (effects Map.empty (xs @ ?l @ ys))"
        unfolding released_def eff c1 confined_sync by blast
      then show ?thesis using calls by (metis in_set_conv_decomp append.assoc append_Cons append_Nil)
    qed
  qed
qed


section \<open>The exit status\<close>

lemma and_ff: "uint (word_of_int v AND (0xff :: u32)) = v mod 256"
proof -
  have "word_of_int v AND (0xff :: u32) = take_bit 8 (word_of_int v)"
    by (simp add: take_bit_eq_mask mask_eq_exp_minus_1)
  also have "\<dots> = word_of_int v mod 256" by (simp add: take_bit_eq_mod)
  finally show ?thesis by (simp add: uint_mod uint_word_of_int mod_mod_cancel)
qed

lemma exit_word_low: "exit_word v AND 0x7f = 0"
proof (rule bit_word_eqI)
  fix n assume "n < LENGTH(32)"
  have "bit (0x7f :: u32) n \<Longrightarrow> n < 8"
  proof -
    have "(0x7f :: u32) = mask 7" by (simp add: mask_eq_exp_minus_1)
    then show "bit (0x7f :: u32) n \<Longrightarrow> n < 8" by (simp add: bit_mask_iff)
  qed
  then show "bit (exit_word v AND 0x7f) n = bit (0 :: u32) n"
    by (auto simp: exit_word_def bit_and_iff bit_push_bit_iff)
qed

lemma exit_word_high: "drop_bit 8 (exit_word v) AND 0xff = word_of_int v AND 0xff"
proof (rule bit_word_eqI)
  fix n assume n: "n < LENGTH(32)"
  have f: "(0xff :: u32) = mask 8" by (simp add: mask_eq_exp_minus_1)
  show "bit (drop_bit 8 (exit_word v) AND 0xff) n = bit (word_of_int v AND 0xff :: u32) n"
    using n by (auto simp: exit_word_def f bit_and_iff bit_drop_bit_eq bit_push_bit_iff bit_mask_iff)
qed

lemma status_exit: "status_code (exit_word v) = v mod 256"
  by (simp add: status_code_def WIFEXITED_def WEXITSTATUS_def exit_word_low exit_word_high and_ff)

lemma status_signal:
  assumes "0 < g" and "g < 127"
  shows "status_code (signal_word g) = 128 + int g"
proof -
  have m: "(0x7f :: u32) = mask 7" by (simp add: mask_eq_exp_minus_1)
  have l: "signal_word g AND 0x7f = signal_word g"
    using assms by (simp add: m signal_word_def flip: take_bit_eq_mask)
      (simp add: take_bit_of_nat take_bit_nat_eq_self)
  have u: "uint (signal_word g) = int g"
    using assms by (simp add: signal_word_def unsigned_of_nat take_bit_nat_eq_self flip: of_nat_take_bit)
  have nz: "signal_word g \<noteq> 0" "signal_word g \<noteq> 0x7f"
    using u assms by auto
  show ?thesis by (simp add: status_code_def WIFEXITED_def WIFSIGNALED_def WTERMSIG_def l nz u)
qed

text \<open>What the caller of the runtime sees of a command that ended.\<close>

datatype ending = Exited nat | Killed nat

fun end_word :: "ending \<Rightarrow> u32" where
  "end_word (Exited v) = exit_word (int v)"
| "end_word (Killed g) = signal_word g"

fun end_ok :: "ending \<Rightarrow> bool" where
  "end_ok (Exited v) = (v < 256)"
| "end_ok (Killed g) = (0 < g \<and> g < 127)"

fun end_code :: "ending \<Rightarrow> int" where
  "end_code (Exited v) = int v"
| "end_code (Killed g) = 128 + int g"

lemma status_ending: "end_ok e \<Longrightarrow> status_code (end_word e) = end_code e"
  by (cases e) (simp_all add: status_exit status_signal)

lemma end_code_byte: "end_ok e \<Longrightarrow> end_code e mod 256 = end_code e"
  by (cases e) simp_all

lemma reap_step: "reap cmd s = (let a = answers s (length (calls s));
    s1 = snd (run_state (sys (Waitpid (-1))) s) in
    if 0 < ret a then (if ret a = cmd then Some (status_code (out1 a), s1) else reap cmd s1)
    else Some (-1, s1))"
  by (subst reap.simps) (simp add: os_run Let_def)

text \<open>The loop passes over the orphans it collects and ends with the command.\<close>

lemma reap_collects:
  assumes "\<And>i. i < n \<Longrightarrow> 0 < ret (answers s (length (calls s) + i)) \<and> ret (answers s (length (calls s) + i)) \<noteq> cmd"
    and "0 < cmd" and "ret (answers s (length (calls s) + n)) = cmd"
  shows "\<exists>s'. reap cmd s = Some (status_code (out1 (answers s (length (calls s) + n))), s')
    \<and> length (calls s') = length (calls s) + Suc n"
  using assms
proof (induction n arbitrary: s)
  case 0
  then show ?case by (subst reap_step) (simp add: os_run Let_def)
next
  case (Suc n)
  let ?s1 = "snd (run_state (sys (Waitpid (-1))) s)"
  have len: "length (calls ?s1) = Suc (length (calls s))" and ans: "answers ?s1 = answers s"
    by (simp_all add: os_run)
  have "\<exists>s'. reap cmd ?s1 = Some (status_code (out1 (answers ?s1 (length (calls ?s1) + n))), s')
      \<and> length (calls s') = length (calls ?s1) + Suc n"
    using Suc.prems Suc.prems(1) [of "Suc i" for i] by (intro Suc.IH) (auto simp: len ans)
  moreover have "reap cmd s = reap cmd ?s1"
    using Suc.prems(1) [of 0] by (subst reap_step) (simp add: Let_def)
  ultimately show ?case by (simp add: len ans)
qed

lemma run_answers: "answers (snd (run_state (sys c) s)) = answers s"
  by (simp add: os_run)

section \<open>Runs that are granted everything\<close>

lemma gives_write_file:
  assumes "0 \<le> ret (A n)" and "ret (A (Suc n)) = int (length v)"
  shows "gives A n (write_file p v) 0 3"
  using assms by (simp add: gives_def write_file_def os_run)

lemma gives_network: "(\<And>i. 0 \<le> ret (A i)) \<Longrightarrow> gives A n container_network 0 4"
  by (simp add: gives_def container_network_def os_run Let_def flip: not_le)

lemma gives_touch: "(\<And>i. 0 \<le> ret (A i)) \<Longrightarrow> gives A n (touch p) () 2"
  by (simp add: gives_def touch_def os_run)

lemma gives_drop_caps: "gives A n (drop_caps ks) () (length ks)"
proof (induction ks arbitrary: n)
  case (Cons k ks)
  then show ?case using gives_seq [OF gives_emit Cons.IH] by simp
qed (simp add: gives_return)

text \<open>Setup succeeds when every call is granted: the effects above are not out of reach.\<close>

lemma gives_setup:
  assumes g: "\<And>i. 0 \<le> ret (A i)" and "\<not> net_enabled c"
  shows "\<exists>k. gives A n (container_setup ar c) 0 k"
proof -
  have c1: "gives A n (call d) 0 1" for n d by (rule gives_call) (rule g)
  have c2: "gives A n (call_msg d m) 0 1" for n d m by (rule gives_call_msg) (rule g)
  have nw: "gives A n container_network 0 4" for n by (rule gives_network) (rule g)
  have t: "gives A n (touch p) () 2" for n p by (rule gives_touch) (rule g)
  have b: "gives A n (do { touch p; call d }) 0 3" for n p d
    using gives_seq [OF t c1, of n p d] by (simp add: numeral_eq_Suc)
  have d: "gives A n (do { drop_caps ks; call_msg d m }) 0 (length ks + 1)" for n ks d m
    by (rule gives_seq [OF gives_drop_caps c2])
  have s: "gives A n (container_seccomp ar) 0 (1 + (1 + 0))" for n
    unfolding container_seccomp_def
    by (intro gives_all_ok_Cons gives_all_ok_Nil c1)
  have e: "\<exists>k. \<forall>n. gives A n (call d) 0 k" "\<exists>k. \<forall>n. gives A n (call_msg d m) 0 k"
    "\<exists>k. \<forall>n. gives A n container_network 0 k" "\<exists>k. \<forall>n. gives A n (do { touch p; call d }) 0 k"
    "\<exists>k. \<forall>n. gives A n (do { drop_caps ks; call_msg d m }) 0 k"
    "\<exists>k. \<forall>n. gives A n (container_seccomp ar) 0 k" for d m p ks
    using c1 c2 nw b d s by blast+
  have ex: "\<exists>k. gives A n (all_ok ms) 0 k"
    if "\<And>m. m \<in> set ms \<Longrightarrow> \<exists>k. \<forall>n. gives A n m 0 k" for ms
    using that
  proof (induction ms arbitrary: n)
    case Nil
    show ?case using gives_all_ok_Nil by blast
  next
    case (Cons m ms)
    then obtain k where "\<forall>n. gives A n m 0 k" by (metis list.set_intros(1))
    moreover obtain l where "gives A (n + k) (all_ok ms) 0 l" using Cons by (meson list.set_intros(2))
    ultimately show ?case using gives_all_ok_Cons by blast
  qed
  show ?thesis unfolding container_setup_def
    by (rule ex) (auto simp only: set_append list.set(1) set_simps assms(2) if_False Un_iff insert_iff empty_iff e)
qed

text \<open>What the parent needs to be answered, from its first call on: writes are complete, the
  other calls succeed.\<close>

definition run_granted :: "(nat \<Rightarrow> sysr) \<Rightarrow> container \<Rightarrow> bool" where
  "run_granted A c = ((\<forall>i. 0 \<le> ret (A i)) \<and> 0 < ret (A 14)
     \<and> (\<forall>(i, v) \<in> set [(1, ''+pids +memory''), (5, limit_text (pids_max c)), (8, limit_text (mem_max c)),
          (11, ''0''), (19, idmap_line (ret (A 16))), (22, ''deny''), (25, idmap_line (ret (A 17))),
          (28, snprintf 32 (dec_int (ret (A 15)))), (31, [CHR 0x01])]. ret (A i) = int (length v)))"

lemma gives_cgroup_init:
  assumes g: "\<And>i. i < 13 \<Longrightarrow> 0 \<le> ret (A i)"
    and w: "ret (A 1) = int (length ''+pids +memory'')" "ret (A 5) = int (length (limit_text (pids_max c)))"
      "ret (A 8) = int (length (limit_text (mem_max c)))" "ret (A 11) = int (length ''0'')"
  shows "gives A 0 (container_cgroup_init c) (0, c\<lparr>cg_path := snprintf PATH_MAX (cgroup_base c @ ''/'' @ name c)\<rparr>) 13"
proof -
  have w0: "gives A 0 (write_file p ''+pids +memory'') 0 3" for p
    by (rule gives_write_file) (simp_all add: g w [simplified])
  have m: "gives A 3 (make_cgroup_dir p) 0 1" for p
    using g [of 3] by (simp add: gives_def make_cgroup_dir_def os_run flip: not_le)
  let ?p = "snprintf PATH_MAX (cgroup_base c @ ''/'' @ name c)"
  have "gives A 3 (all_ok [make_cgroup_dir ?p,
      write_file (cg_file ?p ''pids.max'') (limit_text (pids_max c)),
      write_file (cg_file ?p ''memory.max'') (limit_text (mem_max c)),
      write_file (cg_file ?p ''memory.swap.max'') ''0'']) 0 (1 + (3 + (3 + (3 + 0))))"
    by (intro gives_all_ok_Cons gives_all_ok_Nil m gives_write_file g) (simp_all add: w [simplified])
  from gives_bind [OF this, where f = "\<lambda>r. State_Monad.return (r, c\<lparr>cg_path := ?p\<rparr>)", OF gives_return] have rest: "gives A 3 (do {
      r \<leftarrow> all_ok [make_cgroup_dir ?p,
        write_file (cg_file ?p ''pids.max'') (limit_text (pids_max c)),
        write_file (cg_file ?p ''memory.max'') (limit_text (mem_max c)),
        write_file (cg_file ?p ''memory.swap.max'') ''0''];
      State_Monad.return (r, c\<lparr>cg_path := ?p\<rparr>) }) (0, c\<lparr>cg_path := ?p\<rparr>) 10" by (simp del: all_ok.simps)
  have "gives A 0 (container_cgroup_init c) (0, c\<lparr>cg_path := ?p\<rparr>) (3 + 10)"
    unfolding container_cgroup_init_def
    by (rule gives_bind [OF w0])
      (use rest in \<open>simp_all add: w [simplified] Let_def del: all_ok.simps\<close>)
  then show ?thesis by simp
qed


lemma gives_idmaps:
  assumes "run_granted A c"
  shows "gives A 16 (container_write_idmaps (ret (A 15))) 0 11"
proof -
  have g: "0 \<le> ret (A i)" for i using assms by (simp add: run_granted_def)
  let ?p = "ret (A 15)"
  have w: "ret (A 19) = int (length (idmap_line (ret (A 16))))" "ret (A 22) = int (length ''deny'')"
      "ret (A 25) = int (length (idmap_line (ret (A 17))))"
    using assms by (simp_all add: run_granted_def)
  have "gives A 18 (all_ok [write_file (proc_file ?p ''uid_map'') (idmap_line (ret (A 16))),
      write_file (proc_file ?p ''setgroups'') ''deny'',
      write_file (proc_file ?p ''gid_map'') (idmap_line (ret (A 17)))]) 0 (3 + (3 + (3 + 0)))"
    by (intro gives_all_ok_Cons gives_all_ok_Nil gives_write_file g) (simp_all add: w [simplified])
  then have "gives A 16 (container_write_idmaps ?p) 0 (1 + (1 + 9))"
    unfolding container_write_idmaps_def
    by (intro gives_bind [OF gives_sys]) (simp del: all_ok.simps)
  then show ?thesis by simp
qed

lemma gives_enter:
  assumes "run_granted A c"
  shows "gives A 27 (container_cgroup_enter c' (ret (A 15))) 0 3"
proof -
  have "gives A 27 (container_cgroup_enter c' (ret (A 15))) 0 (3 + 0)"
    unfolding container_cgroup_enter_def
    by (intro gives_all_ok_Cons gives_all_ok_Nil gives_write_file) (use assms in \<open>simp_all add: run_granted_def\<close>)
  then show ?thesis by simp
qed

lemma gives_wait: "(\<And>i. 0 \<le> ret (A i)) \<Longrightarrow> \<not> net_enabled c \<Longrightarrow>
    gives A n (container_wait c stack child) (status_code (out1 (A n))) 3"
  by (simp add: gives_def container_wait_def container_cleanup_def os_run Let_def flip: not_le)

lemma gives_release: "(\<And>i. 0 \<le> ret (A i)) \<Longrightarrow> ret (A (Suc n)) = 1 \<Longrightarrow> gives A n (container_release c) 0 3"
  by (simp add: gives_def container_release_def os_run)

lemma gives_parent:
  assumes "run_granted A c" and "\<not> net_enabled c'"
  shows "gives A 16 (container_parent c' stack (ret (A 15))) (status_code (out1 (A 33))) 20"
proof -
  have g: "0 \<le> ret (A i)" for i using assms by (simp add: run_granted_def)
  have "gives A 16 (all_ok [container_write_idmaps (ret (A 15)), container_cgroup_enter c' (ret (A 15))]) 0 (11 + (3 + 0))"
    by (intro gives_all_ok_Cons gives_all_ok_Nil gives_idmaps [OF assms(1)])
      (use gives_enter [OF assms(1)] in simp)
  moreover have "gives A 30 (container_release c') 0 3"
    by (rule gives_release [OF g]) (use assms(1) in \<open>simp add: run_granted_def\<close>)
  moreover have "gives A 33 (container_wait c' stack (ret (A 15))) (status_code (out1 (A 33))) 3"
    by (rule gives_wait [OF g assms(2)])
  ultimately have "gives A 16 (container_parent c' stack (ret (A 15))) (status_code (out1 (A 33))) (14 + (3 + 3))"
    unfolding container_parent_def using assms(2)
    by (intro gives_bind [where a = 0]) (auto intro: gives_bind [where a = 0 and n = 30 and k = 3 and l = 3, simplified] simp del: all_ok.simps)
  then show ?thesis by simp
qed


lemma gives_run:
  assumes "run_granted A c" and "\<not> net_enabled c"
  shows "gives A 0 (container_run c) (status_code (out1 (A 33))) 36"
proof -
  have g: "0 \<le> ret (A i)" for i using assms by (simp add: run_granted_def)
  have g14: "ret (A 14) \<noteq> 0" using assms by (simp add: run_granted_def)
  let ?c = "c\<lparr>cg_path := snprintf PATH_MAX (cgroup_base c @ ''/'' @ name c)\<rparr>"
  let ?c' = "?c\<lparr>sync_r := sint (out1 (A 13)), sync_w := sint (out2 (A 13))\<rparr>"
  have cg: "gives A 0 (container_cgroup_init c) (0, ?c) 13"
    by (rule gives_cgroup_init [OF g]) (use assms(1) in \<open>simp_all add: run_granted_def\<close>)
  have par: "gives A 16 (container_parent ?c' (ret (A 14)) (ret (A 15))) (status_code (out1 (A 33))) 20"
    by (rule gives_parent [OF assms(1)]) (use assms(2) in simp)
  show ?thesis
  proof (unfold gives_def, intro allI impI)
    fix s :: kst assume s: "answers s = A \<and> length (calls s) = 0"
    obtain s1 where s1: "run_state (container_cgroup_init c) s = ((0, ?c), s1)" "answers s1 = A" "length (calls s1) = 13"
      using givesD [OF cg] s by fastforce
    obtain s2 where s2: "run_state (sys Pipe) s1 = (A 13, s2)" "answers s2 = A" "length (calls s2) = 14"
      using givesD [OF gives_sys] s1 by fastforce
    obtain s3 where s3: "run_state (sys (Malloc CONTAINER_STACK_SIZE)) s2 = (A 14, s3)" "answers s3 = A" "length (calls s3) = 15"
      using givesD [OF gives_sys] s2 by fastforce
    obtain s4 where s4: "run_state (sys (Clone (ret (A 14) + int CONTAINER_STACK_SIZE) (container_namespaces OR SIGCHLD))) s3
        = (A 15, s4)" "answers s4 = A" "length (calls s4) = 16"
      using givesD [OF gives_sys] s3 by fastforce
    obtain s5 where s5: "run_state (container_parent ?c' (ret (A 14)) (ret (A 15))) s4 = (status_code (out1 (A 33)), s5)"
        "answers s5 = A" "length (calls s5) = 36"
      using givesD [OF par] s4 by fastforce
    have nn: "\<not> ret (A i) < 0" for i using g by (simp add: not_less)
    have "run_state (container_run c) s = (status_code (out1 (A 33)), s5)"
      by (simp add: container_run_def run_bind s1 s2 s3 s4 s5 [simplified] Let_def g14 nn)
    then show "\<exists>s'. run_state (container_run c) s = (status_code (out1 (A 33)), s') \<and> answers s' = A \<and> length (calls s') = 0 + 36"
      using s5 by simp
  qed
qed

section \<open>A failed start\<close>

text \<open>A clone that fails ends the run with the cgroup made and never removed, and both ends of
  the release pipe open.\<close>

lemma clone_failure:
  assumes init: "run_state (container_cgroup_init c) s = ((0, c1), s1)"
    and pipe: "0 \<le> ret (answers s1 (length (calls s1)))"
    and stack: "ret (answers s1 (length (calls s1) + 1)) \<noteq> 0"
    and clone: "ret (answers s1 (length (calls s1) + 2)) < 0"
  shows "\<exists>xs. calls (snd (run_state (container_run c) s)) = calls s @ xs
    \<and> fst (run_state (container_run c) s) = -1
    \<and> effects Map.empty xs = cgroup_effects c @ [Did Pipe]"
proof -
  from cgroup_init_run [OF init] obtain xs fs where xs: "calls s1 = calls s @ xs" "foldl opens Map.empty xs = Map.empty"
      "effects Map.empty xs = cgroup_effects c" by (metis order_refl)
  let ?n = "length (calls s1)"
  let ?f = "\<lambda>i. answers s1 (?n + i)"
  let ?cl = "Clone (ret (?f 1) + int CONTAINER_STACK_SIZE) (container_namespaces OR SIGCHLD)"
  let ?ys = "[(Pipe, ?f 0), (Malloc CONTAINER_STACK_SIZE, ?f 1), (?cl, ?f 2),
    (Perror ''container: clone'' (err (?f 2)), ?f 3), (Free (ret (?f 1)), ?f 4)]"
  have "fst (run_state (container_run c) s) = -1 \<and> calls (snd (run_state (container_run c) s)) = calls s1 @ ?ys"
    using pipe stack clone by (simp add: container_run_def run_bind init os_run Let_def numeral_eq_Suc)
  moreover have "effects Map.empty (xs @ ?ys) = cgroup_effects c @ [Did Pipe]"
    using pipe clone by (simp add: effects_append xs quiet_def)
  ultimately show ?thesis by (metis append.assoc xs(1))
qed

section \<open>From the command to the caller\<close>

text \<open>
  The way of the status: init has forked the command as \<open>cmd\<close>; it collects \<open>n\<close> orphans and then
  the command, which ended with \<open>e\<close>.
\<close>

lemma reap_ending:
  assumes "0 < cmd" and "end_ok e"
    and "\<And>i. i < n \<Longrightarrow> 0 < ret (answers s (length (calls s) + i)) \<and> ret (answers s (length (calls s) + i)) \<noteq> cmd"
    and "ret (answers s (length (calls s) + n)) = cmd" "out1 (answers s (length (calls s) + n)) = end_word e"
  shows "\<exists>s'. reap cmd s = Some (end_code e, s')"
  using reap_collects [OF assms(3,1,4)] assms(2,5) by (metis status_ending)

text \<open>Init itself: released and granted its setup, it launches the command.\<close>

lemma init_launches:
  assumes g: "\<And>i. 0 \<le> ret (answers s i)" and "\<not> net_enabled c"
    and "ret (answers s (length (calls s) + 1)) = 1"
  shows "\<exists>s'. answers s' = answers s \<and> length (calls s) + 3 \<le> length (calls s') \<and> container_init ar c s = container_launch c s'"
proof -
  let ?A = "answers s" and ?n = "length (calls s)"
  have p: "gives ?A ?n (do { emit (Close (sync_w c)); sys (Read (sync_r c) 1) }) (?A (?n + 1)) (1 + 1)"
    by (rule gives_seq [OF gives_emit gives_sys])
  obtain s1 where s1: "run_state (do { emit (Close (sync_w c)); sys (Read (sync_r c) 1) }) s = (?A (?n + 1), s1)"
      "answers s1 = ?A" "length (calls s1) = ?n + 2" using givesD [OF p] by fastforce
  obtain k where k: "gives ?A (?n + 2 + 1) (container_setup ar c) 0 k" using gives_setup [of ?A, OF g assms(2)] by blast
  obtain s2 where s2: "run_state (do { emit (Close (sync_r c)); container_setup ar c }) s1 = (0, s2)" "answers s2 = ?A"
      "length (calls s2) = ?n + 2 + (1 + k)"
    using givesD [OF gives_seq [OF gives_emit k]] s1 by fastforce
  have "container_init ar c s = container_launch c s2"
    unfolding container_init_def s1(1) s2(1) prod.case using assms(3) by simp
  then show ?thesis using s2 by auto
qed

lemma launch_execs: "ret (answers s (length (calls s))) = 0 \<Longrightarrow> 0 \<le> ret (answers s (Suc (length (calls s)))) \<Longrightarrow>
    \<exists>s'. container_launch c s = Some (Execs (hd (argv c)) (argv c), s')"
  by (simp add: container_launch_def os_run)

lemma launch_reaps:
  assumes "0 < ret (answers s (length (calls s)))"
    and "ret (answers s (Suc (length (calls s)))) = ret (answers s (length (calls s)))"
  shows "\<exists>s'. container_launch c s = Some (Returns (status_code (out1 (answers s (Suc (length (calls s)))))), s')"
proof -
  obtain s1 where s1: "run_state (sys (Fork (argv c))) s = (answers s (length (calls s)), s1)"
      "answers s1 = answers s" "length (calls s1) = Suc (length (calls s))" by (simp add: os_run)
  have "\<exists>s'. reap (ret (answers s (length (calls s)))) s1 = Some (status_code (out1 (answers s (Suc (length (calls s))))), s')"
    using reap_collects [of 0 s1 "ret (answers s (length (calls s)))"] s1 assms by auto
  then show ?thesis unfolding container_launch_def s1(1) prod.case using assms(1) by auto
qed

lemma status_travels:
  assumes "container_init ar c s = Some (Returns v, s')" and "run_granted A c'" and "\<not> net_enabled c'"
    and "out1 (A 33) = exit_word v"
    and "p = \<lparr>answers = A, calls = [], errno = 0\<rparr>"
  shows "fst (run_state (container_run c') p) = v mod 256"
proof -
  have "answers p = A" "length (calls p) = 0" using assms(5) by simp_all
  from givesD [OF gives_run [OF assms(2,3)] this] show ?thesis
    using assms(4) by (auto simp: status_exit)
qed

end
