(* ===== verification/Container_Main.thy ===== *)
theory Container_Main
  imports Container_Spec
begin

text \<open>
  The entry point of the container runtime (project_2/runtime/main.c): the byte-count parser, the
  option loop, \<^verbatim>\<open>main\<close>, and the properties of the runtime as a whole, with concrete kernels as
  witnesses.
\<close>

section \<open>main.c\<close>

definition mul_long :: "int \<Rightarrow> int \<Rightarrow> ub + int" where
  "mul_long a b = (if - (2 ^ 63) \<le> a * b \<and> a * b < 2 ^ 63 then Inr (a * b) else Inl SignedOverflow)"

definition parse_bytes :: "string \<Rightarrow> ub + int" where
  "parse_bytes s = (if s = ''max'' then Inr (-1)
     else case strtoll s of (v, rest) \<Rightarrow>
       (case rest of [] \<Rightarrow> Inr v
        | u # _ \<Rightarrow>
          if u = CHR ''k'' \<or> u = CHR ''K'' then mul_long v 1024
          else if u = CHR ''m'' \<or> u = CHR ''M'' then mul_long v (1024 * 1024)
          else if u = CHR ''g'' \<or> u = CHR ''G'' then mul_long v (1024 * 1024 * 1024)
          else Inr v))"

definition initial_config :: container where
  "initial_config = \<lparr> argv = [], name = ''cs360v'', hostname = ''container'', rootfs = ''rootfs'',
     pids_max = 64, mem_max = 64 * 1024 * 1024, cgroup_base = ''/sys/fs/cgroup'',
     net_enabled = False, net_ifname = ''ceth0'', net_ip = ''10.44.0.2'', net_prefix = 24,
     net_gw = CONTAINER_BRIDGE_GW, sync_r = 0, sync_w = 0, cg_path = [], net_host_if = [] \<rparr>"

datatype parsed = Command container "string list" | Unknown string | Undefined ub

text \<open>The option loop; an option that needs an argument and has none is no option.\<close>

fun read_options :: "container \<Rightarrow> string list \<Rightarrow> parsed" where
  "read_options c [] = Command c []"
| "read_options c (a # as) =
    (if a = ''--'' then Command c as
     else if a = ''--net'' then read_options (c\<lparr>net_enabled := True\<rparr>) as
     else case as of
       v # as' \<Rightarrow>
         if a = ''--name'' then read_options (c\<lparr>name := v\<rparr>) as'
         else if a = ''--hostname'' then read_options (c\<lparr>hostname := v\<rparr>) as'
         else if a = ''--rootfs'' then read_options (c\<lparr>rootfs := v\<rparr>) as'
         else if a = ''--pids-max'' then
           (case parse_bytes v of Inl u \<Rightarrow> Undefined u | Inr n \<Rightarrow> read_options (c\<lparr>pids_max := n\<rparr>) as')
         else if a = ''--mem-max'' then
           (case parse_bytes v of Inl u \<Rightarrow> Undefined u | Inr n \<Rightarrow> read_options (c\<lparr>mem_max := n\<rparr>) as')
         else if a = ''--cgroup-base'' then read_options (c\<lparr>cgroup_base := v\<rparr>) as'
         else if a = ''--net-ip'' then read_options (c\<lparr>net_ip := v\<rparr>) as'
         else if a \<noteq> [] \<and> hd a = CHR ''-'' then Unknown a
         else Command c (a # as)
     | [] \<Rightarrow> if a \<noteq> [] \<and> hd a = CHR ''-'' then Unknown a else Command c [a])"

definition container_main :: "string list \<Rightarrow> (ub + int) os" where
  "container_main av = (case read_options initial_config (tl av) of
     Undefined u \<Rightarrow> State_Monad.return (Inl u)
   | Unknown a \<Rightarrow> do { emit (Stderr (''unknown option '' @ a)); State_Monad.return (Inr 2) }
   | Command c cmd \<Rightarrow>
       if cmd = [] then do {
         emit (Stderr (''usage: '' @ hd av @ '' [opts] [--] <command> [args...]''));
         State_Monad.return (Inr 2) }
       else do { r \<leftarrow> container_run (c\<lparr>argv := cmd\<rparr>); State_Monad.return (Inr r) })"

section \<open>Command lines\<close>

datatype unit_suffix = Bytes | Kilo | Mega | Giga

fun unit_text :: "unit_suffix \<Rightarrow> string" where
  "unit_text Bytes = ''''"
| "unit_text Kilo = ''k''"
| "unit_text Mega = ''m''"
| "unit_text Giga = ''g''"

fun unit_factor :: "unit_suffix \<Rightarrow> nat" where
  "unit_factor Bytes = 1"
| "unit_factor Kilo = 2 ^ 10"
| "unit_factor Mega = 2 ^ 20"
| "unit_factor Giga = 2 ^ 30"

lemma dec_not_max: "dec n @ r \<noteq> ''max''"
proof
  assume "dec n @ r = ''max''"
  moreover have "dec n \<noteq> []" by (subst dec.simps) simp
  ultimately have "CHR ''m'' \<in> set (dec n)" by (cases "dec n") auto
  then obtain d where "d < 10" "CHR ''m'' = digit d" using dec_set by blast
  then have "is_digit (CHR ''m'')" using digit_facts(1) by metis
  then show False by (simp add: is_digit_def)
qed

lemma unit_not_digit: "unit_text u = [] \<or> \<not> is_digit (hd (unit_text u))"
  by (cases u) (simp_all add: is_digit_def)

lemma parse_bytes_dec:
  assumes "n * unit_factor u < 2 ^ 63"
  shows "parse_bytes (dec n @ unit_text u) = Inr (int (n * unit_factor u))"
proof -
  have n: "n < 2 ^ 63"
    using assms by (cases u) auto
  have s: "strtoll (dec n @ unit_text u) = (int n, unit_text u)"
    by (rule strtoll_dec [OF unit_not_digit n])
  show ?thesis unfolding parse_bytes_def s prod.case if_not_P [OF dec_not_max]
    using assms by (cases u) (simp_all add: mul_long_def)
qed


datatype opt = Name string | Hostname string | Rootfs string | Pids_max nat unit_suffix
  | Mem_max nat unit_suffix | Cgroup_base string | Net | Net_ip string

fun render :: "opt \<Rightarrow> string list" where
  "render (Name v) = [''--name'', v]"
| "render (Hostname v) = [''--hostname'', v]"
| "render (Rootfs v) = [''--rootfs'', v]"
| "render (Pids_max n u) = [''--pids-max'', dec n @ unit_text u]"
| "render (Mem_max n u) = [''--mem-max'', dec n @ unit_text u]"
| "render (Cgroup_base v) = [''--cgroup-base'', v]"
| "render Net = [''--net'']"
| "render (Net_ip v) = [''--net-ip'', v]"

fun set_opt :: "container \<Rightarrow> opt \<Rightarrow> container" where
  "set_opt c (Name v) = c\<lparr>name := v\<rparr>"
| "set_opt c (Hostname v) = c\<lparr>hostname := v\<rparr>"
| "set_opt c (Rootfs v) = c\<lparr>rootfs := v\<rparr>"
| "set_opt c (Pids_max n u) = c\<lparr>pids_max := int (n * unit_factor u)\<rparr>"
| "set_opt c (Mem_max n u) = c\<lparr>mem_max := int (n * unit_factor u)\<rparr>"
| "set_opt c (Cgroup_base v) = c\<lparr>cgroup_base := v\<rparr>"
| "set_opt c Net = c\<lparr>net_enabled := True\<rparr>"
| "set_opt c (Net_ip v) = c\<lparr>net_ip := v\<rparr>"

fun opt_ok :: "opt \<Rightarrow> bool" where
  "opt_ok (Pids_max n u) = (n * unit_factor u < 2 ^ 63)"
| "opt_ok (Mem_max n u) = (n * unit_factor u < 2 ^ 63)"
| "opt_ok _ = True"

lemma options_render:
  assumes "opt_ok o1"
  shows "read_options c (render o1 @ as) = read_options (set_opt c o1) as"
  using assms parse_bytes_dec by (cases o1) simp_all

lemma options_renders:
  "list_all opt_ok os \<Longrightarrow> read_options c (concat (map render os) @ ''--'' # cmd) = Command (foldl set_opt c os) cmd"
  by (induction os arbitrary: c) (simp_all add: options_render)

lemma limit_text_nat: "n < 2 ^ 63 \<Longrightarrow> limit_text (int n) = dec n"
proof -
  assume n: "n < 2 ^ 63"
  have "length (dec n) \<le> 20" by (rule dec_length) (use n in auto)
  then show ?thesis by (simp add: limit_text_def snprintf_def dec_int_def)
qed

lemma memory_limit_effect:
  assumes "n * unit_factor u < 2 ^ 63"
  shows "Wrote (cg_file (snprintf PATH_MAX (cgroup_base c @ ''/'' @ name c)) ''memory.max'') (dec (n * unit_factor u))
    \<in> set (cgroup_effects (set_opt c (Mem_max n u)))"
  using limit_text_nat [OF assms] by (simp add: cgroup_effects_def Let_def del: of_nat_mult)

section \<open>Concrete kernels\<close>

text \<open>A kernel that gives every call the answer \<open>d\<close>, \<open>w\<close>, except the calls of a table.\<close>

definition kernel :: "int \<Rightarrow> u32 \<Rightarrow> (nat \<times> int \<times> u32) list \<Rightarrow> kst" where
  "kernel d w tab = \<lparr> answers = (\<lambda>n. case map_of tab n of
       Some (v, x) \<Rightarrow> \<lparr> ret = v, err = 0, out1 = x, out2 = 0, data = [] \<rparr>
     | None \<Rightarrow> \<lparr> ret = d, err = 0, out1 = w, out2 = 0, data = [] \<rparr>), calls = [], errno = 0 \<rparr>"

definition demo :: container where
  "demo = initial_config\<lparr>argv := [''/bin/true'']\<rparr>"

lemma demo_simps [simp]: "argv demo = [''/bin/true'']" "\<not> net_enabled demo" "name demo = ''cs360v''"
    "cgroup_base demo = ''/sys/fs/cgroup''" "pids_max demo = 64" "mem_max demo = 67108864"
  by (simp_all add: demo_def initial_config_def)

lemma kernel_simps [simp]: "calls (kernel d w tab) = []"
  by (simp add: kernel_def)

lemma kernel_grants: "0 \<le> d \<Longrightarrow> \<forall>(i, v, w) \<in> set tab. 0 \<le> v \<Longrightarrow> 0 \<le> ret (answers (kernel d w tab) i)"
  by (auto simp: kernel_def split: option.split dest: map_of_SomeD)

lemma demo_execs: "\<exists>s'. container_init X86_64 demo (kernel 0 0 [(1, 1, 0)]) = Some (Execs ''/bin/true'' [''/bin/true''], s')"
proof -
  let ?k = "kernel 0 0 [(1, 1, 0)]"
  have g: "0 \<le> ret (answers ?k i)" for i by (rule kernel_grants) simp_all
  have "\<not> net_enabled demo" "ret (answers ?k (length (calls ?k) + 1)) = 1"
    by (simp_all add: kernel_def)
  from init_launches [OF g this] obtain s' where s': "answers s' = answers ?k" "3 \<le> length (calls s')"
      "container_init X86_64 demo ?k = container_launch demo s'" by auto
  then have "ret (answers s' (length (calls s'))) = 0" by (auto simp: kernel_def)
  then show ?thesis using launch_execs [of s' demo] g s' by auto
qed

text \<open>A command killed by signal 9: what init returns.\<close>

lemma demo_killed: "\<exists>s'. container_init X86_64 demo (kernel 1 9 []) = Some (Returns 137, s')"
proof -
  let ?k = "kernel 1 9 []"
  have g: "0 \<le> ret (answers ?k i)" for i by (rule kernel_grants) simp_all
  have one: "ret (answers ?k i) = 1" "out1 (answers ?k i) = end_word (Killed 9)" for i
    by (simp_all add: kernel_def signal_word_def)
  from init_launches [OF g _ one(1), of demo] obtain s' where s': "answers s' = answers ?k"
      "container_init X86_64 demo ?k = container_launch demo s'" by auto
  have "status_code (out1 (answers s' i)) = 137" for i
    using status_ending [of "Killed 9"] unfolding s'(1) one by simp
  then show ?thesis using launch_reaps [of s' demo] one(1) s' by auto
qed

text \<open>The answers a whole run needs (the child is process 1, uid and gid are 1), and the status
  word of an init that returns 137.\<close>

definition demo_answers :: "nat \<Rightarrow> sysr" where
  "demo_answers = answers (kernel 1 0 [(1, 13, 0), (5, 2, 0), (8, 8, 0), (11, 1, 0), (19, 5, 0), (22, 4, 0),
     (25, 5, 0), (28, 1, 0), (31, 1, 0), (33, 1, exit_word 137)])"

lemma dec_demo: "dec 64 = ''64''" "dec 67108864 = ''67108864''" "dec 1 = ''1''"
  by (simp_all add: dec.simps digit_def)

lemma demo_granted: "run_granted demo_answers demo"
proof -
  have "0 \<le> ret (demo_answers i)" for i unfolding demo_answers_def by (rule kernel_grants) simp_all
  then show ?thesis
    by (simp add: run_granted_def) (simp add: demo_answers_def kernel_def limit_text_def dec_int_def snprintf_def
        idmap_line_def dec_demo One_nat_def [symmetric] del: One_nat_def)
qed


section \<open>Properties of the runtime\<close>



text \<open>C11: The child is released only into its limits: a run that writes the release byte, or that
  returns a status, has first enabled the controllers, made the cgroup, written \<^verbatim>\<open>pids.max\<close>,
  \<^verbatim>\<open>memory.max\<close> and \<^verbatim>\<open>memory.swap.max\<close>, made the pipe, cloned the child into all five namespaces,
  written its \<^verbatim>\<open>uid_map\<close>, \<^verbatim>\<open>setgroups\<close> and \<^verbatim>\<open>gid_map\<close>, entered it into the cgroup, and (with
  networking) run only \<^verbatim>\<open>ip\<close> commands in between, in this order and every write complete.\<close>

theorem released_into_limits:
  assumes "run_state (container_run c) s = (r, s')" and "calls s' = calls s @ xs"
    and "r \<noteq> -1 \<or> Sent fd v \<in> set (effects Map.empty xs)"
  shows "\<exists>uid gid a st. (Clone st (container_namespaces OR SIGCHLD), a) \<in> set xs
    \<and> released c (ret a) uid gid (effects Map.empty xs)"
proof -
  from run_releases [OF assms(1)] obtain ys where ys: "calls s' = calls s @ ys" "r = -1 \<and> no_sent (effects Map.empty ys)
    \<or> (\<exists>uid gid a st. (Clone st (container_namespaces OR SIGCHLD), a) \<in> set ys
        \<and> released c (ret a) uid gid (effects Map.empty ys))" by blast
  have "ys = xs" using ys(1) assms(2) by simp
  then show ?thesis using ys(2) assms(3) unfolding no_sent_def by blast
qed

lemma demo_run: "\<exists>s'. run_state (container_run demo) \<lparr>answers = demo_answers, calls = [], errno = 0\<rparr> = (137, s')"
proof -
  have "out1 (demo_answers 33) = exit_word 137" by (simp add: demo_answers_def kernel_def)
  then have "status_code (out1 (demo_answers 33)) = 137" by (simp add: status_exit)
  then show ?thesis
    using givesD [OF gives_run [OF demo_granted], of "\<lparr>answers = demo_answers, calls = [], errno = 0\<rparr>"] by auto
qed

theorem released_into_limits_witness:
  "\<exists>xs uid gid a. released demo a uid gid (effects Map.empty xs)"
proof -
  obtain s' where r: "run_state (container_run demo) \<lparr>answers = demo_answers, calls = [], errno = 0\<rparr> = (137, s')"
    using demo_run by blast
  show ?thesis using released_into_limits [OF r, of "calls s'"] by fastforce
qed



text \<open>C35: Init collects every child that dies before the command, any number of them, and returns
  when the command is collected: its exit status, or 128 plus the signal that killed it.\<close>

theorem reap_returns:
  assumes "0 < cmd" and "end_ok e"
    and "\<And>i. i < n \<Longrightarrow> 0 < ret (answers s (length (calls s) + i)) \<and> ret (answers s (length (calls s) + i)) \<noteq> cmd"
    and "ret (answers s (length (calls s) + n)) = cmd" and "out1 (answers s (length (calls s) + n)) = end_word e"
  shows "\<exists>s'. reap cmd s = Some (end_code e, s')"
  by (rule reap_ending [OF assms])

theorem reap_returns_witness:
  "\<exists>s'. reap 7 (kernel 3 0 [(2, 7, end_word (Killed 11))]) = Some (139, s')"
  using reap_returns [of 7 "Killed 11" 2 "kernel 3 0 [(2, 7, end_word (Killed 11))]"] by (simp add: kernel_def)

text \<open>A start that fails after the cgroup was made leaves it behind: when \<^verbatim>\<open>clone\<close> fails, the
  run returns -1, its only effects are the cgroup, its limits and the pipe, and nothing is removed.\<close>

theorem clone_failure_leaks:
  assumes "run_state (container_cgroup_init c) s = ((0, c1), s1)"
    and "0 \<le> ret (answers s1 (length (calls s1)))"
    and "ret (answers s1 (length (calls s1) + 1)) \<noteq> 0"
    and "ret (answers s1 (length (calls s1) + 2)) < 0"
  shows "\<exists>xs. calls (snd (run_state (container_run c) s)) = calls s @ xs
    \<and> fst (run_state (container_run c) s) = -1
    \<and> effects Map.empty xs = cgroup_effects c @ [Did Pipe]"
  by (rule clone_failure [OF assms])

theorem clone_failure_leaks_witness:
  "\<exists>s xs. calls (snd (run_state (container_run demo) s)) = calls s @ xs
    \<and> effects Map.empty xs = cgroup_effects demo @ [Did Pipe]"
proof -
  let ?s = "kernel 1 0 [(1, 13, 0), (5, 2, 0), (8, 8, 0), (15, -1, 0)]"
  have "gives (answers ?s) 0 (container_cgroup_init demo)
      (0, demo\<lparr>cg_path := snprintf PATH_MAX (cgroup_base demo @ ''/'' @ name demo)\<rparr>) 13"
    by (rule gives_cgroup_init)
      (simp_all add: kernel_def limit_text_def dec_int_def snprintf_def dec_demo split: option.split if_split)
  from givesD [OF this, of ?s] obtain s1 where
    s1: "run_state (container_cgroup_init demo) ?s
      = ((0, demo\<lparr>cg_path := snprintf PATH_MAX (cgroup_base demo @ ''/'' @ name demo)\<rparr>), s1)"
      "answers s1 = answers ?s" "length (calls s1) = 13" by auto
  have "0 \<le> ret (answers s1 (length (calls s1)))" "ret (answers s1 (length (calls s1) + 1)) \<noteq> 0"
      "ret (answers s1 (length (calls s1) + 2)) < 0" by (simp_all add: s1(2,3) kernel_def)
  from clone_failure_leaks [OF s1(1) this] show ?thesis by blast
qed



end
