(* ===== verification/Runner.thy ===== *)
theory Runner
  imports Posix
begin

text \<open>
  The function runner (project_2/runner/runner.c; the copies of projects 3 and 4 differ in
  comments only, the one of project 1 in \<open>read_once\<close>) and the unikernel library that replaces its
  platform hooks (project_3/app/libukstats/ukstats.c).  The code runs in the process monad of
  \<open>Posix\<close>; the globals are the record \<open>runner\<close>; what a built-in function does to an overflowing
  sum is undefined behaviour and ends the model with \<open>Inl\<close>.
\<close>

section \<open>Globals\<close>

definition RUNNER_DEFAULT_PORT :: int where "RUNNER_DEFAULT_PORT = 8080"
definition LINE_MAX_LEN :: nat where "LINE_MAX_LEN = 4096"
definition LOG_DEBUG :: int where "LOG_DEBUG = 0"
definition LOG_INFO :: int where "LOG_INFO = 1"
definition LOG_WARN :: int where "LOG_WARN = 2"
definition LOG_ERROR :: int where "LOG_ERROR = 3"
definition LOG_BACKOFF_MAX :: nat where "LOG_BACKOFF_MAX = 64"
definition LOG_PEND_SIZE :: nat where "LOG_PEND_SIZE = 2048"

definition EINTR :: int where "EINTR = 4"
definition EAGAIN :: int where "EAGAIN = 11"
definition ENOTCONN :: int where "ENOTCONN = 107"
definition EALREADY :: int where "EALREADY = 114"
definition EINPROGRESS :: int where "EINPROGRESS = 115"
definition O_NONBLOCK :: int where "O_NONBLOCK = 0x800"

text \<open>The globals of the log sink, and the state of the platform behind the hooks.\<close>

record 'p runner =
  log_host :: "string option"
  log_port :: int
  log_fd :: int
  log_skip :: nat
  log_backoff :: nat
  log_pending :: string
  plat :: 'p

definition runner_init :: "'p \<Rightarrow> 'p runner" where
  "runner_init p = \<lparr> log_host = None, log_port = 0, log_fd = -1, log_skip = 0, log_backoff = 1,
     log_pending = [], plat = p \<rparr>"

section \<open>The log sink\<close>

text \<open>The digits of one octet, leading zeros allowed, and four of them.\<close>

fun octet :: "nat \<Rightarrow> string \<Rightarrow> (nat \<times> string) option" where
  "octet v [] = Some (v, [])"
| "octet v (c # cs) =
    (if is_digit c then
       (if 255 < 10 * v + digit_val c then None else octet (10 * v + digit_val c) cs)
     else Some (v, c # cs))"

fun octets :: "nat \<Rightarrow> u32 \<Rightarrow> string \<Rightarrow> (u32 \<times> string) option" where
  "octets 0 v s = Some (v, s)"
| "octets (Suc k) v s =
    (let s1 = (if k < 3 then (case s of c # r \<Rightarrow> if c = CHR ''.'' then Some r else None | [] \<Rightarrow> None) else Some s)
     in case s1 of None \<Rightarrow> None
        | Some r \<Rightarrow>
          (case r of [] \<Rightarrow> None
           | c # _ \<Rightarrow> if \<not> is_digit c then None
             else (case octet 0 r of None \<Rightarrow> None
                   | Some (b, r') \<Rightarrow> octets k (push_bit 8 v OR of_nat b) r')))"

definition parse_ipv4 :: "string \<Rightarrow> u32 option" where
  "parse_ipv4 s = (case octets 4 0 s of Some (v, []) \<Rightarrow> Some v | _ \<Rightarrow> None)"

definition log_sink_connect :: "'p runner \<Rightarrow> int os" where
  "log_sink_connect R = (case log_host R of None \<Rightarrow> State_Monad.return (-1)
   | Some h \<Rightarrow>
     (case parse_ipv4 h of None \<Rightarrow> State_Monad.return (-1)
      | Some ip \<Rightarrow> do {
          fd \<leftarrow> sys Socket_stream;
          if ret fd < 0 then State_Monad.return (-1)
          else do {
            fl \<leftarrow> sys (Fcntl (ret fd) 3 0);
            (if 0 \<le> ret fl then do {
               _ \<leftarrow> sys (Fcntl (ret fd) 4 (ret fl OR O_NONBLOCK)); State_Monad.return () }
             else State_Monad.return ());
            r \<leftarrow> sys (Connect (ret fd) ip (word_of_int (log_port R)));
            e \<leftarrow> get_errno;
            if ret r \<noteq> 0 \<and> e \<noteq> EINPROGRESS \<and> e \<noteq> EAGAIN \<and> e \<noteq> EALREADY then do {
              _ \<leftarrow> sys (Close (ret fd)); State_Monad.return (-1) }
            else State_Monad.return (ret fd)
          }
        }))"

definition log_pend :: "'p runner \<Rightarrow> string \<Rightarrow> 'p runner" where
  "log_pend R line =
    (if LOG_PEND_SIZE < length (log_pending R) + length line then R
     else R\<lparr>log_pending := log_pending R @ line\<rparr>)"

definition log_would_block :: "bool os" where
  "log_would_block = do {
     e \<leftarrow> get_errno;
     State_Monad.return (e = EAGAIN \<or> e = ENOTCONN \<or> e = EINPROGRESS) }"

text \<open>The next retry is a widening number of records away.\<close>

definition back_off :: "'p runner \<Rightarrow> 'p runner" where
  "back_off R = R\<lparr>log_skip := log_backoff R,
     log_backoff := (if log_backoff R < LOG_BACKOFF_MAX then 2 * log_backoff R else log_backoff R)\<rparr>"

definition log_sink_drop :: "'p runner \<Rightarrow> 'p runner os" where
  "log_sink_drop R = do {
     _ \<leftarrow> sys (Close (log_fd R));
     State_Monad.return (back_off (R\<lparr>log_fd := -1\<rparr>)) }"

text \<open>After a write that did not take everything: drop the connection unless it may still come
  up, and keep the line.\<close>

definition log_keep :: "'p runner \<Rightarrow> string \<Rightarrow> 'p runner os" where
  "log_keep R line = do {
     b \<leftarrow> log_would_block;
     R \<leftarrow> (if \<not> b then log_sink_drop R else State_Monad.return R);
     State_Monad.return (log_pend R line) }"

definition log_write_line :: "'p runner \<Rightarrow> string \<Rightarrow> 'p runner os" where
  "log_write_line R line = do {
     w \<leftarrow> sys (Write (log_fd R) line);
     if ret w \<noteq> int (length line) then log_keep R line else State_Monad.return R }"

text \<open>With a connection: what is pending goes first.\<close>

definition log_flush_and_write :: "'p runner \<Rightarrow> string \<Rightarrow> 'p runner os" where
  "log_flush_and_write R line =
    (if log_pending R \<noteq> [] then do {
       w \<leftarrow> sys (Write (log_fd R) (log_pending R));
       if ret w = int (length (log_pending R)) then log_write_line (R\<lparr>log_pending := []\<rparr>) line
       else if 0 < ret w then
         State_Monad.return (log_pend (R\<lparr>log_pending := drop (nat (ret w)) (log_pending R)\<rparr>) line)
       else log_keep R line }
     else log_write_line R line)"

definition log_sink_emit :: "'p runner \<Rightarrow> string \<Rightarrow> 'p runner os" where
  "log_sink_emit R line =
    (if log_host R = None then State_Monad.return R
     else if log_fd R < 0 then
       (if 0 < log_skip R then State_Monad.return (log_pend (R\<lparr>log_skip := log_skip R - 1\<rparr>) line)
        else do {
          fd \<leftarrow> log_sink_connect R;
          if fd < 0 then State_Monad.return (log_pend (back_off (R\<lparr>log_fd := fd\<rparr>)) line)
          else log_flush_and_write (R\<lparr>log_fd := fd, log_backoff := 1\<rparr>) line })
     else log_flush_and_write R line)"

text \<open>One record: the level, the text cut to the line buffer, a newline.\<close>

definition log_line :: "int \<Rightarrow> string \<Rightarrow> string" where
  "log_line level t = take (LINE_MAX_LEN - 2) (dec_int level @ [SP] @ t) @ [NL]"

definition logrec :: "'p runner \<Rightarrow> int \<Rightarrow> string \<Rightarrow> 'p runner os" where
  "logrec R level t = do {
     _ \<leftarrow> sys (Stdout (log_line level t));
     log_sink_emit R (log_line level t) }"

section \<open>The platform hooks\<close>

text \<open>What a build provides: the text of \<^verbatim>\<open>INFO\<close>, into a buffer of the given size, and the count of
  invocations.  An ordinary process has no state.\<close>

record 'p hooks =
  platform_info :: "'p \<Rightarrow> nat \<Rightarrow> int \<times> string \<times> 'p"
  on_invoke :: "'p \<Rightarrow> string \<Rightarrow> 'p"

definition posix_info :: "unit \<Rightarrow> nat \<Rightarrow> int \<times> string \<times> unit" where
  "posix_info p n = (0, snprintf n ''platform=posix'', ())"

definition posix_on_invoke :: "unit \<Rightarrow> string \<Rightarrow> unit" where
  "posix_on_invoke p fn = ()"

definition posix_hooks :: "unit hooks" where
  "posix_hooks = \<lparr> platform_info = posix_info, on_invoke = posix_on_invoke \<rparr>"

text \<open>The unikernel: the boot time, the counter, and what the kernel answers to the clock and to
  the allocator (\<open>None\<close>: no default allocator), by the number of questions asked so far.\<close>

record ukstats =
  boot_ns :: u64
  invocations :: u64
  uk_clock :: "nat \<Rightarrow> u64"
  uk_heap :: "nat \<Rightarrow> u64 option"
  uk_asked :: nat

definition ukstats_boot :: "ukstats \<Rightarrow> string \<times> ukstats" where
  "ukstats_boot u =
    (let t = uk_clock u (uk_asked u) in
     (''1 unikernel booted in '' @ dec (unat (t div 1000000)) @ '' ms'' @ [NL],
      u\<lparr>boot_ns := t, uk_asked := Suc (uk_asked u)\<rparr>))"

definition uk_on_invoke :: "ukstats \<Rightarrow> string \<Rightarrow> ukstats" where
  "uk_on_invoke u fn = u\<lparr>invocations := invocations u + 1\<rparr>"

definition uk_info :: "ukstats \<Rightarrow> nat \<Rightarrow> int \<times> string \<times> ukstats" where
  "uk_info u n =
    (let freemem = (case uk_heap u (uk_asked u) of None \<Rightarrow> -1 | Some b \<Rightarrow> sint b);
         uptime_ms = uk_clock u (uk_asked u) div 1000000;
         boot_ms = boot_ns u div 1000000
     in (0, snprintf n (''platform=unikraft freemem='' @ dec_int freemem
           @ '' uptime_ms='' @ dec (unat uptime_ms) @ '' boot_ms='' @ dec (unat boot_ms)
           @ '' invocations='' @ dec (unat (invocations u))),
         u\<lparr>uk_asked := Suc (uk_asked u)\<rparr>))"

definition uk_hooks :: "ukstats hooks" where
  "uk_hooks = \<lparr> platform_info = uk_info, on_invoke = uk_on_invoke \<rparr>"

section \<open>The built-in functions\<close>

fun count_words :: "int \<Rightarrow> bool \<Rightarrow> string \<Rightarrow> int" where
  "count_words n in_word [] = n"
| "count_words n in_word (c # cs) =
    (if isspace c then count_words n False cs
     else if \<not> in_word then count_words (n + 1) True cs
     else count_words n in_word cs)"

definition fn_wordcount :: "string \<Rightarrow> ub + (int \<times> string)" where
  "fn_wordcount payload = Inr (0, snprintf 256 (dec_int (count_words 0 False payload)))"

definition add_long_long :: "int \<Rightarrow> int \<Rightarrow> ub + int" where
  "add_long_long a b = (if - (2 ^ 63) \<le> a + b \<and> a + b < 2 ^ 63 then Inr (a + b) else Inl SignedOverflow)"

lemma sum_rest_less:
  assumes "(v, rest) = strtoll (dropWhile isspace p)" and "rest \<noteq> dropWhile isspace p"
  shows "length rest < length p"
proof -
  have "length rest < length (dropWhile isspace p)"
    using strtoll_rest_less [of "dropWhile isspace p"] assms by (metis snd_conv)
  also have "\<dots> \<le> length p" by (rule length_dropWhile_le)
  finally show ?thesis .
qed

text \<open>The sum so far and the rest of the payload; \<open>Inr None\<close> is the rejection of a token.\<close>

function sum_tokens :: "int \<Rightarrow> string \<Rightarrow> ub + int option" where
  "sum_tokens acc p =
    (let q = dropWhile isspace p in
     if q = [] then Inr (Some acc)
     else case strtoll q of (v, rest) \<Rightarrow>
       if rest = q then Inr None
       else case add_long_long acc v of Inl u \<Rightarrow> Inl u | Inr a \<Rightarrow> sum_tokens a rest)"
  by pat_completeness auto
termination
  by (relation "measure (\<lambda>(acc, p). length p)") (auto dest: sum_rest_less)

declare sum_tokens.simps [simp del]

definition fn_sum :: "string \<Rightarrow> ub + (int \<times> string)" where
  "fn_sum payload = (case sum_tokens 0 payload of Inl u \<Rightarrow> Inl u
     | Inr None \<Rightarrow> Inr (-1, ''not a number'')
     | Inr (Some t) \<Rightarrow> Inr (0, snprintf 256 (dec_int t)))"

definition FUNCS :: "(string \<times> (string \<Rightarrow> ub + (int \<times> string))) list" where
  "FUNCS = [(''wordcount'', fn_wordcount), (''sum'', fn_sum)]"

section \<open>The protocol\<close>

definition strip_crlf :: "string \<Rightarrow> string" where
  "strip_crlf line = rev (dropWhile (\<lambda>c. c = NL \<or> c = CR) (rev (cstr line)))"

text \<open>The name (cut to 63 bytes) and the payload of a \<^verbatim>\<open>RUN\<close> line.\<close>

definition run_args :: "string \<Rightarrow> string \<times> string" where
  "run_args l = (let rest = dropWhile (\<lambda>c. c = SP) (drop 4 l) in
     case split_at SP rest of Some (n, p) \<Rightarrow> (take 63 n, p) | None \<Rightarrow> (take 63 rest, []))"

definition run_function :: "'p hooks \<Rightarrow> 'p runner \<Rightarrow> string \<Rightarrow> string \<Rightarrow> nat \<Rightarrow> ((ub + string) \<times> 'p runner) os" where
  "run_function H R name payload rn = (case map_of FUNCS name of
     Some f \<Rightarrow> do {
       R \<leftarrow> logrec R LOG_INFO (''invoke '' @ name);
       case f payload of Inl u \<Rightarrow> State_Monad.return (Inl u, R)
       | Inr (rc, res) \<Rightarrow>
         if rc \<noteq> 0 then do {
           R \<leftarrow> logrec R LOG_ERROR (name @ '' failed: '' @ res);
           State_Monad.return (Inr (snprintf rn (''ERR '' @ res @ [NL])), R) }
         else do {
           R \<leftarrow> logrec R LOG_INFO (name @ '' -> '' @ res);
           State_Monad.return (Inr (snprintf rn (''OK '' @ res @ [NL])),
             R\<lparr>plat := on_invoke H (plat R) name\<rparr>) } }
   | None \<Rightarrow> do {
       R \<leftarrow> logrec R LOG_WARN (''no such function: '' @ name);
       State_Monad.return (Inr (snprintf rn (''ERR no such function'' @ [NL])), R) })"

definition handle_line :: "'p hooks \<Rightarrow> 'p runner \<Rightarrow> string \<Rightarrow> nat \<Rightarrow> ((ub + string) \<times> 'p runner) os" where
  "handle_line H R line rn = (let l = strip_crlf line in
     if l = ''PING'' then do {
       R \<leftarrow> logrec R LOG_DEBUG ''ping'';
       State_Monad.return (Inr (snprintf rn (''PONG'' @ [NL])), R) }
     else if l = ''INFO'' then
       (case platform_info H (plat R) 256 of (rc, t, p) \<Rightarrow>
         let info = (if rc \<noteq> 0 then ''unavailable'' else t) in do {
           R \<leftarrow> logrec (R\<lparr>plat := p\<rparr>) LOG_DEBUG ''info'';
           State_Monad.return (Inr (snprintf rn (''OK '' @ info @ [NL])), R) })
     else if l = ''FUNCS'' then do {
       R \<leftarrow> logrec R LOG_DEBUG ''funcs'';
       State_Monad.return (Inr (snprintf rn (''OK'' @ concat (map (\<lambda>f. SP # fst f) FUNCS) @ [NL])), R) }
     else if take 4 l = ''RUN '' then
       (case run_args l of (name, payload) \<Rightarrow> run_function H R name payload rn)
     else do {
       R \<leftarrow> logrec R LOG_WARN ''bad command'';
       State_Monad.return (Inr (snprintf rn (''ERR bad command'' @ [NL])), R) })"

section \<open>The server\<close>

text \<open>One command: read until the newline, the end, an error or a full buffer.  A positive answer
  has stored that many bytes.\<close>

function read_line :: "int \<Rightarrow> string \<Rightarrow> kst \<Rightarrow> string \<times> kst" where
  "read_line fd got s =
    (if LINE_MAX_LEN - 1 \<le> length got then (got, s)
     else case run_state (sys (Read fd (LINE_MAX_LEN - 1 - length got))) s of (a, s1) \<Rightarrow>
       if ret a \<le> 0 \<or> data a = [] then (got, s1)
       else let got' = got @ take (LINE_MAX_LEN - 1 - length got) (data a) in
         if NL \<in> set got' then (got', s1) else read_line fd got' s1)"
  by pat_completeness auto
termination
proof (relation "measure (\<lambda>(fd, got, s). LINE_MAX_LEN - 1 - length got)")
  fix fd got and s :: kst and x a s1 got'
  assume l: "\<not> LINE_MAX_LEN - 1 \<le> length got" and a: "\<not> (ret a \<le> 0 \<or> data a = [])"
    and got': "got' = got @ take (LINE_MAX_LEN - 1 - length got) (data a)"
  from a have "0 < length (data a)" by simp
  then have "length got < length got'" using l got' by simp
  then show "((fd, got', s1), fd, got, s) \<in> measure (\<lambda>(fd, got, s). LINE_MAX_LEN - 1 - length got)"
    using l by simp
qed simp

declare read_line.simps [simp del]

text \<open>The runner of project 1 reads once.\<close>

definition read_once :: "int \<Rightarrow> kst \<Rightarrow> string \<times> kst" where
  "read_once fd s = (case run_state (sys (Read fd (LINE_MAX_LEN - 1))) s of (a, s1) \<Rightarrow>
     if 0 < ret a then (take (LINE_MAX_LEN - 1) (data a), s1) else ([], s1))"

definition serve_conn :: "(int \<Rightarrow> kst \<Rightarrow> string \<times> kst) \<Rightarrow> 'p hooks \<Rightarrow> 'p runner \<Rightarrow> int \<Rightarrow> kst \<Rightarrow> (ub + 'p runner) \<times> kst" where
  "serve_conn rd H R c s =
    (case rd c s of (line, s1) \<Rightarrow>
     if line = [] then (Inr R, snd (run_state (sys (Close c)) s1))
     else (case run_state (handle_line H R line 512) s1 of
       ((Inl u, _), s2) \<Rightarrow> (Inl u, s2)
     | ((Inr reply, R1), s2) \<Rightarrow>
         (Inr R1, snd (run_state (do { _ \<leftarrow> sys (Write c reply); sys (Close c) }) s2))))"

text \<open>The accept loop; \<open>se\<close> is \<^verbatim>\<open>strerror\<close>.\<close>

partial_function (option) serve :: "(int \<Rightarrow> kst \<Rightarrow> string \<times> kst) \<Rightarrow> (int \<Rightarrow> string) \<Rightarrow> 'p hooks \<Rightarrow> 'p runner \<Rightarrow> int \<Rightarrow> kst
    \<Rightarrow> ((ub + 'p runner) \<times> kst) option" where
  "serve rd se H R fd s =
    (case run_state (sys (Accept fd)) s of (c, s1) \<Rightarrow>
     if ret c < 0 then
       (if err c = EINTR then serve rd se H R fd s1
        else (case run_state (logrec R LOG_ERROR (''accept: '' @ se (err c))) s1 of (R1, s2) \<Rightarrow>
          Some (Inr R1, snd (run_state (sys (Close fd)) s2))))
     else (case serve_conn rd H R (ret c) s1 of
       (Inl u, s2) \<Rightarrow> Some (Inl u, s2)
     | (Inr R1, s2) \<Rightarrow> serve rd se H R1 fd s2))"

section \<open>Start\<close>

text \<open>The arguments in order; a bad collector address is logged, or turns the sink off.\<close>

fun runner_args :: "'p runner \<Rightarrow> int \<Rightarrow> string list \<Rightarrow> ('p runner \<times> int) os" where
  "runner_args R port [] = State_Monad.return (R, port)"
| "runner_args R port (a # as) =
    (case as of
       hp # as' \<Rightarrow>
         if a = ''--log-to'' then
           (case split_at (CHR '':'') hp of
              None \<Rightarrow> do {
                R \<leftarrow> logrec R LOG_WARN (''ignoring --log-to '' @ hp @ '' (want HOST:PORT)'');
                runner_args R port as' }
            | Some (h, p) \<Rightarrow>
                let n = atoi p in
                runner_args (R\<lparr>log_host := (if n \<le> 0 \<or> 65535 < n then None else Some (take 63 h)), log_port := n\<rparr>) port as')
         else if a = [] \<or> hd a \<noteq> CHR ''-'' then runner_args R (atoi a) as
         else runner_args R port as
     | [] \<Rightarrow> State_Monad.return (R, if a = [] \<or> hd a \<noteq> CHR ''-'' then atoi a else port))"

definition runner_listen :: "(int \<Rightarrow> string) \<Rightarrow> 'p runner \<Rightarrow> int \<Rightarrow> (int option \<times> 'p runner) os" where
  "runner_listen se R port = do {
     fd \<leftarrow> sys Socket_stream;
     if ret fd < 0 then do {
       e \<leftarrow> get_errno; R \<leftarrow> logrec R LOG_ERROR (''socket: '' @ se e); State_Monad.return (None, R) }
     else do {
       _ \<leftarrow> sys (Setsockopt (ret fd));
       b \<leftarrow> sys (Bind (ret fd) (word_of_int port));
       if ret b \<noteq> 0 then do {
         e \<leftarrow> get_errno; R \<leftarrow> logrec R LOG_ERROR (''bind '' @ dec_int port @ '': '' @ se e);
         State_Monad.return (None, R) }
       else do {
         l \<leftarrow> sys (Listen (ret fd) 8);
         if ret l \<noteq> 0 then do {
           e \<leftarrow> get_errno; R \<leftarrow> logrec R LOG_ERROR (''listen: '' @ se e); State_Monad.return (None, R) }
         else do {
           R \<leftarrow> logrec R LOG_INFO (''function runner started on port '' @ dec_int port);
           State_Monad.return (Some (ret fd), R) }
       }
     }
   }"

definition runner_main :: "(int \<Rightarrow> kst \<Rightarrow> string \<times> kst) \<Rightarrow> (int \<Rightarrow> string) \<Rightarrow> 'p hooks \<Rightarrow> 'p \<Rightarrow> string list \<Rightarrow> kst
    \<Rightarrow> ((ub + int) \<times> kst) option" where
  "runner_main rd se H p av s =
    (case run_state (runner_args (runner_init p) RUNNER_DEFAULT_PORT (tl av)) s of ((R, port), s1) \<Rightarrow>
     let port = (if port \<le> 0 \<or> 65535 < port then RUNNER_DEFAULT_PORT else port) in
     (case run_state (runner_listen se R port) s1 of
        ((None, _), s2) \<Rightarrow> Some (Inr 1, s2)
      | ((Some fd, R1), s2) \<Rightarrow>
          map_option (apfst (map_sum id (\<lambda>_. 0))) (serve rd se H R1 fd s2)))"

end
