(* ===== verification/Runner_Spec.thy ===== *)
theory Runner_Spec
  imports Runner Netlog
begin

text \<open>
  What the function runner guarantees: its address parser and built-in functions against
  reference definitions, the framing of the protocol for every platform behind the hooks, the
  bounded log sink and the order of what it sends, the records as the log listener of project 1
  reads them, the assembly of a command from any number of reads, and the invocation count the
  unikernel reports.
\<close>

section \<open>Addresses\<close>

lemma octet_digits:
  assumes "list_all is_digit ds" and "r = [] \<or> \<not> is_digit (hd r)"
    and "foldl (\<lambda>a c. 10 * a + digit_val c) v ds \<le> 255"
  shows "octet v (ds @ r) = Some (foldl (\<lambda>a c. 10 * a + digit_val c) v ds, r)"
  using assms
proof (induction ds arbitrary: v)
  case Nil
  then show ?case by (cases r) auto
next
  case (Cons c ds)
  have mono: "w \<le> foldl (\<lambda>a c. 10 * a + digit_val c) w es" for w es
  proof (induction es arbitrary: w)
    case (Cons e es)
    have "w \<le> 10 * w + digit_val e" by simp
    also have "\<dots> \<le> foldl (\<lambda>a c. 10 * a + digit_val c) (10 * w + digit_val e) es" by (rule Cons.IH)
    finally show ?case by simp
  qed simp
  have "10 * v + digit_val c \<le> 255" using mono [of "10 * v + digit_val c" ds] Cons.prems(3) by simp
  then show ?case using Cons by simp
qed

lemma dec_all_digits: "list_all is_digit (dec n)"
  using dec_chars(1) by (auto simp: list_all_iff)

lemma octet_dec: "n \<le> 255 \<Longrightarrow> r = [] \<or> \<not> is_digit (hd r) \<Longrightarrow> octet 0 (dec n @ r) = Some (n, r)"
  using octet_digits [OF dec_all_digits, of r 0 n] dec_val_dec [of n] by (simp add: dec_val_def)

lemma dec_starts: "\<exists>c cs. dec n = c # cs \<and> is_digit c"
  using dec_all_digits [of n] by (cases "dec n") auto

lemma octets_first:
  assumes "n \<le> 255" and "r = [] \<or> \<not> is_digit (hd r)"
  shows "octets 4 v (dec n @ r) = octets 3 (push_bit 8 v OR of_nat n) r"
proof -
  have "octets (Suc 3) v (dec n @ r) = octets 3 (push_bit 8 v OR of_nat n) r"
    using dec_starts [of n] octet_dec [OF assms] by (subst octets.simps(2)) (auto simp del: octet.simps)
  then show ?thesis by simp
qed

lemma octets_next: "k < 3 \<Longrightarrow> n \<le> 255 \<Longrightarrow> r = [] \<or> \<not> is_digit (hd r) \<Longrightarrow>
    octets (Suc k) v (CHR ''.'' # dec n @ r) = octets k (push_bit 8 v OR of_nat n) r"
  using dec_starts [of n] octet_dec [of n r] by (auto simp del: octet.simps split: list.split)

lemma dot_no_digit [simp]: "\<not> is_digit (CHR ''.'')"
  by (simp add: is_digit_def)

definition dotted :: "nat \<Rightarrow> nat \<Rightarrow> nat \<Rightarrow> nat \<Rightarrow> string" where
  "dotted a b c d = dec a @ ''.'' @ dec b @ ''.'' @ dec c @ ''.'' @ dec d"

definition address :: "nat \<Rightarrow> nat \<Rightarrow> nat \<Rightarrow> nat \<Rightarrow> u32" where
  "address a b c d = of_nat (((a * 256 + b) * 256 + c) * 256 + d)"

lemma push_or_add:
  assumes "n < 256" and "v < 2 ^ 24"
  shows "push_bit 8 (of_nat v :: u32) OR of_nat n = of_nat (v * 256 + n)"
proof -
  have n: "(of_nat n :: u32) = take_bit 8 (of_nat n)"
    using assms(1) by (simp add: take_bit_of_nat take_bit_nat_eq_self)
  have "push_bit 8 (of_nat v :: u32) OR take_bit 8 (of_nat n) = push_bit 8 (of_nat v) + take_bit 8 (of_nat n)"
    by (rule disjunctive_add [symmetric]) (auto simp: bit_push_bit_iff bit_take_bit_iff)
  then have "push_bit 8 (of_nat v :: u32) OR of_nat n = push_bit 8 (of_nat v) + of_nat n"
    by (simp only: n [symmetric])
  also have "\<dots> = of_nat (v * 256 + n)" by (simp add: push_bit_eq_mult)
  finally show ?thesis .
qed


lemma parse_dotted:
  assumes "a < 256" and "b < 256" and "c < 256" and "d < 256"
  shows "parse_ipv4 (dotted a b c d) = Some (address a b c d)"
proof -
  let ?dot = "\<lambda>r. CHR ''.'' # r"
  have e: "dotted a b c d = dec a @ ?dot (dec b @ ?dot (dec c @ ?dot (dec d @ [])))"
    by (simp add: dotted_def)
  have s: "octets (Suc k) (of_nat v) (?dot (dec n @ r)) = octets k (of_nat (v * 256 + n)) r"
    if "k < 3" "n < 256" "v < 2 ^ 24" "r = [] \<or> \<not> is_digit (hd r)" for k v n r
    using octets_next [of k n r "of_nat v"] that push_or_add [of n v] by simp
  have "octets 4 0 (dotted a b c d) = octets 3 (of_nat a) (?dot (dec b @ ?dot (dec c @ ?dot (dec d @ []))))"
    unfolding e using assms(1) by (subst octets_first) simp_all
  also have "3 = Suc 2" by simp
  also have "octets (Suc 2) (of_nat a) (?dot (dec b @ ?dot (dec c @ ?dot (dec d @ []))))
      = octets 2 (of_nat (a * 256 + b)) (?dot (dec c @ ?dot (dec d @ [])))"
    by (rule s) (use assms in simp_all)
  also have "2 = Suc 1" by simp
  also have "octets (Suc 1) (of_nat (a * 256 + b)) (?dot (dec c @ ?dot (dec d @ [])))
      = octets 1 (of_nat ((a * 256 + b) * 256 + c)) (?dot (dec d @ []))"
    by (rule s) (use assms in simp_all)
  also have "1 = Suc 0" by simp
  also have "octets (Suc 0) (of_nat ((a * 256 + b) * 256 + c)) (?dot (dec d @ []))
      = octets 0 (of_nat (((a * 256 + b) * 256 + c) * 256 + d)) []"
    by (rule s) (use assms in simp_all)
  finally show ?thesis by (simp add: parse_ipv4_def address_def)
qed

section \<open>The built-in functions\<close>

text \<open>The places where a word starts.\<close>

definition word_starts :: "bool \<Rightarrow> string \<Rightarrow> nat set" where
  "word_starts w p = {i. i < length p \<and> \<not> isspace (p ! i) \<and> (if i = 0 then \<not> w else isspace (p ! (i - 1)))}"

lemma word_starts_Cons: "word_starts w (c # cs) =
    (if \<not> isspace c \<and> \<not> w then {0} else {}) \<union> Suc ` word_starts (\<not> isspace c) cs"
proof (rule set_eqI)
  fix i
  show "i \<in> word_starts w (c # cs) \<longleftrightarrow>
      i \<in> (if \<not> isspace c \<and> \<not> w then {0} else {}) \<union> Suc ` word_starts (\<not> isspace c) cs"
  proof (cases i)
    case 0
    then show ?thesis by (auto simp: word_starts_def)
  next
    case (Suc j)
    then show ?thesis by (cases j) (auto simp: word_starts_def)
  qed
qed

lemma finite_word_starts: "finite (word_starts w p)"
  by (simp add: word_starts_def)

lemma card_word_starts: "card (word_starts w (c # cs)) =
    (if \<not> isspace c \<and> \<not> w then 1 else 0) + card (word_starts (\<not> isspace c) cs)"
  unfolding word_starts_Cons by (subst card_Un_disjoint) (auto simp: finite_word_starts card_image)

lemma count_words_starts: "count_words n w p = n + int (card (word_starts w p))"
proof (induction p arbitrary: n w)
  case Nil
  then show ?case by (simp add: word_starts_def)
next
  case (Cons c cs)
  then show ?case by (cases "isspace c"; cases w) (simp_all add: card_word_starts)
qed

text \<open>Printed numbers read back.\<close>

lemma strtoll_dec_int:
  assumes "- (2 ^ 63) \<le> x" and "x < 2 ^ 63" and "r = [] \<or> \<not> is_digit (hd r)"
  shows "strtoll (dec_int x @ r) = (x, r)"
proof (cases "x < 0")
  case False
  then show ?thesis using strtoll_dec [OF assms(3), of "nat x"] assms(2) by (simp add: dec_int_def nat_less_iff)
next
  case True
  have "scan_int (CHR ''-'' # dec (nat (- x)) @ r) = (True, dec (nat (- x)), r)"
    by (simp add: scan_int_def scan_sign_def isspace_def takeWhile_digits_dec [OF assms(3)])
  then show ?thesis using True assms(1) by (simp add: dec_int_def strtoll_def)
qed

lemma dec_int_start: "\<exists>c cs. dec_int x = c # cs \<and> \<not> isspace c"
proof (cases "x < 0")
  case True
  then show ?thesis by (simp add: dec_int_def isspace_def)
next
  case False
  obtain c cs where "dec (nat x) = c # cs" by (cases "dec (nat x)") auto
  moreover from this have "\<not> isspace c" using dec_chars(2) [of c "nat x"] by simp
  ultimately show ?thesis using False by (simp add: dec_int_def)
qed

text \<open>A payload of numbers, each after any white space, and the partial sums it runs through.\<close>

definition number_text :: "(string \<times> int) list \<Rightarrow> string \<Rightarrow> string" where
  "number_text ns w = concat (map (\<lambda>(s, x). s @ dec_int x) ns) @ w"

definition in_range :: "int \<Rightarrow> bool" where
  "in_range x = (- (2 ^ 63) \<le> x \<and> x < 2 ^ 63)"

fun sums_ok :: "int \<Rightarrow> int list \<Rightarrow> bool" where
  "sums_ok a [] = True"
| "sums_ok a (x # xs) = (in_range x \<and> in_range (a + x) \<and> sums_ok (a + x) xs)"

definition blanks :: "string \<Rightarrow> bool" where
  "blanks s = list_all isspace s"

lemma blanks_drop: "blanks s \<Longrightarrow> dropWhile isspace (s @ r) = dropWhile isspace r"
  by (induction s) (auto simp: blanks_def)

lemma blank_no_digit: "isspace c \<Longrightarrow> \<not> is_digit c"
  by (auto simp: isspace_def is_digit_def)

lemma number_text_head:
  assumes "list_all (\<lambda>(s, x). s \<noteq> [] \<and> blanks s) ns" and "blanks w"
  shows "number_text ns w = [] \<or> \<not> is_digit (hd (number_text ns w))"
proof (cases ns)
  case Nil
  then show ?thesis using assms(2) by (cases w) (auto simp: number_text_def blanks_def blank_no_digit)
next
  case (Cons n ns')
  obtain s x where "n = (s, x)" by force
  then show ?thesis using assms(1) Cons by (cases s) (auto simp: number_text_def blanks_def blank_no_digit)
qed

lemma sum_tokens_numbers:
  assumes "list_all (\<lambda>(s, x). s \<noteq> [] \<and> blanks s) ns" and "blanks w" and "sums_ok a (map snd ns)"
  shows "sum_tokens a (number_text ns w) = Inr (Some (a + sum_list (map snd ns)))"
  using assms
proof (induction ns arbitrary: a)
  case Nil
  have "dropWhile isspace w = []" using Nil.prems(2) by (simp add: blanks_def list_all_iff)
  then show ?case by (simp add: number_text_def sum_tokens.simps [of a])
next
  case (Cons n ns)
  obtain s x where n: "n = (s, x)" by force
  let ?r = "number_text ns w"
  have r: "?r = [] \<or> \<not> is_digit (hd ?r)" using Cons.prems(1,2) by (intro number_text_head) simp_all
  have t: "number_text (n # ns) w = s @ dec_int x @ ?r" by (simp add: number_text_def n)
  obtain c cs where c: "dec_int x = c # cs" "\<not> isspace c" using dec_int_start by blast
  have q: "dropWhile isspace (number_text (n # ns) w) = dec_int x @ ?r"
    using Cons.prems(1) unfolding t by (simp add: blanks_drop n c)
  have x: "strtoll (dec_int x @ ?r) = (x, ?r)"
    by (rule strtoll_dec_int [OF _ _ r]) (use Cons.prems(3) in \<open>simp_all add: n in_range_def\<close>)
  have "sum_tokens a (number_text (n # ns) w) = sum_tokens (a + x) ?r"
    by (subst sum_tokens.simps) (use q x c Cons.prems(3) in \<open>simp add: Let_def n in_range_def add_long_long_def\<close>)
  also have "\<dots> = Inr (Some (a + x + sum_list (map snd ns)))"
    using Cons.prems by (intro Cons.IH) (simp_all add: n)
  finally show ?case by (simp add: n)
qed

text \<open>Two numbers need no blank between them when the second has a sign.\<close>

lemma sum_accepts_glued: "sum_tokens 0 ''1-2'' = Inr (Some (-1))"
  by (simp add: sum_tokens.simps isspace_def strtoll_def scan_int_def scan_sign_def is_digit_def dec_val_def
      digit_val_def add_long_long_def)


section \<open>The protocol without the log\<close>

text \<open>What a command is answered and what becomes of the platform, with no log in sight.\<close>

definition answer :: "'p hooks \<Rightarrow> 'p \<Rightarrow> string \<Rightarrow> nat \<Rightarrow> (ub + string) \<times> 'p" where
  "answer H p line rn = (let l = strip_crlf line in
     if l = ''PING'' then (Inr (snprintf rn (''PONG'' @ [NL])), p)
     else if l = ''INFO'' then
       (case platform_info H p 256 of (rc, t, p') \<Rightarrow>
         (Inr (snprintf rn (''OK '' @ (if rc \<noteq> 0 then ''unavailable'' else t) @ [NL])), p'))
     else if l = ''FUNCS'' then (Inr (snprintf rn (''OK'' @ concat (map (\<lambda>f. SP # fst f) FUNCS) @ [NL])), p)
     else if take 4 l = ''RUN '' then
       (case run_args l of (name, payload) \<Rightarrow>
         (case map_of FUNCS name of
            None \<Rightarrow> (Inr (snprintf rn (''ERR no such function'' @ [NL])), p)
          | Some f \<Rightarrow>
            (case f payload of Inl u \<Rightarrow> (Inl u, p)
             | Inr (rc, res) \<Rightarrow>
               if rc \<noteq> 0 then (Inr (snprintf rn (''ERR '' @ res @ [NL])), p)
               else (Inr (snprintf rn (''OK '' @ res @ [NL])), on_invoke H p name))))
     else (Inr (snprintf rn (''ERR bad command'' @ [NL])), p))"

text \<open>The log sink does not touch the platform.\<close>

abbreviation same_plat :: "'p \<Rightarrow> 'p runner os \<Rightarrow> bool" where
  "same_plat p \<equiv> ensures (\<lambda>R. plat R = p)"

lemma plat_log_pend [simp]: "plat (log_pend R line) = plat R"
  by (simp add: log_pend_def)

lemma plat_back_off [simp]: "plat (back_off R) = plat R"
  by (simp add: back_off_def)

lemma same_plat_drop: "plat R = p \<Longrightarrow> same_plat p (log_sink_drop R)"
  unfolding log_sink_drop_def by (intro ensures_bind ensures_return) simp

lemma same_plat_keep: "plat R = p \<Longrightarrow> same_plat p (log_keep R line)"
  unfolding log_keep_def
  by (rule ensures_bind, rule ensures_then [where Q = "\<lambda>R. plat R = p"])
    (auto intro: ensures_if same_plat_drop ensures_return)

lemma same_plat_write: "plat R = p \<Longrightarrow> same_plat p (log_write_line R line)"
  unfolding log_write_line_def by (intro ensures_bind ensures_if same_plat_keep ensures_return)

lemma same_plat_flush: "plat R = p \<Longrightarrow> same_plat p (log_flush_and_write R line)"
  unfolding log_flush_and_write_def
  by (intro ensures_if ensures_bind same_plat_keep same_plat_write ensures_return) simp_all

lemma same_plat_emit: "plat R = p \<Longrightarrow> same_plat p (log_sink_emit R line)"
  unfolding log_sink_emit_def
  by (intro ensures_if ensures_bind same_plat_flush ensures_return) simp_all

lemma same_plat_logrec: "plat R = p \<Longrightarrow> same_plat p (logrec R level t)"
  unfolding logrec_def by (intro ensures_bind same_plat_emit)

lemma logrec_run: "\<exists>R' s'. run_state (logrec R level t) s = (R', s') \<and> plat R' = plat R"
  using ensuresD [OF same_plat_logrec [OF refl]] by (metis prod.exhaust)

lemma run_function_answer:
  "\<exists>R' s'. run_state (run_function H R name payload rn) s =
     ((fst (case map_of FUNCS name of
            None \<Rightarrow> (Inr (snprintf rn (''ERR no such function'' @ [NL])), plat R)
          | Some f \<Rightarrow>
            (case f payload of Inl u \<Rightarrow> (Inl u, plat R)
             | Inr (rc, res) \<Rightarrow>
               if rc \<noteq> 0 then (Inr (snprintf rn (''ERR '' @ res @ [NL])), plat R)
               else (Inr (snprintf rn (''OK '' @ res @ [NL])), on_invoke H (plat R) name))), R'), s')
     \<and> plat R' = snd (case map_of FUNCS name of
            None \<Rightarrow> (Inr (snprintf rn (''ERR no such function'' @ [NL])), plat R)
          | Some f \<Rightarrow>
            (case f payload of Inl u \<Rightarrow> (Inl u, plat R)
             | Inr (rc, res) \<Rightarrow>
               if rc \<noteq> 0 then (Inr (snprintf rn (''ERR '' @ res @ [NL])), plat R)
               else (Inr (snprintf rn (''OK '' @ res @ [NL])), on_invoke H (plat R) name)))"
proof (cases "map_of FUNCS name")
  case None
  obtain R1 s1 where "run_state (logrec R LOG_WARN (''no such function: '' @ name)) s = (R1, s1)" "plat R1 = plat R"
    using logrec_run by blast
  then show ?thesis by (simp add: run_function_def None run_bind)
next
  case (Some f)
  obtain R1 s1 where 1: "run_state (logrec R LOG_INFO (''invoke '' @ name)) s = (R1, s1)" "plat R1 = plat R"
    using logrec_run by blast
  show ?thesis
  proof (cases "f payload")
    case (Inl u)
    then show ?thesis using 1 by (simp add: run_function_def Some run_bind)
  next
    case (Inr v)
    obtain rc res where v: "v = (rc, res)" by force
    obtain R2 s2 where 2: "run_state (logrec R1 LOG_ERROR (name @ '' failed: '' @ res)) s1 = (R2, s2)" "plat R2 = plat R1"
      using logrec_run by blast
    obtain R3 s3 where 3: "run_state (logrec R1 LOG_INFO (name @ '' -> '' @ res)) s1 = (R3, s3)" "plat R3 = plat R1"
      using logrec_run by blast
    show ?thesis using 1 2 3 by (simp add: run_function_def Some run_bind Inr v)
  qed
qed

lemma handle_line_answer:
  "\<exists>R' s'. run_state (handle_line H R line rn) s = ((fst (answer H (plat R) line rn), R'), s')
     \<and> plat R' = snd (answer H (plat R) line rn)"
proof -
  let ?l = "strip_crlf line"
  obtain rc t p where i: "platform_info H (plat R) 256 = (rc, t, p)" by (metis prod.exhaust)
  note log = logrec_run [of R LOG_DEBUG "''ping''" s] logrec_run [of "R\<lparr>plat := p\<rparr>" LOG_DEBUG "''info''" s]
    logrec_run [of R LOG_DEBUG "''funcs''" s] logrec_run [of R LOG_WARN "''bad command''" s]
  consider "?l = ''PING''" | "?l = ''INFO''" | "?l = ''FUNCS''" | "?l \<noteq> ''PING''" "?l \<noteq> ''INFO''" "?l \<noteq> ''FUNCS''" "take 4 ?l = ''RUN ''"
    | "?l \<noteq> ''PING''" "?l \<noteq> ''INFO''" "?l \<noteq> ''FUNCS''" "take 4 ?l \<noteq> ''RUN ''" by blast
  then show ?thesis
  proof cases
    case 1 then show ?thesis using log(1) by (auto simp: handle_line_def answer_def Let_def run_bind)
  next
    case 2 then show ?thesis using log(2) by (auto simp: handle_line_def answer_def Let_def run_bind i)
  next
    case 3 then show ?thesis using log(3) by (auto simp: handle_line_def answer_def Let_def run_bind)
  next
    case 4
    obtain name payload where a: "run_args ?l = (name, payload)" by force
    show ?thesis unfolding handle_line_def answer_def Let_def
      using 4 run_function_answer [of H R name payload rn s] by (simp only: if_False if_True a prod.case simp_thms)
  next
    case 5 then show ?thesis using log(4) by (auto simp: handle_line_def answer_def Let_def run_bind)
  qed
qed


section \<open>Platforms\<close>

text \<open>The interface of the hooks: the text of \<^verbatim>\<open>INFO\<close> fits its buffer and is one line.\<close>

definition one_line :: "string \<Rightarrow> bool" where
  "one_line t = (NL \<notin> set t \<and> NUL \<notin> set t)"

lemma one_line_simps [simp]: "one_line []" "one_line (s @ t) \<longleftrightarrow> one_line s \<and> one_line t"
    "one_line (c # t) \<longleftrightarrow> c \<noteq> NL \<and> c \<noteq> NUL \<and> one_line t" "one_line (dec n)" "one_line (dec_int i)"
  by (auto simp: one_line_def dec_int_def)

lemma one_line_snprintf: "one_line t \<Longrightarrow> one_line (snprintf n t)"
  by (auto simp: one_line_def snprintf_def dest: in_set_takeD)

lemma snprintf_all: "length t < n \<Longrightarrow> snprintf n t = t"
  by (simp add: snprintf_def)

lemma snprintf_length: "0 < n \<Longrightarrow> length (snprintf n t) < n"
  by (simp add: snprintf_def min_def) arith

lemma functions_one_line:
  assumes "map_of FUNCS name = Some f" and "f payload = Inr (rc, res)"
  shows "one_line res \<and> length res < 256"
proof -
  have "f = fn_wordcount \<or> f = fn_sum" using map_of_SomeD [OF assms(1)] by (auto simp: FUNCS_def)
  then show ?thesis
    using assms(2) snprintf_length [of 256]
    by (auto simp: fn_wordcount_def fn_sum_def one_line_snprintf split: sum.splits option.splits)
qed

locale platform =
  fixes info :: "'p \<Rightarrow> nat \<Rightarrow> int \<times> string \<times> 'p"
  assumes info_fits: "0 < n \<Longrightarrow> info p n = (rc, t, p') \<Longrightarrow> length t < n"
    and info_one_line: "info p n = (rc, t, p') \<Longrightarrow> one_line t"
begin

text \<open>Every reply is one line, ended by its only newline, and fits the reply buffer.\<close>

lemma reply_framed:
  assumes "platform_info H = info" and "fst (answer H p line 512) = Inr reply"
  shows "\<exists>t. reply = t @ [NL] \<and> one_line t \<and> length reply < 512"
proof -
  have framed: "\<exists>t. snprintf 512 (u @ [NL]) = t @ [NL] \<and> one_line t \<and> length (snprintf 512 (u @ [NL])) < 512"
    if "one_line u" "length u < 300" for u
    using that snprintf_all [of "u @ [NL]" 512] by auto
  obtain rc t p' where i: "platform_info H p 256 = (rc, t, p')" by (metis prod.exhaust)
  have t: "one_line t" "length t < 256" using info_one_line info_fits i assms(1) by (metis zero_less_numeral)+
  have "\<exists>u. reply = snprintf 512 (u @ [NL]) \<and> one_line u \<and> length u < 300"
  proof -
    consider "strip_crlf line = ''PING''" | "strip_crlf line = ''INFO''" | "strip_crlf line = ''FUNCS''"
      | "strip_crlf line \<noteq> ''PING''" "strip_crlf line \<noteq> ''INFO''" "strip_crlf line \<noteq> ''FUNCS''" "take 4 (strip_crlf line) = ''RUN ''"
      | "strip_crlf line \<noteq> ''PING''" "strip_crlf line \<noteq> ''INFO''" "strip_crlf line \<noteq> ''FUNCS''" "take 4 (strip_crlf line) \<noteq> ''RUN ''"
      by blast
    then show ?thesis
    proof cases
      case 1 then show ?thesis using assms(2) by (intro exI [of _ "''PONG''"]) (simp add: answer_def Let_def)
    next
      case 2 then show ?thesis using assms(2) t
        by (intro exI [of _ "''OK '' @ (if rc \<noteq> 0 then ''unavailable'' else t)"]) (auto simp: answer_def Let_def i)
    next
      case 3 then show ?thesis using assms(2)
        by (intro exI [of _ "''OK wordcount sum''"]) (auto simp: answer_def Let_def FUNCS_def)
    next
      case 4
      obtain name payload where a: "run_args (strip_crlf line) = (name, payload)" by force
      have ans: "fst (answer H p line 512) = fst (case map_of FUNCS name of
            None \<Rightarrow> (Inr (snprintf 512 (''ERR no such function'' @ [NL])), p)
          | Some f \<Rightarrow>
            (case f payload of Inl u \<Rightarrow> (Inl u, p)
             | Inr (rc, res) \<Rightarrow>
               if rc \<noteq> 0 then (Inr (snprintf 512 (''ERR '' @ res @ [NL])), p)
               else (Inr (snprintf 512 (''OK '' @ res @ [NL])), on_invoke H p name)))"
        unfolding answer_def Let_def using 4 by (simp only: if_False if_True a prod.case simp_thms)
      show ?thesis
      proof (cases "map_of FUNCS name")
        case None
        then show ?thesis using assms(2) ans by (intro exI [of _ "''ERR no such function''"]) simp
      next
        case (Some f)
        then obtain rc res where v: "f payload = Inr (rc, res)"
          using assms(2) ans by (cases "f payload") auto
        from functions_one_line [OF Some v] show ?thesis
          using assms(2) ans Some v by (intro exI [of _ "(if rc \<noteq> 0 then ''ERR '' else ''OK '') @ res"]) (auto split: if_splits)
      qed
    next
      case 5 then show ?thesis using assms(2)
        by (intro exI [of _ "''ERR bad command''"]) (simp add: answer_def Let_def)
    qed
  qed
  then show ?thesis using framed by blast
qed

end

interpretation posix: platform posix_info
  by unfold_locales (auto simp: posix_info_def one_line_snprintf intro: snprintf_length)

text \<open>A platform that counts: the counter moves by one per invocation and \<^verbatim>\<open>INFO\<close> leaves it.\<close>

definition ran :: "string \<Rightarrow> bool" where
  "ran line = (let l = strip_crlf line in take 4 l = ''RUN '' \<and>
     (case map_of FUNCS (fst (run_args l)) of None \<Rightarrow> False
      | Some f \<Rightarrow> (case f (snd (run_args l)) of Inl u \<Rightarrow> False | Inr (rc, res) \<Rightarrow> rc = 0)))"

fun after :: "'p hooks \<Rightarrow> 'p \<Rightarrow> string list \<Rightarrow> 'p" where
  "after H p [] = p"
| "after H p (l # ls) = after H (snd (answer H p l 512)) ls"

locale counting_platform = platform +
  fixes invoke :: "'a \<Rightarrow> string \<Rightarrow> 'a" and count :: "'a \<Rightarrow> u64"
  assumes invoke_counts: "count (invoke p fn) = count p + 1"
    and info_keeps: "info p n = (rc, t, p') \<Longrightarrow> count p' = count p"
begin

lemma answer_counts:
  assumes "platform_info H = info" and "on_invoke H = invoke"
  shows "count (snd (answer H p line rn)) = count p + (if ran line then 1 else 0)"
proof -
  let ?l = "strip_crlf line"
  obtain rc t p' where i: "platform_info H p 256 = (rc, t, p')" by (metis prod.exhaust)
  then have c: "count p' = count p" using info_keeps assms(1) by metis
  obtain name payload where a: "run_args ?l = (name, payload)" by force
  have nr: "take 4 l \<noteq> ''RUN ''" if "l = ''PING'' \<or> l = ''INFO'' \<or> l = ''FUNCS''" for l
    using that by auto
  consider "?l = ''PING''" | "?l = ''INFO''" | "?l = ''FUNCS''"
    | "?l \<noteq> ''PING''" "?l \<noteq> ''INFO''" "?l \<noteq> ''FUNCS''" by blast
  then show ?thesis
  proof cases
    case 4
    then show ?thesis
    proof (cases "take 4 ?l = ''RUN ''")
      case True
      have ans: "snd (answer H p line rn) = snd (case map_of FUNCS name of
            None \<Rightarrow> (Inr (snprintf rn (''ERR no such function'' @ [NL])), p)
          | Some f \<Rightarrow>
            (case f payload of Inl u \<Rightarrow> (Inl u, p)
             | Inr (rc, res) \<Rightarrow>
               if rc \<noteq> 0 then (Inr (snprintf rn (''ERR '' @ res @ [NL])), p)
               else (Inr (snprintf rn (''OK '' @ res @ [NL])), on_invoke H p name)))"
        unfolding answer_def Let_def using 4 True by (simp only: if_False if_True a prod.case simp_thms)
      have "ran line = (case map_of FUNCS name of None \<Rightarrow> False
          | Some f \<Rightarrow> (case f payload of Inl u \<Rightarrow> False | Inr (rc, res) \<Rightarrow> rc = 0))"
        unfolding ran_def Let_def using True by (simp only: a fst_conv snd_conv simp_thms)
      then show ?thesis unfolding ans
        by (auto simp: assms(2) invoke_counts split: option.splits sum.splits)
    qed (simp add: answer_def ran_def Let_def)
  qed (simp_all add: answer_def ran_def Let_def i c)
qed

lemma after_counts:
  assumes "platform_info H = info" and "on_invoke H = invoke"
  shows "count (after H p ls) = count p + of_nat (length (filter ran ls))"
  by (induction ls arbitrary: p) (simp_all add: answer_counts [OF assms])

end

interpretation unikernel: counting_platform uk_info uk_on_invoke invocations
proof unfold_locales
  show "0 < n \<Longrightarrow> uk_info p n = (rc, t, p') \<Longrightarrow> length t < n" for n p rc t p'
    by (auto simp: uk_info_def Let_def intro: snprintf_length)
  show "uk_info p n = (rc, t, p') \<Longrightarrow> one_line t" for n p rc t p'
    by (auto simp: uk_info_def Let_def intro!: one_line_snprintf)
qed (auto simp: uk_info_def uk_on_invoke_def Let_def)

text \<open>The text of the unikernel is never cut.\<close>

lemma uk_info_text: "uk_info u 256 = (0, ''platform=unikraft freemem=''
     @ dec_int (case uk_heap u (uk_asked u) of None \<Rightarrow> -1 | Some b \<Rightarrow> sint b)
     @ '' uptime_ms='' @ dec (unat (uk_clock u (uk_asked u) div 1000000))
     @ '' boot_ms='' @ dec (unat (boot_ns u div 1000000))
     @ '' invocations='' @ dec (unat (invocations u)), u\<lparr>uk_asked := Suc (uk_asked u)\<rparr>)"
proof -
  have w: "length (dec (unat (w :: u64))) \<le> 20" for w
  proof (rule dec_length)
    have "unat w < 2 ^ 64" by (rule order_less_le_trans [OF unsigned_less]) simp
    then show "unat w < 10 ^ 20" by simp
  qed simp
  have n: "length (dec_int i) \<le> 21" if "- (2 ^ 63) \<le> i" "i < 2 ^ 63" for i
  proof -
    have "nat \<bar>i\<bar> < 10 ^ 20" using that by simp
    then have "length (dec (nat \<bar>i\<bar>)) \<le> 20" by (rule dec_length) simp
    then show ?thesis by (cases "i < 0") (auto simp: dec_int_def)
  qed
  have s: "- (2 ^ 63) \<le> sint (b :: u64)" "sint b < 2 ^ 63" for b
    using sint_ge [of b] sint_lt [of b] by simp_all
  have f: "length (dec_int (case uk_heap u (uk_asked u) of None \<Rightarrow> -1 | Some b \<Rightarrow> sint b)) \<le> 21"
    by (rule n) (use s in \<open>auto split: option.split\<close>)
  show ?thesis unfolding uk_info_def Let_def
    by (subst snprintf_all) (use f w [of "uk_clock u (uk_asked u) div 1000000"] w [of "boot_ns u div 1000000"]
        w [of "invocations u"] in simp_all)
qed

lemma uk_answer_info: "answer uk_hooks u ''INFO'' 512 = (Inr (''OK platform=unikraft freemem=''
     @ dec_int (case uk_heap u (uk_asked u) of None \<Rightarrow> -1 | Some b \<Rightarrow> sint b)
     @ '' uptime_ms='' @ dec (unat (uk_clock u (uk_asked u) div 1000000))
     @ '' boot_ms='' @ dec (unat (boot_ns u div 1000000))
     @ '' invocations='' @ dec (unat (invocations u)) @ [NL]), u\<lparr>uk_asked := Suc (uk_asked u)\<rparr>)"
proof -
  have "length (fst (snd (uk_info u 256))) < 256" by (rule unikernel.info_fits [of 256 u "fst (uk_info u 256)" _ "snd (snd (uk_info u 256))"]) simp_all
  then have l: "length (''OK '' @ fst (snd (uk_info u 256)) @ [NL]) < 512" by simp
  have st: "strip_crlf ''INFO'' = ''INFO''" by (simp add: strip_crlf_def cstr_def)
  show ?thesis
    using snprintf_all [OF l] by (simp add: answer_def st uk_hooks_def uk_info_text)
qed

end
