(* ===== verification/Runner_Log.thy ===== *)
theory Runner_Log
  imports Runner_Spec "HOL-Library.Sublist"
begin

text \<open>
  The log of the function runner: the bounds of the sink, the order and completeness of what it
  sends, its records in the log listener of project 1, and the assembly of a command.
\<close>

section \<open>The sink is bounded\<close>

definition sink_ok :: "'p runner \<Rightarrow> bool" where
  "sink_ok R = (length (log_pending R) \<le> LOG_PEND_SIZE \<and> log_skip R \<le> LOG_BACKOFF_MAX
     \<and> log_backoff R \<in> {1, 2, 4, 8, 16, 32, 64})"

lemma sink_ok_init: "sink_ok (runner_init p)"
  by (simp add: sink_ok_def runner_init_def)

lemma sink_ok_pend: "sink_ok R \<Longrightarrow> sink_ok (log_pend R line)"
  by (simp add: sink_ok_def log_pend_def)

lemma sink_ok_back_off: "sink_ok R \<Longrightarrow> sink_ok (back_off R)"
  by (auto simp: sink_ok_def back_off_def LOG_BACKOFF_MAX_def)

lemma sink_ok_fields:
  "sink_ok R \<Longrightarrow> sink_ok (R\<lparr>log_fd := f\<rparr>)" "sink_ok R \<Longrightarrow> sink_ok (R\<lparr>log_pending := []\<rparr>)"
  "sink_ok R \<Longrightarrow> sink_ok (R\<lparr>log_pending := drop k (log_pending R)\<rparr>)"
  "sink_ok R \<Longrightarrow> sink_ok (R\<lparr>log_skip := log_skip R - 1\<rparr>)" "sink_ok R \<Longrightarrow> sink_ok (R\<lparr>log_fd := f, log_backoff := 1\<rparr>)"
  by (auto simp: sink_ok_def)

lemmas sink_oks = sink_ok_pend sink_ok_back_off sink_ok_fields

lemma sink_ok_keep: "sink_ok R \<Longrightarrow> ensures sink_ok (log_keep R line)"
  unfolding log_keep_def log_sink_drop_def
  by (rule ensures_bind, rule ensures_then [where Q = sink_ok])
    (auto intro!: ensures_if ensures_bind ensures_return sink_oks)

lemma sink_ok_write: "sink_ok R \<Longrightarrow> ensures sink_ok (log_write_line R line)"
  unfolding log_write_line_def by (intro ensures_bind ensures_if sink_ok_keep ensures_return)

lemma sink_ok_flush: "sink_ok R \<Longrightarrow> ensures sink_ok (log_flush_and_write R line)"
  unfolding log_flush_and_write_def
  by (intro ensures_if ensures_bind sink_ok_keep sink_ok_write ensures_return sink_oks)

lemma sink_ok_emit: "sink_ok R \<Longrightarrow> ensures sink_ok (log_sink_emit R line)"
  unfolding log_sink_emit_def
  by (intro ensures_if ensures_bind sink_ok_flush ensures_return sink_oks)

section \<open>What the collector is sent\<close>

text \<open>The bytes the kernel took, over all connections.\<close>

definition sent :: "(sysc \<times> sysr) list \<Rightarrow> string" where
  "sent xs = concat (map (\<lambda>(c, a). case c of Write fd v \<Rightarrow> take (nat (ret a)) v | _ \<Rightarrow> []) xs)"

lemma sent_simps [simp]: "sent [] = []" "sent (xs @ ys) = sent xs @ sent ys"
    "sent ((Write fd v, a) # xs) = take (nat (ret a)) v @ sent xs" "sent ((Close fd, a) # xs) = sent xs"
  by (simp_all add: sent_def)

text \<open>No write of a fresh line is short, and the kernel never takes more than it is given.\<close>

definition whole :: "string \<Rightarrow> (sysc \<times> sysr) list \<Rightarrow> bool" where
  "whole line xs = (\<forall>fd v a. (Write fd v, a) \<in> set xs \<longrightarrow>
     ret a \<le> int (length v) \<and> (v = line \<longrightarrow> ret a \<le> 0 \<or> ret a = int (length v)))"

lemma whole_append [simp]: "whole l (xs @ ys) \<longleftrightarrow> whole l xs \<and> whole l ys"
  unfolding whole_def set_append by blast

text \<open>What became of a line: kept (sent or pending), or dropped.\<close>

definition takes :: "'p runner \<Rightarrow> string \<Rightarrow> 'p runner \<Rightarrow> (sysc \<times> sysr) list \<Rightarrow> bool" where
  "takes R line R' xs = (\<exists>kept. (kept = [] \<or> kept = [line])
     \<and> sent xs @ log_pending R' = log_pending R @ concat kept)"

definition mute_writes :: "'a os \<Rightarrow> bool" where
  "mute_writes m = (\<forall>s. \<exists>xs. calls (snd (run_state m s)) = calls s @ xs \<and> sent xs = [])"

lemma mute_run: "mute_writes m \<Longrightarrow> run_state m s = (r, s') \<Longrightarrow> \<exists>xs. calls s' = calls s @ xs \<and> sent xs = []"
  unfolding mute_writes_def by (metis snd_conv)

lemma mute_bind:
  assumes "mute_writes m" and "\<And>a. mute_writes (f a)"
  shows "mute_writes (State_Monad.bind m f)"
proof (unfold mute_writes_def, rule allI)
  fix s :: kst
  obtain a s1 where r: "run_state m s = (a, s1)" by force
  obtain b s2 where q: "run_state (f a) s1 = (b, s2)" by force
  show "\<exists>xs. calls (snd (run_state (State_Monad.bind m f) s)) = calls s @ xs \<and> sent xs = []"
    using mute_run [OF assms(1) r] mute_run [OF assms(2) q] by (auto simp: run_bind r q)
qed

lemma mute_return: "mute_writes (State_Monad.return a)"
  by (simp add: mute_writes_def)

lemma mute_errno: "mute_writes get_errno"
  by (simp add: mute_writes_def os_run)

lemma mute_sys: "(case c of Write _ _ \<Rightarrow> False | _ \<Rightarrow> True) \<Longrightarrow> mute_writes (sys c)"
  by (cases c) (simp_all add: mute_writes_def os_run sent_def)

lemma mute_if: "mute_writes m \<Longrightarrow> mute_writes n \<Longrightarrow> mute_writes (if b then m else n)"
  by simp

lemma mute_connect: "mute_writes (log_sink_connect R)"
  unfolding log_sink_connect_def
  by (auto split: option.split intro!: mute_bind mute_return mute_errno mute_sys mute_if)

lemma mute_keep: "mute_writes (log_keep R line)"
  unfolding log_keep_def log_would_block_def log_sink_drop_def
  by (intro mute_bind mute_return mute_errno mute_sys mute_if) simp_all

lemma pending_keep: "ensures (\<lambda>R'. log_pending R' = log_pending (log_pend R line)) (log_keep R line)"
  unfolding log_keep_def log_sink_drop_def
  by (rule ensures_bind, rule ensures_then [where Q = "\<lambda>R'. log_pending R' = log_pending R"])
    (auto intro!: ensures_if ensures_bind ensures_return simp: back_off_def log_pend_def)

lemma takesI: "sent xs @ log_pending R' = log_pending R \<or> sent xs @ log_pending R' = log_pending R @ line \<Longrightarrow> takes R line R' xs"
proof (elim disjE)
  assume "sent xs @ log_pending R' = log_pending R"
  then show ?thesis unfolding takes_def by (intro exI [of _ "[]"]) simp
next
  assume "sent xs @ log_pending R' = log_pending R @ line"
  then show ?thesis unfolding takes_def by (intro exI [of _ "[line]"]) simp
qed

lemma takes_pend: "log_pending Q = log_pending R \<Longrightarrow> takes R line (log_pend Q line) []"
  by (rule takesI) (simp add: log_pend_def)

lemma keep_takes:
  assumes "run_state (log_keep Q line) s = (R', s')" and "calls s' = calls s @ xs"
    and "log_pending Q = log_pending R"
  shows "takes R line R' xs"
proof -
  have "sent xs = []" using mute_run [OF mute_keep assms(1)] assms(2) by auto
  moreover have "log_pending R' = log_pending (log_pend Q line)" using ensuresD [OF pending_keep assms(1)] .
  ultimately show ?thesis using takes_pend [OF assms(3), of line] by (simp add: takes_def)
qed


lemma appends_keep: "appends (log_keep R line)"
  unfolding log_keep_def log_would_block_def log_sink_drop_def by (intro appends_intros)

lemma appends_write: "appends (log_write_line R line)"
  unfolding log_write_line_def by (intro appends_intros appends_keep)

lemma appends_flush: "appends (log_flush_and_write R line)"
  unfolding log_flush_and_write_def by (intro appends_intros appends_keep appends_write)

lemma appends_connect: "appends (log_sink_connect R)"
  unfolding log_sink_connect_def by (auto split: option.split intro!: appends_intros)

lemma appends_emit: "appends (log_sink_emit R line)"
  unfolding log_sink_emit_def by (intro appends_intros appends_flush appends_connect)

lemma write_takes:
  assumes "run_state (log_write_line Q line) s = (R', s')" and "calls s' = calls s @ xs"
    and "log_pending Q = []" and "whole line xs"
  shows "sent xs @ log_pending R' = [] \<or> sent xs @ log_pending R' = line"
proof -
  let ?a = "answers s (length (calls s))"
  let ?w = "(Write (log_fd Q) line, ?a)"
  obtain a s1 where s1: "run_state (sys (Write (log_fd Q) line)) s = (?a, s1)" "calls s1 = calls s @ [?w]"
    by (simp add: os_run)
  show ?thesis
  proof (cases "ret ?a = int (length line)")
    case True
    then have "R' = Q" "s' = s1" using assms(1) s1 by (simp_all add: log_write_line_def run_bind)
    then have "xs = [?w]" using assms(2) s1(2) by simp
    then show ?thesis using True assms(3) \<open>R' = Q\<close> by simp
  next
    case False
    then have k: "run_state (log_keep Q line) s1 = (R', s')" using assms(1) s1 by (simp add: log_write_line_def run_bind)
    obtain ys where ys: "calls s' = calls s1 @ ys" "sent ys = []" using mute_run [OF mute_keep k] by blast
    then have xs: "xs = ?w # ys" using assms(2) s1(2) by simp
    then have "ret ?a \<le> 0" using assms(4) False by (auto simp: whole_def)
    moreover have "takes Q line R' ys" by (rule keep_takes [OF k ys(1) refl])
    ultimately show ?thesis using xs ys(2) assms(3) by (auto simp: takes_def)
  qed
qed

lemma flush_takes:
  assumes "run_state (log_flush_and_write R line) s = (R', s')" and "calls s' = calls s @ xs" and "whole line xs"
  shows "takes R line R' xs"
proof (cases "log_pending R = []")
  case True
  then have w: "run_state (log_write_line R line) s = (R', s')" using assms(1) by (simp add: log_flush_and_write_def)
  show ?thesis using write_takes [OF w assms(2) True assms(3)] True
    by (intro takesI) simp
next
  case False
  let ?a = "answers s (length (calls s))"
  let ?w = "(Write (log_fd R) (log_pending R), ?a)"
  obtain s1 where s1: "run_state (sys (Write (log_fd R) (log_pending R))) s = (?a, s1)" "calls s1 = calls s @ [?w]"
    by (simp add: os_run)
  consider "ret ?a = int (length (log_pending R))" | "ret ?a \<noteq> int (length (log_pending R))" "0 < ret ?a"
    | "ret ?a \<noteq> int (length (log_pending R))" "\<not> 0 < ret ?a" by blast
  then show ?thesis
  proof cases
    case 1
    then have w: "run_state (log_write_line (R\<lparr>log_pending := []\<rparr>) line) s1 = (R', s')"
      using assms(1) s1 False by (simp add: log_flush_and_write_def run_bind)
    obtain ys where ys: "calls s' = calls s1 @ ys" using appendsD [OF appends_write w] by blast
    then have xs: "xs = ?w # ys" using assms(2) s1(2) by simp
    have "whole line ys" using assms(3) xs by (auto simp: whole_def)
    from write_takes [OF w ys _ this] show ?thesis using xs 1
      by (intro takesI) auto
  next
    case 2
    then have "R' = log_pend (R\<lparr>log_pending := drop (nat (ret ?a)) (log_pending R)\<rparr>) line" "s' = s1"
      using assms(1) s1 False by (simp_all add: log_flush_and_write_def run_bind)
    then have xs: "xs = [?w]" and R': "R' = log_pend (R\<lparr>log_pending := drop (nat (ret ?a)) (log_pending R)\<rparr>) line"
      using assms(2) s1(2) by simp_all
    show ?thesis unfolding xs R' by (rule takesI) (simp add: log_pend_def)
  next
    case 3
    then have k: "run_state (log_keep R line) s1 = (R', s')"
      using assms(1) s1 False by (simp add: log_flush_and_write_def run_bind)
    obtain ys where ys: "calls s' = calls s1 @ ys" using mute_run [OF mute_keep k] by blast
    then have xs: "xs = ?w # ys" using assms(2) s1(2) by simp
    have "takes R line R' ys" by (rule keep_takes [OF k ys refl])
    then show ?thesis using xs 3 by (simp add: takes_def)
  qed
qed

lemma emit_takes:
  assumes "run_state (log_sink_emit R line) s = (R', s')" and "calls s' = calls s @ xs" and "whole line xs"
  shows "takes R line R' xs"
proof -
  consider "log_host R = None" | "log_host R \<noteq> None" "log_fd R < 0" "0 < log_skip R"
    | "log_host R \<noteq> None" "log_fd R < 0" "\<not> 0 < log_skip R" | "log_host R \<noteq> None" "\<not> log_fd R < 0" by blast
  then show ?thesis
  proof cases
    case 1
    then show ?thesis using assms by (intro takesI) (simp add: log_sink_emit_def)
  next
    case 2
    then show ?thesis using assms takes_pend [of "R\<lparr>log_skip := log_skip R - 1\<rparr>" R line] by (auto simp: log_sink_emit_def)
  next
    case 3
    obtain fd s1 where c: "run_state (log_sink_connect R) s = (fd, s1)" by force
    obtain ys where ys: "calls s1 = calls s @ ys" "sent ys = []" using mute_run [OF mute_connect c] by blast
    show ?thesis
    proof (cases "fd < 0")
      case True
      then have "R' = log_pend (back_off (R\<lparr>log_fd := fd\<rparr>)) line" "s' = s1"
        using assms(1) 3 c by (simp_all add: log_sink_emit_def run_bind)
      then show ?thesis using ys assms(2) takes_pend [of "back_off (R\<lparr>log_fd := fd\<rparr>)" R line]
        by (auto simp: takes_def back_off_def)
    next
      case False
      then have f: "run_state (log_flush_and_write (R\<lparr>log_fd := fd, log_backoff := 1\<rparr>) line) s1 = (R', s')"
        using assms(1) 3 c by (simp add: log_sink_emit_def run_bind)
      obtain zs where "calls s' = calls s1 @ zs" using appendsD [OF appends_flush f] by blast
      then have zs: "xs = ys @ zs" "calls s' = calls s1 @ zs" using assms(2) ys(1) by simp_all
      then show ?thesis using flush_takes [OF f zs(2)] assms(3) ys(2) by (simp add: takes_def)
    qed
  next
    case 4
    then have "run_state (log_flush_and_write R line) s = (R', s')"
      using assms(1) by (simp only: log_sink_emit_def if_False)
    then show ?thesis using assms(2,3) by (rule flush_takes)
  qed
qed


text \<open>A whole run of records.\<close>

fun emit_all :: "'p runner \<Rightarrow> string list \<Rightarrow> 'p runner os" where
  "emit_all R [] = State_Monad.return R"
| "emit_all R (l # ls) = do { R \<leftarrow> log_sink_emit R l; emit_all R ls }"

lemma appends_emit_all: "appends (emit_all R ls)"
  by (induction ls arbitrary: R) (auto intro: appends_intros appends_emit)

lemma emit_all_sends:
  assumes "run_state (emit_all R ls) s = (R', s')" and "calls s' = calls s @ xs"
    and "\<And>l. l \<in> set ls \<Longrightarrow> whole l xs"
  shows "\<exists>kept. subseq kept ls \<and> sent xs @ log_pending R' = log_pending R @ concat kept"
  using assms
proof (induction ls arbitrary: R s xs)
  case Nil
  then show ?case by (intro exI [of _ "[]"]) simp
next
  case (Cons l ls)
  obtain R1 s1 where e: "run_state (log_sink_emit R l) s = (R1, s1)" by force
  have r: "run_state (emit_all R1 ls) s1 = (R', s')" using Cons.prems(1) e by (simp add: run_bind)
  obtain ys where ys: "calls s1 = calls s @ ys" using appendsD [OF appends_emit e] by blast
  obtain zs where zs: "calls s' = calls s1 @ zs" using appendsD [OF appends_emit_all r] by blast
  have xs: "xs = ys @ zs" using Cons.prems(2) ys zs by simp
  have "takes R l R1 ys" using emit_takes [OF e ys] Cons.prems(3) [of l] xs by simp
  then obtain k where k: "k = [] \<or> k = [l]" "sent ys @ log_pending R1 = log_pending R @ concat k"
    unfolding takes_def by blast
  obtain kept where kept: "subseq kept ls" "sent zs @ log_pending R' = log_pending R1 @ concat kept"
    using Cons.IH [OF r zs] Cons.prems(3) xs by auto
  have "sent xs @ log_pending R' = log_pending R @ concat (k @ kept)"
    using k(2) kept(2) xs by (metis append_assoc concat_append sent_simps(2))
  moreover have "subseq (k @ kept) (l # ls)" using k(1) kept(1) by auto
  ultimately show ?case by blast
qed

text \<open>A short write of a fresh line queues the whole line again: with a stale \<^verbatim>\<open>errno\<close> that says the
  connection is still coming up, the connection stays and the collector gets the beginning of the
  line twice.\<close>

lemma short_write_repeats:
  assumes R: "log_host R \<noteq> None" "0 \<le> log_fd R" "log_pending R = []"
    and e: "errno s = EAGAIN" and l: "length l1 \<le> LOG_PEND_SIZE"
    and w: "ret (answers s (length (calls s))) = int k" "0 < k" "k < length l1"
      "ret (answers s (length (calls s) + 1)) = int (length l1)" "ret (answers s (length (calls s) + 2)) = int (length l2)"
  shows "\<exists>R' s' xs. run_state (emit_all R [l1, l2]) s = (R', s') \<and> calls s' = calls s @ xs
    \<and> sent xs = take k l1 @ l1 @ l2"
proof -
  let ?n = "length (calls s)"
  let ?A = "answers s"
  have ne: "l1 \<noteq> []" using w(3) by auto
  let ?s1 = "s\<lparr>calls := calls s @ [(Write (log_fd R) l1, ?A ?n)]\<rparr>"
  let ?R1 = "R\<lparr>log_pending := l1\<rparr>"
  have 1: "run_state (log_sink_emit R l1) s = (?R1, ?s1)"
    using R w e l by (auto simp: log_sink_emit_def log_flush_and_write_def log_write_line_def log_keep_def
        log_would_block_def run_bind run_sys run_get_errno log_pend_def)
  let ?xs = "[(Write (log_fd R) l1, ?A ?n), (Write (log_fd R) l1, ?A (?n + 1)), (Write (log_fd R) l2, ?A (?n + 2))]"
  have 2: "run_state (log_sink_emit ?R1 l2) ?s1 = (R, s\<lparr>calls := calls s @ ?xs\<rparr>)"
    using R w ne by (auto simp: log_sink_emit_def log_flush_and_write_def log_write_line_def run_bind run_sys)
  have "run_state (emit_all R [l1, l2]) s = (R, s\<lparr>calls := calls s @ ?xs\<rparr>)"
    by (simp add: run_bind 1 2)
  moreover have "sent ?xs = take k l1 @ l1 @ l2" using w by simp
  ultimately show ?thesis by (intro exI [of _ R] exI [of _ "s\<lparr>calls := calls s @ ?xs\<rparr>"] exI [of _ ?xs]) simp
qed

section \<open>The records at the collector\<close>

lemma log_line_short:
  assumes "length t < 4000" and "n < 10"
  shows "log_line (int n) t = dec n @ SP # t @ [NL]"
proof -
  have "length (dec n) \<le> 1" by (rule dec_length) (use assms(2) in auto)
  then show ?thesis using assms(1) by (simp add: log_line_def LINE_MAX_LEN_def dec_int_def)
qed

lemma line_record_log:
  assumes "n < 10" and "NUL \<notin> set t"
  shows "line_record (dec n @ SP # t) = (of_nat n, t)"
proof -
  have c: "cstr (dec n @ SP # t) = dec n @ SP # t" using assms(2) by simp
  have sp: "split_at SP (dec n @ SP # t) = Some (dec n, t)" by simp
  have u: "strtoul (dec n) = of_nat n" using strtoul_dec [of "[]" n] assms(1) by simp
  show ?thesis using assms(1) by (simp add: line_record_def c sp u unsigned_of_nat take_bit_nat_eq_self)
qed

lemma split_lines_concat:
  assumes "\<And>l. l \<in> set ls \<Longrightarrow> NL \<notin> set l"
  shows "split_lines [] (concat (map (\<lambda>l. l @ [NL]) ls)) = (ls, [])"
proof -
  have one: "split_lines acc (l @ NL # r) = (case split_lines [] r of (xs, e) \<Rightarrow> ((acc @ l) # xs, e))"
    if "NL \<notin> set l" for acc l r using that by (induction l arbitrary: acc) auto
  show ?thesis using assms by (induction ls) (simp_all add: one)
qed

definition record_ok :: "nat \<times> string \<Rightarrow> bool" where
  "record_ok r = (fst r < 10 \<and> one_line (snd r) \<and> length (snd r) < 4000)"

lemma records_collected:
  assumes "list_all record_ok recs" and "c_buf c = []" and "nl_logged nl base rs"
  shows "\<exists>nl'. feed (concat (map (\<lambda>(n, t). log_line (int n) t) recs)) (nl, c) = Inr (nl', c)
    \<and> nl_logged nl' base (rs @ map (\<lambda>(n, t). (of_nat n, t)) recs)"
proof -
  let ?ls = "map (\<lambda>(n, t). dec n @ SP # t) recs"
  have e: "concat (map (\<lambda>(n, t). log_line (int n) t) recs) = concat (map (\<lambda>l. l @ [NL]) ?ls)"
    using assms(1) by (induction recs) (auto simp: record_ok_def log_line_short)
  have nl: "NL \<notin> set l" if "l \<in> set ?ls" for l
    using that assms(1) by (auto simp: list_all_iff record_ok_def one_line_def)
  have sp: "split_lines (c_buf c) (concat (map (\<lambda>l. l @ [NL]) ?ls)) = (?ls, [])"
    unfolding assms(2) using nl by (rule split_lines_concat)
  have len: "length (dec n) \<le> 1" if "n < 10" for n by (rule dec_length) (use that in auto)
  have fit: "list_all fits ?ls"
    using assms(1) len by (fastforce simp: list_all_iff record_ok_def fits_def nl_consts)
  have fit0: "fits []" by (simp add: fits_def nl_consts)
  have m: "map line_record ?ls = map (\<lambda>(n, t). (of_nat n, t)) recs"
    using assms(1) by (induction recs) (auto simp: record_ok_def one_line_def line_record_log)
  have c: "c\<lparr>c_buf := []\<rparr> = c" using assms(2) by (cases c) simp
  show ?thesis using feed_lines [OF sp fit fit0 assms(3)] unfolding e m c .
qed

text \<open>A function name with a newline in it forges a record: the collector reads two.\<close>

lemma forged_record:
  "split_lines [] (log_line LOG_WARN (''no such function: '' @ fst (run_args (strip_crlf (''RUN x'' @ [NL] @ ''3'' @ [NL])))))
     = ([''2 no such function: x'', ''3''], []) \<and> line_record ''3'' = (3, [])"
proof -
  have a: "run_args (strip_crlf (''RUN x'' @ [NL] @ ''3'' @ [NL])) = (''x'' @ [NL] @ ''3'', [])"
    by (simp add: run_args_def strip_crlf_def cstr_def split_at_def)
  have l: "log_line LOG_WARN t = ''2 '' @ t @ [NL]" if "length t < 4000" for t
    using log_line_short [OF that, of 2] by (simp add: LOG_WARN_def dec.simps [of 2] digit_def)
  have "line_record ''3'' = (3, [])"
    by (simp add: line_record_def split_at_def cstr_def strtoul_def scan_int_def scan_sign_def isspace_def
        is_digit_def dec_val_def digit_val_def)
  then show ?thesis unfolding a fst_conv by (simp add: l)
qed

section \<open>A command in pieces\<close>

text \<open>The kernel hands out the chunks one per read.\<close>

definition delivers :: "(nat \<Rightarrow> sysr) \<Rightarrow> nat \<Rightarrow> string list \<Rightarrow> bool" where
  "delivers A n cs = (\<forall>i<length cs. 0 < ret (A (n + i)) \<and> data (A (n + i)) = cs ! i \<and> cs ! i \<noteq> [])"

lemma delivers_Cons: "delivers A n (c # cs) \<longleftrightarrow> 0 < ret (A n) \<and> data (A n) = c \<and> c \<noteq> [] \<and> delivers A (Suc n) cs"
proof -
  have "(\<forall>i<Suc k. P i) \<longleftrightarrow> P 0 \<and> (\<forall>i<k. P (Suc i))" for P and k :: nat
    by (metis less_Suc_eq_0_disj)
  then show ?thesis by (simp add: delivers_def)
qed

lemma read_line_pieces:
  assumes "delivers (answers s) (length (calls s)) cs" and "cs \<noteq> []"
    and "NL \<notin> set got" and "\<forall>c \<in> set (butlast cs). NL \<notin> set c" and "NL \<in> set (last cs)"
    and "length got + length (concat cs) \<le> LINE_MAX_LEN - 1"
  shows "fst (read_line fd got s) = got @ concat cs"
  using assms
proof (induction cs arbitrary: got s)
  case Nil
  then show ?case by simp
next
  case (Cons c cs)
  let ?a = "answers s (length (calls s))"
  have a: "0 < ret ?a" "data ?a = c" "c \<noteq> []" using Cons.prems(1) by (simp_all add: delivers_Cons)
  let ?s1 = "snd (run_state (sys (Read fd (LINE_MAX_LEN - 1 - length got))) s)"
  have s1: "answers ?s1 = answers s" "length (calls ?s1) = Suc (length (calls s))" by (simp_all add: run_sys)
  have room: "length got + length c \<le> LINE_MAX_LEN - 1" using Cons.prems(6) by simp
  then have nf: "\<not> LINE_MAX_LEN - 1 \<le> length got" using a(3) by (cases c) auto
  have t: "take (LINE_MAX_LEN - Suc (length got)) c = c" using room by simp
  have step: "read_line fd got s = (if NL \<in> set (got @ c) then (got @ c, ?s1) else read_line fd (got @ c) ?s1)"
    by (subst read_line.simps) (use nf a t in \<open>simp add: run_sys Let_def\<close>)
  show ?case
  proof (cases "cs = []")
    case True
    then show ?thesis using Cons.prems(5) by (simp add: step)
  next
    case False
    have nl: "NL \<notin> set (got @ c)" using Cons.prems(3,4) False by simp
    have "fst (read_line fd (got @ c) ?s1) = (got @ c) @ concat cs"
      using Cons.prems False nl by (intro Cons.IH) (simp_all add: delivers_Cons s1 [simplified])
    then show ?thesis using nl by (simp add: step)
  qed
qed

lemma read_once_piece:
  assumes "delivers (answers s) (length (calls s)) (c # cs)" and "length c \<le> LINE_MAX_LEN - 1"
  shows "fst (read_once fd s) = c"
  using assms by (simp add: read_once_def run_sys delivers_Cons)


section \<open>Properties of the runner\<close>


text \<open>C38: Every reply of the unikernel runner to any bytes from the network is one line that ends in
  its only newline and fits the reply buffer.\<close>

theorem replies_framed:
  assumes "run_state (handle_line uk_hooks R line 512) s = ((Inr reply, R'), s')"
  shows "\<exists>t. reply = t @ [NL] \<and> one_line t \<and> length reply < 512"
proof (rule unikernel.reply_framed)
  show "platform_info uk_hooks = uk_info" by (simp add: uk_hooks_def)
  show "fst (answer uk_hooks (plat R) line 512) = Inr reply"
    using handle_line_answer [of uk_hooks R line 512 s] assms by auto
qed

definition demo_uk :: ukstats where
  "demo_uk = \<lparr> boot_ns = 9000000, invocations = 0, uk_clock = \<lambda>_. 12000000, uk_heap = \<lambda>_. None, uk_asked = 0 \<rparr>"

definition silent_kernel :: kst where
  "silent_kernel = \<lparr> answers = \<lambda>_. \<lparr> ret = 0, err = 0, out1 = 0, out2 = 0, data = [] \<rparr>, calls = [], errno = 0 \<rparr>"

theorem replies_framed_witness:
  "\<exists>t. ''PONG'' @ [NL] = t @ [NL] \<and> one_line t"
proof -
  have "answer uk_hooks demo_uk ''PING'' 512 = (Inr (''PONG'' @ [NL]), demo_uk)"
    by (simp add: answer_def strip_crlf_def cstr_def snprintf_def)
  then obtain R' s' where "run_state (handle_line uk_hooks (runner_init demo_uk) ''PING'' 512) silent_kernel
      = ((Inr (''PONG'' @ [NL]), R'), s')"
    using handle_line_answer [of uk_hooks "runner_init demo_uk" "''PING''" 512 silent_kernel] by (auto simp: runner_init_def)
  from replies_framed [OF this] show ?thesis by blast
qed

lemma posix_replies_framed:
  assumes "run_state (handle_line posix_hooks R line 512) s = ((Inr reply, R'), s')"
  shows "\<exists>t. reply = t @ [NL] \<and> one_line t \<and> length reply < 512"
proof (rule posix.reply_framed)
  show "platform_info posix_hooks = posix_info" by (simp add: posix_hooks_def)
  show "fst (answer posix_hooks (plat R) line 512) = Inr reply"
    using handle_line_answer [of posix_hooks R line 512 s] assms by auto
qed


definition not_close :: "sysc \<times> sysr \<Rightarrow> bool" where
  "not_close x = (case fst x of Close _ \<Rightarrow> False | _ \<Rightarrow> True)"

definition connection_bytes :: "(sysc \<times> sysr) list \<Rightarrow> string" where
  "connection_bytes xs = sent (rev (takeWhile not_close (rev xs)))"

definition no_close :: "(sysc \<times> sysr) list \<Rightarrow> bool" where
  "no_close xs = list_all not_close xs"

lemma one_connection: "no_close xs \<Longrightarrow> connection_bytes xs = sent xs"
proof -
  assume "no_close xs"
  then have "takeWhile not_close (rev xs) = rev xs"
    unfolding no_close_def by (subst takeWhile_eq_all_conv) (auto simp: list_all_iff)
  then show ?thesis unfolding connection_bytes_def by (simp only: rev_rev_ident)
qed

lemma subseq_map_image: "subseq ks (map f xs) \<Longrightarrow> \<exists>ys. subseq ys xs \<and> ks = map f ys"
proof (induction xs arbitrary: ks)
  case Nil
  then show ?case by auto
next
  case (Cons x xs)
  show ?case
  proof (cases ks)
    case Nil
    then show ?thesis by (intro exI [of _ "[]"]) simp
  next
    case (Cons k ks')
    show ?thesis
    proof (cases "k = f x")
      case True
      then have "subseq ks' (map f xs)" using Cons.prems Cons by simp
      then obtain ys where "subseq ys xs" "ks' = map f ys" using Cons.IH by blast
      then show ?thesis using Cons True by (intro exI [of _ "x # ys"]) simp
    next
      case False
      then have "subseq ks (map f xs)" using Cons.prems Cons by simp
      then obtain ys where "subseq ys xs" "ks = map f ys" using Cons.IH by blast
      then show ?thesis by (intro exI [of _ ys]) (simp add: list_emb_Cons)
    qed
  qed
qed

lemma sink_to_collector:
  assumes "run_state (emit_all R (map (\<lambda>(n, t). log_line (int n) t) recs)) s = (R', s')"
    and "calls s' = calls s @ xs" and "log_pending R = []" and "log_pending R' = []"
    and "\<And>l. whole l xs" and "no_close xs" and "list_all record_ok recs"
    and "c_buf c = []" and "nl_logged nl base rs"
  shows "\<exists>nl' kept. subseq kept recs \<and> feed (connection_bytes xs) (nl, c) = Inr (nl', c)
    \<and> nl_logged nl' base (rs @ map (\<lambda>(n, t). (of_nat n, t)) kept)"
proof -
  let ?f = "\<lambda>(n, t). log_line (int n) t"
  obtain ks where ks: "subseq ks (map ?f recs)" "sent xs = concat ks"
    using emit_all_sends [OF assms(1,2,5)] assms(3,4) by auto
  obtain kept where kept: "subseq kept recs" "ks = map ?f kept" using subseq_map_image [OF ks(1)] by blast
  have "set kept \<subseteq> set recs" using list_emb_set [OF kept(1)] by blast
  then have "list_all record_ok kept" using assms(7) by (auto simp: list_all_iff)
  from records_collected [OF this assms(8,9)] show ?thesis
    using kept ks(2) one_connection [OF assms(6)] by auto
qed



text \<open>A runner connected on descriptor 5 whose write of one record is taken completely.\<close>

definition demo_runner :: "unit runner" where
  "demo_runner = (runner_init ())\<lparr>log_host := Some ''10.0.0.1'', log_port := 9000, log_fd := 5\<rparr>"

definition demo_kst :: kst where
  "demo_kst = \<lparr> answers = \<lambda>_. \<lparr> ret = 7, err = 0, out1 = 0, out2 = 0, data = [] \<rparr>, calls = [], errno = 0 \<rparr>"

lemma demo_emit:
  "run_state (emit_all demo_runner (map (\<lambda>(n, t). log_line (int n) t) [(1, ''ping'')])) demo_kst
    = (demo_runner, demo_kst\<lparr>calls := [(Write 5 (''1 ping'' @ [NL]), answers demo_kst 0)]\<rparr>)"
proof -
  have l: "log_line 1 ''ping'' = ''1 ping'' @ [NL]"
    using log_line_short [of "''ping''" 1] by (simp add: dec.simps [of 1] digit_def One_nat_def [symmetric] del: One_nat_def)
  show ?thesis by (simp add: l run_bind log_sink_emit_def log_flush_and_write_def log_write_line_def run_sys
      demo_runner_def runner_init_def demo_kst_def)
qed


text \<open>C39: The sink never grows past its bounds: through any records and any behaviour of the
  network the pending buffer holds at most 2048 bytes, the retry gap is a power of two up to 64
  and at most 64 records are skipped before the next attempt.\<close>

theorem sink_bounded:
  assumes "sink_ok R" and "run_state (emit_all R ls) s = (R', s')"
  shows "length (log_pending R') \<le> 2048 \<and> log_skip R' \<le> 64 \<and> log_backoff R' \<in> {1, 2, 4, 8, 16, 32, 64}"
proof -
  have "sink_ok R \<Longrightarrow> ensures sink_ok (emit_all R ls)"
    by (induction ls arbitrary: R) (auto intro: ensures_return ensures_then sink_ok_emit)
  from ensuresD [OF this [OF assms(1)] assms(2)] show ?thesis
    by (simp add: sink_ok_def LOG_PEND_SIZE_def LOG_BACKOFF_MAX_def)
qed

theorem sink_bounded_witness: "log_backoff demo_runner \<in> {1, 2, 4, 8, 16, 32, 64 :: nat}"
proof -
  have "sink_ok demo_runner" using sink_ok_init [of "()"] by (simp add: demo_runner_def sink_ok_def)
  from sink_bounded [OF this demo_emit] show ?thesis by simp
qed

text \<open>A command that arrives in pieces is put together: the server's read loop returns the
  concatenation of the chunks up to the one with the newline, however the stream is cut.\<close>

theorem command_assembled:
  assumes "delivers (answers s) (length (calls s)) cs" and "cs \<noteq> []"
    and "\<forall>c \<in> set (butlast cs). NL \<notin> set c" and "NL \<in> set (last cs)"
    and "length (concat cs) \<le> LINE_MAX_LEN - 1"
  shows "fst (read_line fd [] s) = concat cs"
  using read_line_pieces [of s cs "[]" fd] assms by simp

theorem command_assembled_witness:
  "fst (read_line 4 [] \<lparr> answers = \<lambda>i. \<lparr> ret = 3, err = 0, out1 = 0, out2 = 0,
      data = (if i = 0 then ''PI'' else ''NG'' @ [NL]) \<rparr>, calls = [], errno = 0 \<rparr>) = ''PING'' @ [NL]"
proof -
  let ?s = "\<lparr> answers = \<lambda>i. \<lparr> ret = 3, err = 0, out1 = 0, out2 = 0,
      data = (if i = (0 :: nat) then ''PI'' else ''NG'' @ [NL]) \<rparr>, calls = [], errno = 0 \<rparr> :: kst"
  have "delivers (answers ?s) (length (calls ?s)) [''PI'', ''NG'' @ [NL]]" by (simp add: delivers_Cons) (simp add: delivers_def)
  from command_assembled [OF this] show ?thesis by (simp add: LINE_MAX_LEN_def)
qed

text \<open>The address parser reads every dotted address back to its 32-bit value.\<close>

theorem ipv4_roundtrip:
  assumes "a < 256" and "b < 256" and "c < 256" and "d < 256"
  shows "parse_ipv4 (dotted a b c d) = Some (address a b c d)"
  using assms by (rule parse_dotted)

theorem ipv4_roundtrip_witness: "parse_ipv4 (dotted 10 44 0 2) = Some 0x0A2C0002"
  using ipv4_roundtrip [of 10 44 0 2] by (simp add: address_def)

text \<open>\<^verbatim>\<open>wordcount\<close> counts the words of its payload: the positions that hold a non-blank and are at
  the start or behind a blank.\<close>

theorem wordcount_counts:
  "fn_wordcount p = Inr (0, snprintf 256 (dec_int (int (card (word_starts False p)))))"
  by (simp add: fn_wordcount_def count_words_starts)

text \<open>\<^verbatim>\<open>sum\<close> of numbers, each behind any white space, is their sum in decimal, as long as no
  partial sum leaves 64 bits.\<close>

theorem sum_adds:
  assumes "list_all (\<lambda>(s, x). s \<noteq> [] \<and> blanks s) ns" and "blanks w" and "sums_ok 0 (map snd ns)"
  shows "fn_sum (number_text ns w) = Inr (0, snprintf 256 (dec_int (sum_list (map snd ns))))"
  using sum_tokens_numbers [OF assms] by (simp add: fn_sum_def)

theorem sum_adds_witness: "fn_sum '' 1  -2 40'' = Inr (0, ''39'')"
proof -
  have b: "blanks '' ''" "blanks ''  ''" "blanks []" by (simp_all add: blanks_def isspace_def)
  have d: "dec 1 = ''1''" "dec 2 = ''2''" "dec 40 = ''40''" "dec 39 = ''39''"
    by (simp_all add: dec.simps digit_def)
  show ?thesis
    using sum_adds [of "[('' '', 1), (''  '', -2), ('' '', 40)]" "[]"] b
    by (simp add: number_text_def in_range_def dec_int_def d snprintf_def One_nat_def [symmetric] del: One_nat_def)
qed

end
