(* ===== verification/Spec2Isabelle.thy ===== *)
theory Spec2Isabelle
  imports Emulator Guest Logstore_Conc Backend_Run Vu_Notify Container_Main Runner_Log
begin

text \<open>
  A verification library for the C programs of the systems course repository: the logging
  device and its emulator, the virtio variant of the device behind libvhost-user (project 1),
  the container runtime and the function runner (project 2), and the statistics library of the
  unikernel (project 3).  This theory imports all others; it declares nothing itself.

  \<^bold>\<open>The programs and how they meet.\<close>
  A guest program calls the guest library (\<^verbatim>\<open>guest/vlog.c\<close>), which drives the registers of the
  logging device (\<^verbatim>\<open>emulator/device.c\<close>).  The monitor (\<^verbatim>\<open>emulator/vmm.c\<close>) routes the CPU's accesses
  to it and translates guest addresses.  The device appends records to the store
  (\<^verbatim>\<open>emulator/logstore.c\<close>), which it shares with the network listener (\<^verbatim>\<open>emulator/netlog.c\<close>) that
  runs in a thread beside the CPU; \<^verbatim>\<open>emulator/main.c\<close> puts them together.  The same store is behind
  the line sink (\<^verbatim>\<open>vhost/sink.c\<close>) of the vhost-user device: \<^verbatim>\<open>vhost/libvhost-user.c\<close> speaks the
  protocol with the frontend and owns the queues, \<^verbatim>\<open>vhost/backend.c\<close> provides its callbacks and
  main loop, \<^verbatim>\<open>vhost/virtio.c\<close> walks the descriptor chains of a kick.  The function runner
  (\<^verbatim>\<open>runner/runner.c\<close>) answers commands over TCP, runs as a process, in the container of
  \<^verbatim>\<open>runtime/container.c\<close> or linked with \<^verbatim>\<open>libukstats/ukstats.c\<close> into a unikernel, and ships its log
  lines to the network listener.

  \<^bold>\<open>Theories and sources.\<close>
  \<^item> \<open>Prelude\<close>, \<open>CText\<close>: machine words, bytes, host memory with little-endian loads and stores, and
    the C library functions on text that the sources call.
  \<^item> \<open>Logstore\<close>, \<open>Logstore_Conc\<close>: \<^verbatim>\<open>logstore.c\<close>; the second as a step relation of threads over
    the operations of one append (\<open>append_ops\<close>).
  \<^item> \<open>Gpa\<close>, \<open>Machine\<close>, \<open>Device\<close>, \<open>Vmm\<close>: guest address translation, the state of the machine,
    \<^verbatim>\<open>device.c\<close> and \<^verbatim>\<open>vmm.c\<close>.
  \<^item> \<open>Netlog\<close>, \<open>Emulator\<close>, \<open>Guest\<close>: \<^verbatim>\<open>netlog.c\<close>, \<^verbatim>\<open>main.c\<close> of the emulator, \<^verbatim>\<open>guest/vlog.c\<close>.
  \<^item> \<open>Vring\<close>, \<open>Sink\<close>, \<open>Virtq\<close>: the split virtqueue of \<^verbatim>\<open>virtio_ring.h\<close>, \<^verbatim>\<open>sink.c\<close>, \<^verbatim>\<open>virtio.c\<close>.
  \<^item> \<open>Vu_Base\<close>, \<open>Vu_Msg\<close>, \<open>Vu_Handlers\<close>, \<open>Vu_Queue\<close>: \<^verbatim>\<open>libvhost-user.c\<close> and its header, in the
    order of the file: state and computations, messages, request handlers, virtqueue operations.
    \<open>Vu_Safe\<close> and \<open>Vu_Queue_Safe\<close> hold what the handlers and the queue operations keep,
    \<open>Vu_Inflight\<close> the restart after a crash, \<open>Vu_Notify\<close> the interrupts.
  \<^item> \<open>Backend\<close>, \<open>Backend_Session\<close>: \<^verbatim>\<open>backend.c\<close>; the second on the safety of its whole run.
  \<^item> \<open>Backend_Setup\<close>, \<open>Backend_Kicks\<close>, \<open>Backend_Run\<close>: what a run of \<^verbatim>\<open>backend.c\<close> does: the frontend's messages
    (\<open>exchanges\<close>), the guest's driver as an inductive predicate on the turns of the main loop (\<open>driver\<close>), and
    both together with the log they leave.
  \<^item> \<open>Guest_Init\<close>: \<^verbatim>\<open>vhost/guest/init.c\<close>, and the rings a driver lays out for its records (\<open>plain_ring\<close>).
  \<^item> \<open>Seccomp\<close>, \<open>Posix\<close>, \<open>Container\<close>, \<open>Container_Spec\<close>, \<open>Container_Main\<close>: the seccomp filter, the
    system calls, \<^verbatim>\<open>container.c\<close>, \<^verbatim>\<open>net.c\<close>, \<^verbatim>\<open>util.c\<close>, the lemmas on them, and \<^verbatim>\<open>main.c\<close>.
  \<^item> \<open>Runner\<close>, \<open>Runner_Spec\<close>, \<open>Runner_Log\<close>: \<^verbatim>\<open>runner.c\<close> and \<^verbatim>\<open>ukstats.c\<close>; addresses, built-in
    functions and replies; the log sink and what the collector receives.

  \<^bold>\<open>How the code is modelled.\<close>
  A C struct is a record, a function a HOL function over explicit state, a machine integer a word of
  its width, an enumeration a datatype.  Undefined behaviour (a null store, a division by zero, an
  array access out of bounds, a failed assertion) is a value: \<open>Inl\<close> of \<open>ub\<close> in project 1's
  device, \<open>Stop (Undef u)\<close> in libvhost-user, so that its absence is a theorem.  What the sources get
  from outside is an argument: the callbacks a guest causes, the results of \<^verbatim>\<open>poll\<close>, \<^verbatim>\<open>accept\<close> and
  \<^verbatim>\<open>read\<close>, the answers of the kernel to each system call, other writers of guest memory during a
  kick.  The theorems quantify over them.
  The container runtime and the runner are programs in the state monad \<open>os\<close> over a list of
  answers; their trace of calls is what the theorems on them speak about.

  \<^bold>\<open>Interfaces.\<close>
  \<^item> \<open>record_store\<close> (\<open>Logstore\<close>): what device, listener and sink rely on; interpreted by the store.
  \<^item> \<open>gpa_translation\<close> (\<open>Gpa\<close>): address translation; interpreted by the monitor's one RAM region and
    by the virtio device's region table.
  \<^item> \<open>guest_bus\<close> (\<open>Guest\<close>): the registers as the guest library sees them; interpreted by the
    emulator's regions.
  \<^item> \<open>device_callbacks\<close> (\<open>Vu_Safe\<close>) and its extension \<open>calm_device\<close> (\<open>Backend_Session\<close>): the
    callbacks libvhost-user calls, for one message and for a session; interpreted by the backend's.
  \<^item> \<open>guest_view\<close> (\<open>Vu_Queue_Safe\<close>): what the walk over a guest's descriptors needs of the state;
    interpreted for taking an element and for returning one.
  \<^item> \<open>platform\<close> and its extension \<open>counting_platform\<close> (\<open>Runner_Spec\<close>): the hooks of the runner;
    interpreted by the process's and by the unikernel's.

  \<^bold>\<open>What is shown.\<close>
  The device's log is exactly the accepted records, numbered, for any register writes, and a whole
  run of the emulator leaves the guest's records and nothing else; concurrent appends never tear or
  reorder records and cannot deadlock; a log parses back to its records.  The guest cannot make the
  monitor write outside guest RAM, with the one crash of STAT characterised exactly.  The listener
  logs a stream of lines however it is cut, and stays within its tables.  A kick of the virtio
  device emits each chain's data and completes the chains in order; whatever the guest does it
  touches only the used ring, and it reads nothing outside guest memory; event suppression loses no
  kick.  A whole run of the virtio backend, from the frontend's first query over the setup of both queues
  to the hang-up, leaves the lines the driver announced and nothing else, and gives the frontend the indices at which
  the queues resume; for the guest of \<^verbatim>\<open>init.c\<close> the file is computed.  libvhost-user processes every message of a frontend that respects its limits without
  undefined behaviour, and so does the backend in a whole session; the library takes elements from any guest's rings safely and always comes to an
  end, and publishes an element only when it is written; a backend killed inside a push takes
  exactly the unfinished elements again when it is restarted; the driver is interrupted exactly when
  its event is passed.  The container command runs only after
  every confinement step has succeeded, the parent releases it only into its limits, and its exit
  status comes back.  The runner's replies do not depend on its logging, are always framed, and its
  log reaches the collector as whole records.

  \<^bold>\<open>Loops, fuel and bounds.\<close>
  The chain walk of \<^verbatim>\<open>virtio.c\<close> and its kick loop may run for ever (the model has a theorem that they
  can); they are \<open>partial_function (option)\<close>, where not returning is \<open>None\<close>.  The walks of
  libvhost-user carry fuel, \<open>Stop Diverges\<close> when it is used up: \<open>max_num + 2\<close> steps for a chain (each
  step counts one descriptor or maps at least one buffer, and both are compared with \<open>max_num\<close>),
  \<open>65537\<close> heads (the distance of two 16-bit indices falls by one in each round),
  the length of an indirect table plus one for its copy (each part read is not empty), the pages
  of a range plus three for the dirty log.  The theorems of \<open>Vu_Queue_Safe\<close> show that this is enough
  for the walks.  Other loops recurse over a list of inputs.  Vocabulary of a bounded buffer keeps
  the source's constants (\<open>VLOG_MAX_MSG\<close>, \<open>VIRTQUEUE_MAX_SIZE\<close>, \<open>VHOST_USER_MAX_RAM_SLOTS\<close>).

  \<^bold>\<open>Not modelled.\<close>
  The driver of the guest's kernel is given by what it stores (\<open>announces\<close>); the setup that \<open>Backend_Run\<close>
  follows is one order of messages without protocol features (the order per queue is size, base,
  addresses, call, kick), while the safety theorems hold for every order.
  The CPU (Unicorn), the kernel, the \<^verbatim>\<open>ip\<close> command and QEMU are outside the repository.  Memory fences have no
  effect (memory is sequentially consistent), and a guest changes its memory only between
  the operations of a device, or where an argument says so.  Messages to standard error, the instruction
  trace and signals (\<^verbatim>\<open>SIGPIPE\<close>) are left out.  The Python tools for deployment and the platform
  (\<^verbatim>\<open>ukdeploy.py\<close>, \<^verbatim>\<open>serverless.py\<close>) are not C code; the runners of projects 3 and 4 are copies of
  project 2's up to comments, and project 1's differs in its one \<^verbatim>\<open>read\<close>, which \<open>Runner\<close> models
  beside the loop; tests, demos and the vendored kernel headers carry no logic of the system.
\<close>

end
